(* ===== verification/Prelude.thy ===== *)
theory Prelude
  imports Main "HOL-Library.Multiset"
begin

text \<open>
  Shared ground of the development: the Go machine integers and the pieces of Go's
  \<^verbatim>\<open>strconv\<close> and \<^verbatim>\<open>strings\<close> packages the driver uses, association lists for Go's
  \<^verbatim>\<open>map[string]string\<close>, the generic list and sum lemmas the components share, and the
  \<^theory_text>\<open>named_theorems\<close> collections through which the component proofs are carried.

  Capacities in gigabytes are \<open>int\<close>: they come from an \<^verbatim>\<open>int64\<close> byte count divided by
  \<open>2 ^ 30\<close>, so each is below \<open>2 ^ 34\<close> and no sum of them reaches \<open>2 ^ 63\<close>. Where the code
  computes on bytes, the \<^verbatim>\<open>int64\<close> wrap-around is written out with \<open>wrap64\<close>.
\<close>

named_theorems go_simps \<open>unfoldings of the Go standard library model\<close>
named_theorems api_laws \<open>consequences of the API server contract\<close>
named_theorems books_simps \<open>how the operations change the capacity books\<close>

section \<open>Go integers\<close>

definition wrap64 :: "int \<Rightarrow> int" where
  "wrap64 x = (x + 2 ^ 63) mod 2 ^ 64 - 2 ^ 63"

definition wrap32 :: "int \<Rightarrow> int" where
  "wrap32 x = (x + 2 ^ 31) mod 2 ^ 32 - 2 ^ 31"

definition int64_range :: "int \<Rightarrow> bool" where
  "int64_range x \<longleftrightarrow> - (2 ^ 63) \<le> x \<and> x < 2 ^ 63"

lemma wrap64_id [simp]: "int64_range x \<Longrightarrow> wrap64 x = x"
  by (simp add: wrap64_def int64_range_def mod_pos_pos_trivial)

lemma wrap64_range: "int64_range (wrap64 x)"
proof -
  have "0 \<le> (x + 2 ^ 63) mod 2 ^ 64" "(x + 2 ^ 63) mod 2 ^ 64 < 2 ^ 64"
    by simp_all
  then show ?thesis by (simp add: wrap64_def int64_range_def)
qed

lemma wrap64_over: "2 ^ 63 \<le> x \<Longrightarrow> x < 2 ^ 64 \<Longrightarrow> wrap64 x = x - 2 ^ 64"
proof -
  assume a: "2 ^ 63 \<le> x" "x < 2 ^ 64"
  have "(x + 2 ^ 63) mod 2 ^ 64 = (x + 2 ^ 63 - 2 ^ 64) mod 2 ^ 64"
    by (rule minus_mod_self2 [symmetric])
  also have "\<dots> = x + 2 ^ 63 - 2 ^ 64"
    using a by (intro mod_pos_pos_trivial) simp_all
  finally show ?thesis by (simp add: wrap64_def)
qed

text \<open>Go's \<^verbatim>\<open>/\<close> truncates towards zero. The divisors of the modelled code are positive.\<close>

definition quot :: "int \<Rightarrow> int \<Rightarrow> int" where
  "quot a b = sgn a * sgn b * (\<bar>a\<bar> div \<bar>b\<bar>)"

lemma quot_nonneg [simp]: "0 \<le> a \<Longrightarrow> 0 < b \<Longrightarrow> quot a b = a div b"
  by (cases "a = 0") (simp_all add: quot_def)

lemma quot_neg: "a < 0 \<Longrightarrow> 0 < b \<Longrightarrow> quot a b = - ((- a) div b)"
  by (simp add: quot_def)

lemma quot_neg_le: "a < 0 \<Longrightarrow> 0 < b \<Longrightarrow> quot a b \<le> 0"
  by (simp add: quot_neg pos_imp_zdiv_nonneg_iff)

section \<open>Go strings\<close>

text \<open>
  A Go string is a byte string; \<open>string\<close> is a list of bytes. \<open>itoa\<close> is the decimal form
  \<^verbatim>\<open>%d\<close> prints for a non-negative number and \<open>atoi\<close> is \<^verbatim>\<open>strconv.Atoi\<close>: an optional sign,
  at least one digit, nothing else, and the value in the range of \<^verbatim>\<open>int\<close> (64 bits).
\<close>

definition digit_char :: "nat \<Rightarrow> char" where
  "digit_char d = ''0123456789'' ! d"

definition is_digit :: "char \<Rightarrow> bool" where
  "is_digit c \<longleftrightarrow> c \<in> set ''0123456789''"

fun itoa :: "nat \<Rightarrow> string" where
  "itoa n = (if n < 10 then [digit_char n] else itoa (n div 10) @ [digit_char (n mod 10)])"

declare itoa.simps [simp del]

definition digit_val :: "char \<Rightarrow> nat" where
  "digit_val c = of_char c - 48"

definition digits_val :: "string \<Rightarrow> nat" where
  "digits_val s = foldl (\<lambda>acc c. acc * 10 + digit_val c) 0 s"

definition atoi :: "string \<Rightarrow> int option" where
  "atoi s =
     (let neg = (s \<noteq> [] \<and> hd s = CHR ''-'');
          ds = (if s \<noteq> [] \<and> (hd s = CHR ''-'' \<or> hd s = CHR ''+'') then tl s else s)
      in if ds = [] \<or> \<not> list_all is_digit ds then None
         else let v = (if neg then - int (digits_val ds) else int (digits_val ds))
              in if int64_range v then Some v else None)"

text \<open>\<^verbatim>\<open>strconv.FormatInt\<close>.\<close>

definition itoa_int :: "int \<Rightarrow> string" where
  "itoa_int i = (if i < 0 then CHR ''-'' # itoa (nat (- i)) else itoa (nat i))"

lemma less_10_cases: "(d::nat) < 10 \<Longrightarrow> d = 0 \<or> d = 1 \<or> d = 2 \<or> d = 3 \<or> d = 4 \<or> d = 5 \<or> d = 6 \<or> d = 7 \<or> d = 8 \<or> d = 9"
  by arith

lemma is_digit_digit_char [simp]: "d < 10 \<Longrightarrow> is_digit (digit_char d)"
  by (drule less_10_cases) (auto simp: is_digit_def digit_char_def)

lemma digit_val_digit_char [simp]: "d < 10 \<Longrightarrow> digit_val (digit_char d) = d"
  by (drule less_10_cases) (auto simp: digit_val_def digit_char_def)

lemma itoa_digits: "list_all is_digit (itoa n)"
proof (induction n rule: itoa.induct)
  case (1 n)
  then show ?case by (cases "n < 10") (simp_all add: itoa.simps [of n])
qed

lemma itoa_not_Nil [simp]: "itoa n \<noteq> []"
  by (simp add: itoa.simps [of n])

lemma digits_val_snoc: "digits_val (xs @ [c]) = digits_val xs * 10 + digit_val c"
  by (simp add: digits_val_def)

lemma digits_val_itoa: "digits_val (itoa n) = n"
proof (induction n rule: itoa.induct)
  case (1 n)
  then show ?case
    by (cases "n < 10") (simp_all add: itoa.simps [of n] digits_val_snoc, simp add: digits_val_def)
qed

lemma digits_val_zeros: "digits_val (replicate k CHR ''0'' @ s) = digits_val s"
  by (induction k) (simp_all add: digits_val_def digit_val_def)

lemma itoa_inj: "itoa m = itoa n \<Longrightarrow> m = n"
  by (metis digits_val_itoa)

lemma itoa_hd: "is_digit (hd (itoa n))"
  using itoa_digits [of n] by (cases "itoa n") auto

lemma not_digit_sign: "\<not> is_digit (CHR ''-'')" "\<not> is_digit (CHR ''+'')" "\<not> is_digit (CHR ''/'')"
  by (simp_all add: is_digit_def)

lemma atoi_itoa_int: "int64_range i \<Longrightarrow> atoi (itoa_int i) = Some i"
proof (cases "i < 0")
  case True
  assume "int64_range i"
  with True show ?thesis
    by (simp add: atoi_def itoa_int_def itoa_digits digits_val_itoa Let_def)
next
  case False
  assume r: "int64_range i"
  have "hd (itoa (nat i)) \<noteq> CHR ''-''" "hd (itoa (nat i)) \<noteq> CHR ''+''"
    using itoa_hd [of "nat i"] not_digit_sign by metis+
  with False r show ?thesis
    by (simp add: atoi_def itoa_int_def itoa_digits digits_val_itoa Let_def)
qed

text \<open>\<^verbatim>\<open>strings.HasPrefix\<close>, \<^verbatim>\<open>strings.HasSuffix\<close>, \<^verbatim>\<open>strings.Contains\<close> and \<^verbatim>\<open>strings.Join\<close>.\<close>

definition has_prefix :: "string \<Rightarrow> string \<Rightarrow> bool" where
  "has_prefix s p \<longleftrightarrow> take (length p) s = p"

definition has_suffix :: "string \<Rightarrow> string \<Rightarrow> bool" where
  "has_suffix s p \<longleftrightarrow> has_prefix (rev s) (rev p)"

fun contains :: "string \<Rightarrow> string \<Rightarrow> bool" where
  "contains [] p = (p = [])"
| "contains (c # s) p = (has_prefix (c # s) p \<or> contains s p)"

fun join :: "string \<Rightarrow> string list \<Rightarrow> string" where
  "join sep [] = []"
| "join sep [x] = x"
| "join sep (x # y # xs) = x @ sep @ join sep (y # xs)"

text \<open>\<^verbatim>\<open>strings.Index\<close>, with \<open>None\<close> for \<open>-1\<close>.\<close>

fun index_of :: "string \<Rightarrow> string \<Rightarrow> nat option" where
  "index_of [] p = (if p = [] then Some 0 else None)"
| "index_of (c # cs) p =
     (if has_prefix (c # cs) p then Some 0 else map_option Suc (index_of cs p))"

text \<open>A character of \<^verbatim>\<open>[a-z0-9]\<close>.\<close>

definition lower_alnum :: "char \<Rightarrow> bool" where
  "lower_alnum c \<longleftrightarrow> c \<in> set ''abcdefghijklmnopqrstuvwxyz0123456789''"

lemma has_prefix_iff: "has_prefix s p \<longleftrightarrow> (\<exists>t. s = p @ t)"
  unfolding has_prefix_def by (metis append_eq_conv_conj append_take_drop_id)

lemma index_of_prefix: "index_of s p = Some i \<Longrightarrow> has_prefix (drop i s) p"
  by (induction s p arbitrary: i rule: index_of.induct) (auto simp: has_prefix_def split: if_splits)

lemma index_of_le: "index_of s p = Some i \<Longrightarrow> i \<le> length s"
  by (induction s p arbitrary: i rule: index_of.induct) (auto split: if_splits)

lemma contains_iff: "contains s p \<longleftrightarrow> (\<exists>a b. s = a @ p @ b)"
proof (induction s)
  case Nil
  then show ?case by auto
next
  case (Cons c s)
  show ?case
  proof
    assume "contains (c # s) p"
    then consider t where "c # s = p @ t" | a b where "s = a @ p @ b"
      using Cons.IH by (auto simp: has_prefix_iff)
    then show "\<exists>a b. c # s = a @ p @ b"
    proof cases
      case 1
      then show ?thesis by (metis append_Nil)
    next
      case 2
      then show ?thesis by (metis append_Cons)
    qed
  next
    assume "\<exists>a b. c # s = a @ p @ b"
    then obtain a b where ab: "c # s = a @ p @ b" by blast
    show "contains (c # s) p"
    proof (cases a)
      case Nil
      with ab show ?thesis unfolding contains.simps by (auto simp: has_prefix_iff)
    next
      case (Cons d a')
      with ab have "s = a' @ p @ b" by simp
      with \<open>contains s p = (\<exists>a b. s = a @ p @ b)\<close> show ?thesis by auto
    qed
  qed
qed

section \<open>Go maps with string keys, as association lists\<close>

type_synonym smap = "(string \<times> string) list"

text \<open>Reading a missing key of a Go map gives the empty string.\<close>

definition mget :: "smap \<Rightarrow> string \<Rightarrow> string" where
  "mget m k = (case map_of m k of None \<Rightarrow> '''' | Some v \<Rightarrow> v)"

definition mput :: "string \<Rightarrow> string \<Rightarrow> smap \<Rightarrow> smap" where
  "mput k v m = (k, v) # filter (\<lambda>p. fst p \<noteq> k) m"

lemma mget_Nil [simp]: "mget [] k = ''''"
  by (simp add: mget_def)

lemma mget_Cons [simp]: "mget ((k', v) # m) k = (if k = k' then v else mget m k)"
  by (simp add: mget_def)

lemma map_of_filter_key: "map_of (filter (\<lambda>p. fst p \<noteq> v) xs) u = (if u = v then None else map_of xs u)"
  by (induction xs) auto

lemma map_of_mput: "map_of (mput k v m) = (map_of m)(k \<mapsto> v)"
  by (rule ext) (simp add: mput_def map_of_filter_key)

lemma mget_mput: "mget (mput k v m) k' = (if k' = k then v else mget m k')"
  by (simp add: mget_def mput_def map_of_filter_key)

section \<open>Lists of keyed records\<close>

text \<open>
  Objects of one Kubernetes kind, and the shares of a pool, are lists of records with a
  key. \<open>upd_at key a f xs\<close> rewrites every record whose key is \<open>a\<close>; \<open>upd_first\<close> rewrites the
  first one only, as the code's \<^verbatim>\<open>for\<close> loops with a \<^verbatim>\<open>break\<close> do.
\<close>

definition upd_at :: "('a \<Rightarrow> 'k) \<Rightarrow> 'k \<Rightarrow> ('a \<Rightarrow> 'a) \<Rightarrow> 'a list \<Rightarrow> 'a list" where
  "upd_at key a f xs = map (\<lambda>x. if key x = a then f x else x) xs"

fun upd_first :: "('a \<Rightarrow> 'k) \<Rightarrow> 'k \<Rightarrow> ('a \<Rightarrow> 'a) \<Rightarrow> 'a list \<Rightarrow> 'a list" where
  "upd_first key a f [] = []"
| "upd_first key a f (x # xs) = (if key x = a then f x # xs else x # upd_first key a f xs)"

lemma upd_first_notin: "a \<notin> key ` set xs \<Longrightarrow> upd_first key a f xs = xs"
  by (induction xs) auto

lemma upd_first_eq_upd_at:
  "distinct (map key xs) \<Longrightarrow> upd_first key a f xs = upd_at key a f xs"
proof (induction xs)
  case Nil
  then show ?case by (simp add: upd_at_def)
next
  case (Cons x xs)
  have "map (\<lambda>y. if key y = a then f y else y) xs = xs" if "key x = a"
    using Cons.prems that by (intro map_idI) (auto simp: image_iff)
  then show ?case using Cons by (auto simp: upd_at_def)
qed

lemma map_upd_first:
  "(\<And>x. g (f x) = g x) \<Longrightarrow> map g (upd_first key a f xs) = map g xs"
  by (induction xs) auto

lemma length_upd_first [simp]: "length (upd_first key a f xs) = length xs"
  by (induction xs) auto

lemma set_upd_first:
  "x \<in> set (upd_first key a f xs) \<Longrightarrow> x \<in> set xs \<or> (\<exists>y \<in> set xs. key y = a \<and> x = f y)"
  by (induction xs) (auto split: if_splits)

lemma sum_list_upd_first:
  fixes g :: "'a \<Rightarrow> int"
  assumes "\<And>x. g (f x) = g x + d"
  shows "sum_list (map g (upd_first key a f xs)) =
    sum_list (map g xs) + (if a \<in> key ` set xs then d else 0)"
  by (induction xs) (auto simp: assms)

lemma map_upd_at: "(\<And>x. g (f x) = g x) \<Longrightarrow> map g (upd_at key a f xs) = map g xs"
  by (simp add: upd_at_def)

lemma set_upd_at:
  "x \<in> set (upd_at key a f xs) \<longleftrightarrow>
     (x \<in> set xs \<and> key x \<noteq> a) \<or> (\<exists>y \<in> set xs. key y = a \<and> x = f y)"
  by (auto simp: upd_at_def)

lemma filter_upd_at:
  assumes "\<And>x. P (f x) = P x"
  shows "filter P (upd_at key a f xs) = upd_at key a f (filter P xs)"
  using assms by (induction xs) (auto simp: upd_at_def)

lemma upd_at_notin: "a \<notin> key ` set xs \<Longrightarrow> upd_at key a f xs = xs"
  unfolding upd_at_def by (intro map_idI) (auto simp: image_iff)

lemma sum_list_upd_at:
  fixes g :: "'a \<Rightarrow> int"
  assumes "distinct (map key xs)" and "x \<in> set xs" and "key x = a"
  shows "sum_list (map g (upd_at key a f xs)) = sum_list (map g xs) + (g (f x) - g x)"
  using assms
proof (induction xs)
  case Nil
  then show ?case by simp
next
  case (Cons y ys)
  show ?case
  proof (cases "key y = a")
    case True
    then have "x = y" "a \<notin> key ` set ys" using Cons.prems by (auto simp: image_iff)
    moreover from this have "upd_at key a f ys = ys" by (intro upd_at_notin)
    ultimately show ?thesis using True by (simp add: upd_at_def)
  next
    case False
    with Cons show ?thesis by (auto simp: upd_at_def)
  qed
qed

lemma distinct_map_inj: "distinct (map f xs) \<Longrightarrow> x \<in> set xs \<Longrightarrow> y \<in> set xs \<Longrightarrow> f x = f y \<Longrightarrow> x = y"
  by (induction xs) (auto simp: image_iff)

text \<open>The first record with a key, as the code's lookup loops find it.\<close>

lemma find_SomeD: "find P xs = Some x \<Longrightarrow> x \<in> set xs \<and> P x"
  by (auto simp: find_Some_iff)

lemma find_key_distinct:
  "distinct (map key xs) \<Longrightarrow> x \<in> set xs \<Longrightarrow> find (\<lambda>y. key y = key x) xs = Some x"
  by (induction xs) (auto simp: image_iff)

text \<open>Sums over a filtered list, as the recount of a share's volumes takes them.\<close>

lemma sum_list_filter_upd_at:
  fixes g :: "'a \<Rightarrow> int"
  assumes "distinct (map key xs)" and "x \<in> set xs" and "key x = a"
    and "\<And>y. P (f y) = P y"
  shows "sum_list (map g (filter P (upd_at key a f xs))) =
    sum_list (map g (filter P xs)) + (if P x then g (f x) - g x else 0)"
proof (cases "P x")
  case True
  have "distinct (map key (filter P xs))" using assms(1) by (rule distinct_map_filter)
  with True assms show ?thesis
    by (simp add: filter_upd_at sum_list_upd_at)
next
  case False
  have "a \<notin> key ` set (filter P xs)"
    using False assms by (auto dest: distinct_map_inj [OF assms(1)])
  with False assms show ?thesis by (simp add: filter_upd_at upd_at_notin)
qed

lemma sum_list_filter_remove:
  fixes g :: "'a \<Rightarrow> int"
  assumes "distinct (map key xs)" and "x \<in> set xs"
  shows "sum_list (map g (filter P (filter (\<lambda>y. key y \<noteq> key x) xs))) =
    sum_list (map g (filter P xs)) - (if P x then g x else 0)"
  using assms
proof (induction xs)
  case Nil
  then show ?case by simp
next
  case (Cons y ys)
  show ?case
  proof (cases "y = x")
    case True
    have "filter (\<lambda>y. key y \<noteq> key x) ys = ys"
      using Cons.prems True by (intro filter_True) (auto simp: image_iff)
    with True show ?thesis by simp
  next
    case False
    then have "key y \<noteq> key x" "x \<in> set ys" using Cons.prems by (auto simp: image_iff)
    with Cons show ?thesis by auto
  qed
qed

lemma sum_list_mset_cong:
  fixes g :: "'a \<Rightarrow> int"
  assumes "mset xs = mset ys"
  shows "sum_list (map g xs) = sum_list (map g ys)"
  using assms by (metis mset_map sum_mset_sum_list)

section \<open>What a sequence of calls keeps\<close>

text \<open>
  Code that threads a world through calls keeps a relation \<open>R\<close> between the first world and the
  current one when each call does. The rules follow the code: a call and its continuation, the
  branches of a result, and a returned world.
\<close>

lemma frame_bind:
  "R w (snd m) \<Longrightarrow> (\<And>r w1. R w w1 \<Longrightarrow> R w (snd (f r w1))) \<Longrightarrow> R w (snd (case m of (r, w1) \<Rightarrow> f r w1))"
  by (cases m) simp

lemma frame_branches:
  "\<And>a b r. R w (snd a) \<Longrightarrow> (\<And>x. R w (snd (b x))) \<Longrightarrow> R w (snd (case r of None \<Rightarrow> a | Some x \<Rightarrow> b x))"
  "\<And>a b r. (\<And>x. R w (snd (a x))) \<Longrightarrow> (\<And>x. R w (snd (b x))) \<Longrightarrow> R w (snd (case r of Inl x \<Rightarrow> a x | Inr x \<Rightarrow> b x))"
  "\<And>a b r. R w (snd a) \<Longrightarrow> R w (snd b) \<Longrightarrow> R w (snd (case r of True \<Rightarrow> a | False \<Rightarrow> b))"
  "\<And>a b r. R w (snd a) \<Longrightarrow> (\<And>x xs. R w (snd (b x xs))) \<Longrightarrow> R w (snd (case r of [] \<Rightarrow> a | x # xs \<Rightarrow> b x xs))"
  "\<And>a b c. R w (snd a) \<Longrightarrow> R w (snd b) \<Longrightarrow> R w (snd (if c then a else b))"
  "\<And>f p. (\<And>a b. R w (snd (f a b))) \<Longrightarrow> R w (snd (case p of (a, b) \<Rightarrow> f a b))"
  "\<And>x w1. R w w1 \<Longrightarrow> R w (snd (x, w1))"
  "\<And>a b c. R w a \<Longrightarrow> R w b \<Longrightarrow> R w (if c then a else b)"
  by (auto split: option.splits sum.splits bool.splits list.splits)

lemmas frame_rules = frame_bind frame_branches

end
