(* ===== verification/Api_Types.thy ===== *)
theory Api_Types
  imports Prelude
begin

text \<open>
  The custom resources of \<^verbatim>\<open>api/v1alpha1\<close> as records, one field per Go field: FileSharePool,
  SubVolume and Snapshot, with the methods of the pool types. Enumerated
  Go strings stay strings, optional pointers are \<open>option\<close>, timestamps are \<open>int\<close>, and labels
  and annotations are association lists. Of \<^verbatim>\<open>metav1.ObjectMeta\<close> and \<^verbatim>\<open>metav1.Condition\<close> the
  fields are kept that the driver reads or writes.
\<close>

type_synonym time = int

section \<open>Metadata\<close>

record ObjectMeta =
  om_Name :: string
  om_Labels :: smap
  om_Annotations :: smap
  om_Finalizers :: "string list"
  om_DeletionTimestamp :: "time option"
  om_Generation :: int
  om_UID :: string

record Condition =
  co_Type :: string
  co_Status :: bool
  co_ObservedGeneration :: int
  co_LastTransitionTime :: time
  co_Reason :: string
  co_Message :: string

section \<open>FileSharePool\<close>

record ZoneMountTarget =
  mt_Zone :: string
  mt_MountTargetID :: string
  mt_MountTargetIP :: string
  mt_ExportPath :: string

record AccessorZone =
  az_Zone :: string
  az_SubnetID :: string

record ShareTier =
  ti_Name :: string
  ti_Profile :: string
  ti_ShareSizeGB :: int
  ti_IOPS :: "int option"
  ti_MaxShares :: int
  ti_InitialShares :: int

record GoldenImageConfig =
  gc_Enabled :: bool
  gc_TargetNamespaces :: "string list"
  gc_ImageFilter :: "string list"
  gc_RefreshInterval :: string
  gc_PVCSizeGB :: int

record GoldenImageNamespaceStatus =
  gn_Namespace :: string
  gn_Phase :: string
  gn_PVCName :: string
  gn_TemplateName :: string
  gn_DataSourceName :: string
  gn_LastSyncTime :: "time option"
  gn_Message :: string

record GoldenImageStatus =
  gi_Name :: string
  gi_SourceURL :: string
  gi_Namespaces :: "GoldenImageNamespaceStatus list"

record FileSharePoolSpec =
  ps_Zone :: string
  ps_Profile :: string
  ps_ShareSizeGB :: int
  ps_IOPS :: "int option"
  ps_MaxShares :: int
  ps_InitialShares :: int
  ps_AutoExpand :: bool
  ps_ExpandThresholdPercent :: int
  ps_AllocationStrategy :: string
  ps_EncryptionInTransit :: bool
  ps_DefaultPermissions :: string
  ps_DefaultUID :: "int option"
  ps_DefaultGID :: "int option"
  ps_ResourceGroup :: string
  ps_Tags :: "string list"
  ps_SecurityGroupIDs :: "string list"
  ps_MountOptions :: "string list"
  ps_AccessorZones :: "AccessorZone list"
  ps_Tiers :: "ShareTier list"
  ps_DrainShares :: "string list"
  ps_GoldenImages :: "GoldenImageConfig option"

record ShareDrainStatus =
  ds_ShareID :: string
  ds_RemainingSubVolumes :: int
  ds_RemainingSnapshots :: int
  ds_Drained :: bool
  ds_DrainStartedAt :: "time option"

record PoolShareStatus =
  sh_ShareID :: string
  sh_ShareName :: string
  sh_MountTargetIP :: string
  sh_MountTargetID :: string
  sh_ExportPath :: string
  sh_TotalGB :: int
  sh_AllocatedGB :: int
  sh_PVCCount :: int
  sh_State :: string
  sh_Tier :: string
  sh_Zone :: string
  sh_MountTargets :: "ZoneMountTarget list"
  sh_CreatedAt :: "time option"

record FileSharePoolStatus =
  pt_Phase :: string
  pt_Shares :: "PoolShareStatus list"
  pt_ShareCount :: int
  pt_TotalCapacityGB :: int
  pt_TotalAllocatedGB :: int
  pt_TotalPVCCount :: int
  pt_GoldenImages :: "GoldenImageStatus list option"
  pt_DrainStatus :: "ShareDrainStatus list"
  pt_Conditions :: "Condition list"
  pt_LastReconcileTime :: "time option"

record FileSharePool =
  fp_Meta :: ObjectMeta
  fp_Spec :: FileSharePoolSpec
  fp_Status :: FileSharePoolStatus

abbreviation pool_name :: "FileSharePool \<Rightarrow> string" where
  "pool_name p \<equiv> om_Name (fp_Meta p)"

abbreviation pool_shares :: "FileSharePool \<Rightarrow> PoolShareStatus list" where
  "pool_shares p \<equiv> pt_Shares (fp_Status p)"

text \<open>The share configuration a tier name selects: profile, size, IOPS, the share limits.\<close>

datatype tier_error = TierRequired | TierNotFound

definition TierConfig ::
  "FileSharePoolSpec \<Rightarrow> string \<Rightarrow> tier_error + (string \<times> int \<times> int option \<times> int \<times> int)" where
  "TierConfig s tierName =
     (if ps_Tiers s = []
      then Inr (ps_Profile s, ps_ShareSizeGB s, ps_IOPS s, ps_MaxShares s, ps_InitialShares s)
      else if tierName = '''' then Inl TierRequired
      else case find (\<lambda>t. ti_Name t = tierName) (ps_Tiers s) of
        Some t \<Rightarrow> Inr (ti_Profile t, ti_ShareSizeGB t, ti_IOPS t, ti_MaxShares t, ti_InitialShares t)
      | None \<Rightarrow> Inl TierNotFound)"

definition AllAccessibleZones :: "FileSharePoolSpec \<Rightarrow> string list" where
  "AllAccessibleZones s = ps_Zone s # map az_Zone (ps_AccessorZones s)"

definition IsAccessibleZone :: "FileSharePoolSpec \<Rightarrow> string \<Rightarrow> bool" where
  "IsAccessibleZone s zone \<longleftrightarrow>
     zone = ps_Zone s \<or> list_ex (\<lambda>az. az_Zone az = zone) (ps_AccessorZones s)"

definition MountTargetIPForZone :: "PoolShareStatus \<Rightarrow> string \<Rightarrow> string" where
  "MountTargetIPForZone s zone =
     (case find (\<lambda>mt. mt_Zone mt = zone) (sh_MountTargets s) of
        Some mt \<Rightarrow> mt_MountTargetIP mt
      | None \<Rightarrow> sh_MountTargetIP s)"

definition shareAccessibleZones :: "PoolShareStatus \<Rightarrow> string list" where
  "shareAccessibleZones s = map mt_Zone (sh_MountTargets s)"

lemma IsAccessibleZone_iff: "IsAccessibleZone s z \<longleftrightarrow> z \<in> set (AllAccessibleZones s)"
  by (auto simp: IsAccessibleZone_def AllAccessibleZones_def list_ex_iff)

section \<open>SubVolume\<close>

record SubVolumeSpec =
  vs_PoolName :: string
  vs_ShareID :: string
  vs_ShareMountTargetIP :: string
  vs_ShareExportPath :: string
  vs_SubPath :: string
  vs_RequestedGB :: int
  vs_PVName :: string
  vs_PVCName :: string
  vs_PVCNamespace :: string
  vs_UID :: "int option"
  vs_GID :: "int option"
  vs_Permissions :: string
  vs_ReclaimPolicy :: string
  vs_SourceVolume :: string
  vs_SourceShareID :: string

record CloneProgress =
  cp_BytesCopied :: int
  cp_TotalBytes :: int
  cp_StartedAt :: "time option"
  cp_CompletedAt :: "time option"
  cp_Error :: string

record SubVolumeStatus =
  vt_Phase :: string
  vt_ActualUsageBytes :: "int option"
  vt_LastUsageCheck :: "time option"
  vt_Conditions :: "Condition list"
  vt_CreatedAt :: "time option"
  vt_CloneStatus :: string
  vt_CloneProgress :: "CloneProgress option"
  vt_DiskChain :: "string list"
  vt_ChainOperation :: string

record SubVolume =
  sv_Meta :: ObjectMeta
  sv_Spec :: SubVolumeSpec
  sv_Status :: SubVolumeStatus

abbreviation sv_name :: "SubVolume \<Rightarrow> string" where
  "sv_name v \<equiv> om_Name (sv_Meta v)"

section \<open>Snapshot\<close>

record SnapshotSpec =
  ns_SourceSubVolume :: string
  ns_PoolName :: string
  ns_ShareID :: string
  ns_ShareMountTargetIP :: string
  ns_SnapshotPath :: string
  ns_SourceSubPath :: string
  ns_SizeGB :: int

text \<open>
  Of the status of a snapshot of a running VM, the two fields with a structure of their own
  (\<^verbatim>\<open>VMCopy\<close> and \<^verbatim>\<open>VMCopySet\<close>) are left out: only the VM copy loop reads them.
\<close>

record SnapshotStatus =
  nt_Phase :: string
  nt_ReadyToUse :: bool
  nt_SizeBytes :: int
  nt_CreationTime :: "time option"
  nt_ChainFile :: string
  nt_MergeChild :: string
  nt_MethodReason :: string
  nt_VMCopyAttempts :: int
  nt_VMCopyStarted :: "time option"
  nt_VMCopyRetryAfter :: "time option"
  nt_CopyRestorePoint :: "time option"
  nt_CopyMoment :: "time option"
  nt_Consistency :: string
  nt_ConsistencyReason :: string
  nt_CopyID :: string
  nt_Message :: string

record Snapshot =
  sn_Meta :: ObjectMeta
  sn_Spec :: SnapshotSpec
  sn_Status :: SnapshotStatus

abbreviation sn_name :: "Snapshot \<Rightarrow> string" where
  "sn_name n \<equiv> om_Name (sn_Meta n)"

section \<open>Other objects the pool code reads\<close>

text \<open>The fields the driver reads of a BackupPolicy and of a BackupRestore, and StorageClass.\<close>

record BackupPolicy =
  bp_Name :: string
  bp_SnapshotPool :: string

record BackupRestore =
  br_TargetNamespace :: string
  br_TargetName :: string
  br_Phase :: string

record StorageClass =
  sc_Name :: string
  sc_Labels :: smap
  sc_OwnerName :: string
  sc_OwnerUID :: string
  sc_Provisioner :: string
  sc_Parameters :: smap
  sc_MountOptions :: "string list"
  sc_WaitForFirstConsumer :: bool
  sc_AllowVolumeExpansion :: bool
  sc_ReclaimPolicy :: string

section \<open>Labels and annotations\<close>

definition poolLabelKey :: string where
  "poolLabelKey = ''storage.ibmcloud.io/pool''"

definition shareLabelKey :: string where
  "shareLabelKey = ''storage.ibmcloud.io/share-id''"

definition sourceLabelKey :: string where
  "sourceLabelKey = ''storage.ibmcloud.io/source-subvolume''"

definition cloneSourceLabelKey :: string where
  "cloneSourceLabelKey = ''storage.ibmcloud.io/clone-source''"

definition restoreSnapshotLabel :: string where
  "restoreSnapshotLabel = ''storage.ibmcloud.io/restore-snapshot''"

definition RestorePendingLabel :: string where
  "RestorePendingLabel = ''storage.ibmcloud.io/restore-pending''"

lemmas label_keys = poolLabelKey_def shareLabelKey_def sourceLabelKey_def cloneSourceLabelKey_def
  restoreSnapshotLabel_def RestorePendingLabel_def

end
