(* ===== verification/K8s_Client.thy ===== *)
theory K8s_Client
  imports Api_Types
begin

text \<open>
  \<^verbatim>\<open>pkg/k8s\<close>: the interface \<open>Client\<close> the controllers use (\<^verbatim>\<open>client.go\<close>) and \<open>realClient\<close>
  (\<^verbatim>\<open>real_client.go\<close>), which implements it on the controller-runtime client. The
  controller-runtime client and the API server behind it are not part of the repository: they
  are the parameter \<open>crclient\<close>, and what the driver relies on is the contract
  \<open>api_kind\<close> (one kind of object) and \<open>api_server\<close> (the kinds do not disturb each other).
  \<open>k8s_api\<close> is the contract of the interface; the sublocale shows that \<open>realClient\<close>
  keeps it on every API server that keeps its own. An in-memory API server with injected write
  failures interprets both.
\<close>

datatype kerr = KNotFound | KConflict | KAlreadyExists | KOther

section \<open>The controller-runtime client\<close>

record ('w, 'o) resource =
  r_get :: "string \<Rightarrow> 'w \<Rightarrow> kerr + 'o"
  r_list :: "(smap \<Rightarrow> bool) \<Rightarrow> 'w \<Rightarrow> kerr + 'o list"
  r_create :: "'o \<Rightarrow> 'w \<Rightarrow> kerr option \<times> 'w"
  r_update :: "'o \<Rightarrow> 'w \<Rightarrow> kerr option \<times> 'w"
  r_status :: "'o \<Rightarrow> 'w \<Rightarrow> kerr option \<times> 'w"
  r_delete :: "string \<Rightarrow> 'w \<Rightarrow> kerr option \<times> 'w"

record 'w crclient =
  cr_pools :: "('w, FileSharePool) resource"
  cr_subvols :: "('w, SubVolume) resource"
  cr_snaps :: "('w, Snapshot) resource"
  cr_policies :: "'w \<Rightarrow> kerr + BackupPolicy list"
  cr_restores :: "'w \<Rightarrow> kerr + BackupRestore list"
  cr_nodeLabels :: "string \<Rightarrow> 'w \<Rightarrow> kerr + smap"
  cr_getClass :: "string \<Rightarrow> 'w \<Rightarrow> kerr + StorageClass"
  cr_createClass :: "StorageClass \<Rightarrow> 'w \<Rightarrow> kerr option \<times> 'w"

text \<open>The selectors of controller-runtime: a label with a value, and a label that is set.\<close>

definition MatchingLabels :: "string \<Rightarrow> string \<Rightarrow> smap \<Rightarrow> bool" where
  "MatchingLabels k v m \<longleftrightarrow> map_of m k = Some v"

definition HasLabels :: "string \<Rightarrow> smap \<Rightarrow> bool" where
  "HasLabels k m \<longleftrightarrow> map_of m k \<noteq> None"

definition Everything :: "smap \<Rightarrow> bool" where
  "Everything m \<longleftrightarrow> True"

section \<open>The interface\<close>

record 'w Client =
  GetFileSharePool :: "string \<Rightarrow> 'w \<Rightarrow> kerr + FileSharePool"
  ListFileSharePools :: "'w \<Rightarrow> kerr + FileSharePool list"
  UpdateFileSharePoolStatus :: "FileSharePool \<Rightarrow> 'w \<Rightarrow> kerr option \<times> 'w"
  UpdateFileSharePool :: "FileSharePool \<Rightarrow> 'w \<Rightarrow> kerr option \<times> 'w"
  GetNodeZone :: "string \<Rightarrow> 'w \<Rightarrow> kerr + string"
  GetSubVolume :: "string \<Rightarrow> 'w \<Rightarrow> kerr + SubVolume"
  ListSubVolumes :: "string \<Rightarrow> 'w \<Rightarrow> kerr + SubVolume list"
  ListSubVolumesByShare :: "string \<Rightarrow> 'w \<Rightarrow> kerr + SubVolume list"
  ListCloneSubVolumes :: "'w \<Rightarrow> kerr + SubVolume list"
  HasOpenRestore :: "string \<Rightarrow> string \<Rightarrow> 'w \<Rightarrow> kerr + bool"
  BackupPolicyUsingPool :: "string \<Rightarrow> 'w \<Rightarrow> kerr + string"
  CreateSubVolume :: "SubVolume \<Rightarrow> 'w \<Rightarrow> kerr option \<times> 'w"
  UpdateSubVolume :: "SubVolume \<Rightarrow> 'w \<Rightarrow> kerr option \<times> 'w"
  UpdateSubVolumeStatus :: "SubVolume \<Rightarrow> 'w \<Rightarrow> kerr option \<times> 'w"
  DeleteSubVolume :: "string \<Rightarrow> 'w \<Rightarrow> kerr option \<times> 'w"
  GetSnapshot :: "string \<Rightarrow> 'w \<Rightarrow> kerr + Snapshot"
  ListSnapshots :: "string \<Rightarrow> 'w \<Rightarrow> kerr + Snapshot list"
  ListSnapshotsByShare :: "string \<Rightarrow> 'w \<Rightarrow> kerr + Snapshot list"
  ListSnapshotsBySource :: "string \<Rightarrow> 'w \<Rightarrow> kerr + Snapshot list"
  CreateSnapshot :: "Snapshot \<Rightarrow> 'w \<Rightarrow> kerr option \<times> 'w"
  UpdateSnapshot :: "Snapshot \<Rightarrow> 'w \<Rightarrow> kerr option \<times> 'w"
  UpdateSnapshotStatus :: "Snapshot \<Rightarrow> 'w \<Rightarrow> kerr option \<times> 'w"
  DeleteSnapshot :: "string \<Rightarrow> 'w \<Rightarrow> kerr option \<times> 'w"
  GetStorageClass :: "string \<Rightarrow> 'w \<Rightarrow> kerr + StorageClass"
  CreateStorageClass :: "StorageClass \<Rightarrow> 'w \<Rightarrow> kerr option \<times> 'w"

section \<open>realClient\<close>

definition realClient_GetFileSharePool :: "'w crclient \<Rightarrow> string \<Rightarrow> 'w \<Rightarrow> kerr + FileSharePool" where
  "realClient_GetFileSharePool c name w = r_get (cr_pools c) name w"

definition realClient_ListFileSharePools :: "'w crclient \<Rightarrow> 'w \<Rightarrow> kerr + FileSharePool list" where
  "realClient_ListFileSharePools c w = r_list (cr_pools c) Everything w"

definition realClient_ListSubVolumes :: "'w crclient \<Rightarrow> string \<Rightarrow> 'w \<Rightarrow> kerr + SubVolume list" where
  "realClient_ListSubVolumes c poolName w =
     r_list (cr_subvols c) (MatchingLabels poolLabelKey poolName) w"

definition realClient_ListSubVolumesByShare :: "'w crclient \<Rightarrow> string \<Rightarrow> 'w \<Rightarrow> kerr + SubVolume list" where
  "realClient_ListSubVolumesByShare c shareID w =
     r_list (cr_subvols c) (MatchingLabels shareLabelKey shareID) w"

definition realClient_ListCloneSubVolumes :: "'w crclient \<Rightarrow> 'w \<Rightarrow> kerr + SubVolume list" where
  "realClient_ListCloneSubVolumes c w = r_list (cr_subvols c) (HasLabels cloneSourceLabelKey) w"

definition realClient_BackupPolicyUsingPool :: "'w crclient \<Rightarrow> string \<Rightarrow> 'w \<Rightarrow> kerr + string" where
  "realClient_BackupPolicyUsingPool c poolName w =
     (case cr_policies c w of
        Inl e \<Rightarrow> Inl e
      | Inr items \<Rightarrow>
          Inr (case find (\<lambda>p. bp_SnapshotPool p = poolName) items of
                 Some p \<Rightarrow> bp_Name p
               | None \<Rightarrow> ''''))"

definition realClient_HasOpenRestore :: "'w crclient \<Rightarrow> string \<Rightarrow> string \<Rightarrow> 'w \<Rightarrow> kerr + bool" where
  "realClient_HasOpenRestore c pvcNamespace pvcName w =
     (case cr_restores c w of
        Inl e \<Rightarrow> Inl e
      | Inr items \<Rightarrow>
          Inr (list_ex (\<lambda>r. br_TargetNamespace r = pvcNamespace \<and> br_TargetName r = pvcName
                 \<and> br_Phase r \<noteq> ''Done'' \<and> br_Phase r \<noteq> ''Failed'') items))"

text \<open>Deleting reads the object first; a read error is returned as it is.\<close>

definition realClient_DeleteSubVolume :: "'w crclient \<Rightarrow> string \<Rightarrow> 'w \<Rightarrow> kerr option \<times> 'w" where
  "realClient_DeleteSubVolume c name w =
     (case r_get (cr_subvols c) name w of
        Inl e \<Rightarrow> (Some e, w)
      | Inr v \<Rightarrow> r_delete (cr_subvols c) (sv_name v) w)"

definition realClient_ListSnapshots :: "'w crclient \<Rightarrow> string \<Rightarrow> 'w \<Rightarrow> kerr + Snapshot list" where
  "realClient_ListSnapshots c poolName w =
     r_list (cr_snaps c) (MatchingLabels poolLabelKey poolName) w"

definition realClient_ListSnapshotsByShare :: "'w crclient \<Rightarrow> string \<Rightarrow> 'w \<Rightarrow> kerr + Snapshot list" where
  "realClient_ListSnapshotsByShare c shareID w =
     r_list (cr_snaps c) (MatchingLabels shareLabelKey shareID) w"

definition realClient_ListSnapshotsBySource :: "'w crclient \<Rightarrow> string \<Rightarrow> 'w \<Rightarrow> kerr + Snapshot list" where
  "realClient_ListSnapshotsBySource c source w =
     r_list (cr_snaps c) (MatchingLabels sourceLabelKey source) w"

definition realClient_DeleteSnapshot :: "'w crclient \<Rightarrow> string \<Rightarrow> 'w \<Rightarrow> kerr option \<times> 'w" where
  "realClient_DeleteSnapshot c name w =
     (case r_get (cr_snaps c) name w of
        Inl e \<Rightarrow> (Some e, w)
      | Inr s \<Rightarrow> r_delete (cr_snaps c) (sn_name s) w)"

definition realClient_GetNodeZone :: "'w crclient \<Rightarrow> string \<Rightarrow> 'w \<Rightarrow> kerr + string" where
  "realClient_GetNodeZone c nodeName w =
     (case cr_nodeLabels c nodeName w of
        Inl e \<Rightarrow> Inl e
      | Inr labels \<Rightarrow>
          (case map_of labels ''topology.kubernetes.io/zone'' of
             Some z \<Rightarrow> Inr z
           | None \<Rightarrow>
               (case map_of labels ''failure-domain.beta.kubernetes.io/zone'' of
                  Some z \<Rightarrow> Inr z
                | None \<Rightarrow> Inl KOther)))"

definition realClient :: "'w crclient \<Rightarrow> 'w Client" where
  "realClient c = \<lparr>
     GetFileSharePool = realClient_GetFileSharePool c,
     ListFileSharePools = realClient_ListFileSharePools c,
     UpdateFileSharePoolStatus = r_status (cr_pools c),
     UpdateFileSharePool = r_update (cr_pools c),
     GetNodeZone = realClient_GetNodeZone c,
     GetSubVolume = r_get (cr_subvols c),
     ListSubVolumes = realClient_ListSubVolumes c,
     ListSubVolumesByShare = realClient_ListSubVolumesByShare c,
     ListCloneSubVolumes = realClient_ListCloneSubVolumes c,
     HasOpenRestore = realClient_HasOpenRestore c,
     BackupPolicyUsingPool = realClient_BackupPolicyUsingPool c,
     CreateSubVolume = r_create (cr_subvols c),
     UpdateSubVolume = r_update (cr_subvols c),
     UpdateSubVolumeStatus = r_status (cr_subvols c),
     DeleteSubVolume = realClient_DeleteSubVolume c,
     GetSnapshot = r_get (cr_snaps c),
     ListSnapshots = realClient_ListSnapshots c,
     ListSnapshotsByShare = realClient_ListSnapshotsByShare c,
     ListSnapshotsBySource = realClient_ListSnapshotsBySource c,
     CreateSnapshot = r_create (cr_snaps c),
     UpdateSnapshot = r_update (cr_snaps c),
     UpdateSnapshotStatus = r_status (cr_snaps c),
     DeleteSnapshot = realClient_DeleteSnapshot c,
     GetStorageClass = cr_getClass c,
     CreateStorageClass = cr_createClass c\<rparr>"

lemmas realClient_methods = realClient_GetFileSharePool_def realClient_ListFileSharePools_def
  realClient_ListSubVolumes_def realClient_ListSubVolumesByShare_def
  realClient_ListCloneSubVolumes_def realClient_BackupPolicyUsingPool_def
  realClient_HasOpenRestore_def realClient_DeleteSubVolume_def realClient_ListSnapshots_def
  realClient_ListSnapshotsByShare_def realClient_ListSnapshotsBySource_def
  realClient_DeleteSnapshot_def realClient_GetNodeZone_def

section \<open>The contract of one kind of object\<close>

text \<open>
  \<open>objs w\<close> are the objects of the kind in the cluster. Names are unique. A read that succeeds
  returns a stored object; a write that reports an error changed nothing. Create drops the status
  (it is a subresource); an update of the object keeps the stored status, an update of the
  status keeps everything else.
\<close>

locale api_kind =
  fixes r :: "('w, 'o) resource"
    and meta :: "'o \<Rightarrow> ObjectMeta"
    and status :: "'o \<Rightarrow> 's"
    and put_status :: "'s \<Rightarrow> 'o \<Rightarrow> 'o"
    and ok :: "'w \<Rightarrow> bool"
    and objs :: "'w \<Rightarrow> 'o list"
  assumes names: "ok w \<Longrightarrow> distinct (map (\<lambda>x. om_Name (meta x)) (objs w))"
    and get_ok: "ok w \<Longrightarrow> r_get r n w = Inr x \<Longrightarrow> x \<in> set (objs w) \<and> om_Name (meta x) = n"
    and get_notfound: "ok w \<Longrightarrow> r_get r n w = Inl KNotFound \<Longrightarrow> n \<notin> (\<lambda>x. om_Name (meta x)) ` set (objs w)"
    and list_ok: "ok w \<Longrightarrow> r_list r sel w = Inr xs \<Longrightarrow>
      mset xs = mset (filter (\<lambda>x. sel (om_Labels (meta x))) (objs w))"
    and create: "ok w \<Longrightarrow> r_create r x w = (e, w') \<Longrightarrow> ok w' \<and>
      (case e of
         None \<Rightarrow> om_Name (meta x) \<notin> (\<lambda>y. om_Name (meta y)) ` set (objs w) \<and>
           (\<exists>st. objs w' = objs w @ [put_status st x])
       | Some _ \<Rightarrow> objs w' = objs w)"
    and update: "ok w \<Longrightarrow> r_update r x w = (e, w') \<Longrightarrow> ok w' \<and>
      (case e of
         None \<Rightarrow> om_Name (meta x) \<in> (\<lambda>y. om_Name (meta y)) ` set (objs w) \<and>
           objs w' = upd_at (\<lambda>y. om_Name (meta y)) (om_Name (meta x)) (\<lambda>y. put_status (status y) x) (objs w)
       | Some _ \<Rightarrow> objs w' = objs w)"
    and update_status: "ok w \<Longrightarrow> r_status r x w = (e, w') \<Longrightarrow> ok w' \<and>
      (case e of
         None \<Rightarrow> om_Name (meta x) \<in> (\<lambda>y. om_Name (meta y)) ` set (objs w) \<and>
           objs w' = upd_at (\<lambda>y. om_Name (meta y)) (om_Name (meta x)) (put_status (status x)) (objs w)
       | Some _ \<Rightarrow> objs w' = objs w)"
    and delete: "ok w \<Longrightarrow> r_delete r n w = (e, w') \<Longrightarrow> ok w' \<and>
      (case e of
         None \<Rightarrow> objs w' = filter (\<lambda>y. om_Name (meta y) \<noteq> n) (objs w)
       | Some _ \<Rightarrow> objs w' = objs w)"
begin

lemma get_unique:
  assumes "ok w" "r_get r n w = Inr x" "y \<in> set (objs w)" "om_Name (meta y) = n"
  shows "y = x"
  using assms names get_ok distinct_map_inj [of "\<lambda>x. om_Name (meta x)" "objs w" y x] by simp

end

text \<open>\<open>keeps f g w w'\<close>: the call that led from \<open>w\<close> to \<open>w'\<close> left the other kinds alone.\<close>

definition unchanged :: "('w \<Rightarrow> 'a) \<Rightarrow> ('w \<Rightarrow> 'b) \<Rightarrow> 'w \<Rightarrow> 'w \<Rightarrow> bool" where
  "unchanged f g w w' \<longleftrightarrow> f w' = f w \<and> g w' = g w"

definition writes_frame :: "('w, 'o) resource \<Rightarrow> ('w \<Rightarrow> bool) \<Rightarrow> ('w \<Rightarrow> 'a) \<Rightarrow> ('w \<Rightarrow> 'b) \<Rightarrow> bool" where
  "writes_frame r ok f g \<longleftrightarrow>
     (\<forall>x w. ok w \<longrightarrow> unchanged f g w (snd (r_create r x w))) \<and>
     (\<forall>x w. ok w \<longrightarrow> unchanged f g w (snd (r_update r x w))) \<and>
     (\<forall>x w. ok w \<longrightarrow> unchanged f g w (snd (r_status r x w))) \<and>
     (\<forall>n w. ok w \<longrightarrow> unchanged f g w (snd (r_delete r n w)))"

locale api_server =
  pools: api_kind "cr_pools c" fp_Meta fp_Status "\<lambda>s p. p\<lparr>fp_Status := s\<rparr>" ok pools +
  subvols: api_kind "cr_subvols c" sv_Meta sv_Status "\<lambda>s v. v\<lparr>sv_Status := s\<rparr>" ok subvols +
  snaps: api_kind "cr_snaps c" sn_Meta sn_Status "\<lambda>s n. n\<lparr>sn_Status := s\<rparr>" ok snaps
  for c :: "'w crclient" and ok :: "'w \<Rightarrow> bool"
    and pools :: "'w \<Rightarrow> FileSharePool list"
    and subvols :: "'w \<Rightarrow> SubVolume list"
    and snaps :: "'w \<Rightarrow> Snapshot list" +
  assumes pools_frame: "writes_frame (cr_pools c) ok subvols snaps"
    and subvols_frame: "writes_frame (cr_subvols c) ok pools snaps"
    and snaps_frame: "writes_frame (cr_snaps c) ok pools subvols"
    and class_frame: "ok w \<Longrightarrow> cr_createClass c s w = (e, w') \<Longrightarrow>
      ok w' \<and> pools w' = pools w \<and> subvols w' = subvols w \<and> snaps w' = snaps w"

section \<open>The contract of the interface\<close>

locale k8s_api =
  fixes k :: "'w Client"
    and ok :: "'w \<Rightarrow> bool"
    and pools :: "'w \<Rightarrow> FileSharePool list"
    and subvols :: "'w \<Rightarrow> SubVolume list"
    and snaps :: "'w \<Rightarrow> Snapshot list"
  assumes pool_names: "ok w \<Longrightarrow> distinct (map pool_name (pools w))"
    and sv_names: "ok w \<Longrightarrow> distinct (map sv_name (subvols w))"
    and sn_names: "ok w \<Longrightarrow> distinct (map sn_name (snaps w))"
    and GetFileSharePool: "ok w \<Longrightarrow> GetFileSharePool k n w = Inr p \<Longrightarrow> p \<in> set (pools w) \<and> pool_name p = n"
    and ListFileSharePools: "ok w \<Longrightarrow> ListFileSharePools k w = Inr ps \<Longrightarrow> mset ps = mset (pools w)"
    and GetSubVolume: "ok w \<Longrightarrow> GetSubVolume k n w = Inr v \<Longrightarrow> v \<in> set (subvols w) \<and> sv_name v = n"
    and GetSubVolume_NotFound: "ok w \<Longrightarrow> GetSubVolume k n w = Inl KNotFound \<Longrightarrow> n \<notin> sv_name ` set (subvols w)"
    and GetSnapshot: "ok w \<Longrightarrow> GetSnapshot k n w = Inr s \<Longrightarrow> s \<in> set (snaps w) \<and> sn_name s = n"
    and ListSubVolumes: "ok w \<Longrightarrow> ListSubVolumes k n w = Inr vs \<Longrightarrow>
      mset vs = mset (filter (\<lambda>v. MatchingLabels poolLabelKey n (om_Labels (sv_Meta v))) (subvols w))"
    and ListSubVolumesByShare: "ok w \<Longrightarrow> ListSubVolumesByShare k n w = Inr vs \<Longrightarrow>
      mset vs = mset (filter (\<lambda>v. MatchingLabels shareLabelKey n (om_Labels (sv_Meta v))) (subvols w))"
    and ListSnapshots: "ok w \<Longrightarrow> ListSnapshots k n w = Inr ns \<Longrightarrow>
      mset ns = mset (filter (\<lambda>s. MatchingLabels poolLabelKey n (om_Labels (sn_Meta s))) (snaps w))"
    and ListSnapshotsByShare: "ok w \<Longrightarrow> ListSnapshotsByShare k n w = Inr ns \<Longrightarrow>
      mset ns = mset (filter (\<lambda>s. MatchingLabels shareLabelKey n (om_Labels (sn_Meta s))) (snaps w))"
    and ListSnapshotsBySource: "ok w \<Longrightarrow> ListSnapshotsBySource k n w = Inr ns \<Longrightarrow>
      mset ns = mset (filter (\<lambda>s. MatchingLabels sourceLabelKey n (om_Labels (sn_Meta s))) (snaps w))"
    and UpdateFileSharePoolStatus: "ok w \<Longrightarrow> UpdateFileSharePoolStatus k p w = (e, w') \<Longrightarrow>
      ok w' \<and> subvols w' = subvols w \<and> snaps w' = snaps w \<and>
      (case e of
         None \<Rightarrow> pool_name p \<in> pool_name ` set (pools w) \<and>
           pools w' = upd_at pool_name (pool_name p) (\<lambda>q. q\<lparr>fp_Status := fp_Status p\<rparr>) (pools w)
       | Some _ \<Rightarrow> pools w' = pools w)"
    and UpdateFileSharePool: "ok w \<Longrightarrow> UpdateFileSharePool k p w = (e, w') \<Longrightarrow>
      ok w' \<and> subvols w' = subvols w \<and> snaps w' = snaps w \<and>
      (case e of
         None \<Rightarrow> pool_name p \<in> pool_name ` set (pools w) \<and>
           pools w' = upd_at pool_name (pool_name p) (\<lambda>q. p\<lparr>fp_Status := fp_Status q\<rparr>) (pools w)
       | Some _ \<Rightarrow> pools w' = pools w)"
    and CreateSubVolume: "ok w \<Longrightarrow> CreateSubVolume k v w = (e, w') \<Longrightarrow>
      ok w' \<and> pools w' = pools w \<and> snaps w' = snaps w \<and>
      (case e of
         None \<Rightarrow> sv_name v \<notin> sv_name ` set (subvols w) \<and>
           (\<exists>st. subvols w' = subvols w @ [v\<lparr>sv_Status := st\<rparr>])
       | Some _ \<Rightarrow> subvols w' = subvols w)"
    and UpdateSubVolume: "ok w \<Longrightarrow> UpdateSubVolume k v w = (e, w') \<Longrightarrow>
      ok w' \<and> pools w' = pools w \<and> snaps w' = snaps w \<and>
      (case e of
         None \<Rightarrow> sv_name v \<in> sv_name ` set (subvols w) \<and>
           subvols w' = upd_at sv_name (sv_name v) (\<lambda>u. v\<lparr>sv_Status := sv_Status u\<rparr>) (subvols w)
       | Some _ \<Rightarrow> subvols w' = subvols w)"
    and UpdateSubVolumeStatus: "ok w \<Longrightarrow> UpdateSubVolumeStatus k v w = (e, w') \<Longrightarrow>
      ok w' \<and> pools w' = pools w \<and> snaps w' = snaps w \<and>
      (case e of
         None \<Rightarrow> sv_name v \<in> sv_name ` set (subvols w) \<and>
           subvols w' = upd_at sv_name (sv_name v) (\<lambda>u. u\<lparr>sv_Status := sv_Status v\<rparr>) (subvols w)
       | Some _ \<Rightarrow> subvols w' = subvols w)"
    and DeleteSubVolume: "ok w \<Longrightarrow> DeleteSubVolume k n w = (e, w') \<Longrightarrow>
      ok w' \<and> pools w' = pools w \<and> snaps w' = snaps w \<and>
      (case e of
         None \<Rightarrow> subvols w' = filter (\<lambda>v. sv_name v \<noteq> n) (subvols w)
       | Some _ \<Rightarrow> subvols w' = subvols w)"
    and CreateSnapshot: "ok w \<Longrightarrow> CreateSnapshot k s w = (e, w') \<Longrightarrow>
      ok w' \<and> pools w' = pools w \<and> subvols w' = subvols w \<and>
      (case e of
         None \<Rightarrow> sn_name s \<notin> sn_name ` set (snaps w) \<and>
           (\<exists>st. snaps w' = snaps w @ [s\<lparr>sn_Status := st\<rparr>])
       | Some _ \<Rightarrow> snaps w' = snaps w)"
    and UpdateSnapshot: "ok w \<Longrightarrow> UpdateSnapshot k s w = (e, w') \<Longrightarrow>
      ok w' \<and> pools w' = pools w \<and> subvols w' = subvols w \<and>
      (case e of
         None \<Rightarrow> sn_name s \<in> sn_name ` set (snaps w) \<and>
           snaps w' = upd_at sn_name (sn_name s) (\<lambda>u. s\<lparr>sn_Status := sn_Status u\<rparr>) (snaps w)
       | Some _ \<Rightarrow> snaps w' = snaps w)"
    and UpdateSnapshotStatus: "ok w \<Longrightarrow> UpdateSnapshotStatus k s w = (e, w') \<Longrightarrow>
      ok w' \<and> pools w' = pools w \<and> subvols w' = subvols w \<and>
      (case e of
         None \<Rightarrow> sn_name s \<in> sn_name ` set (snaps w) \<and>
           snaps w' = upd_at sn_name (sn_name s) (\<lambda>u. u\<lparr>sn_Status := sn_Status s\<rparr>) (snaps w)
       | Some _ \<Rightarrow> snaps w' = snaps w)"
    and DeleteSnapshot: "ok w \<Longrightarrow> DeleteSnapshot k n w = (e, w') \<Longrightarrow>
      ok w' \<and> pools w' = pools w \<and> subvols w' = subvols w \<and>
      (case e of
         None \<Rightarrow> snaps w' = filter (\<lambda>s. sn_name s \<noteq> n) (snaps w)
       | Some _ \<Rightarrow> snaps w' = snaps w)"
    and CreateStorageClass: "ok w \<Longrightarrow> CreateStorageClass k sc w = (e, w') \<Longrightarrow>
      ok w' \<and> pools w' = pools w \<and> subvols w' = subvols w \<and> snaps w' = snaps w"

context api_server
begin

lemma frames:
  assumes "ok w"
  shows "subvols (snd (r_status (cr_pools c) p w)) = subvols w"
    and "snaps (snd (r_status (cr_pools c) p w)) = snaps w"
    and "subvols (snd (r_update (cr_pools c) p w)) = subvols w"
    and "snaps (snd (r_update (cr_pools c) p w)) = snaps w"
    and "pools (snd (r_create (cr_subvols c) v w)) = pools w"
    and "snaps (snd (r_create (cr_subvols c) v w)) = snaps w"
    and "pools (snd (r_update (cr_subvols c) v w)) = pools w"
    and "snaps (snd (r_update (cr_subvols c) v w)) = snaps w"
    and "pools (snd (r_status (cr_subvols c) v w)) = pools w"
    and "snaps (snd (r_status (cr_subvols c) v w)) = snaps w"
    and "pools (snd (r_delete (cr_subvols c) n w)) = pools w"
    and "snaps (snd (r_delete (cr_subvols c) n w)) = snaps w"
    and "pools (snd (r_create (cr_snaps c) s w)) = pools w"
    and "subvols (snd (r_create (cr_snaps c) s w)) = subvols w"
    and "pools (snd (r_update (cr_snaps c) s w)) = pools w"
    and "subvols (snd (r_update (cr_snaps c) s w)) = subvols w"
    and "pools (snd (r_status (cr_snaps c) s w)) = pools w"
    and "subvols (snd (r_status (cr_snaps c) s w)) = subvols w"
    and "pools (snd (r_delete (cr_snaps c) n w)) = pools w"
    and "subvols (snd (r_delete (cr_snaps c) n w)) = subvols w"
  using assms pools_frame subvols_frame snaps_frame
  by (simp_all add: writes_frame_def unchanged_def)

end

sublocale api_server \<subseteq> k8s_api "realClient c" ok pools subvols snaps
proof (unfold_locales, goal_cases)
  case (1 w) then show ?case by (rule pools.names)
next
  case (2 w) then show ?case by (rule subvols.names)
next
  case (3 w) then show ?case by (rule snaps.names)
next
  case (4 w n p) then show ?case using pools.get_ok by (simp add: realClient_def realClient_methods)
next
  case (5 w ps) then show ?case
    using pools.list_ok [of w Everything ps] by (simp add: realClient_def realClient_methods Everything_def)
next
  case (6 w n v) then show ?case using subvols.get_ok by (simp add: realClient_def)
next
  case (7 w n) then show ?case using subvols.get_notfound by (simp add: realClient_def)
next
  case (8 w n s) then show ?case using snaps.get_ok by (simp add: realClient_def)
next
  case (9 w p vs) then show ?case using subvols.list_ok by (simp add: realClient_def realClient_methods)
next
  case (10 w i vs) then show ?case using subvols.list_ok by (simp add: realClient_def realClient_methods)
next
  case (11 w p ns) then show ?case using snaps.list_ok by (simp add: realClient_def realClient_methods)
next
  case (12 w i ns) then show ?case using snaps.list_ok by (simp add: realClient_def realClient_methods)
next
  case (13 w v ns) then show ?case using snaps.list_ok by (simp add: realClient_def realClient_methods)
next
  case (14 w p e w') then show ?case
    using pools.update_status [of w p e w'] frames(1,2) [of w p] by (simp add: realClient_def)
next
  case (15 w p e w') then show ?case
    using pools.update [of w p e w'] frames(3,4) [of w p] by (simp add: realClient_def)
next
  case (16 w v e w') then show ?case
    using subvols.create [of w v e w'] frames(5,6) [of w v] by (simp add: realClient_def)
next
  case (17 w v e w') then show ?case
    using subvols.update [of w v e w'] frames(7,8) [of w v] by (simp add: realClient_def)
next
  case (18 w v e w') then show ?case
    using subvols.update_status [of w v e w'] frames(9,10) [of w v] by (simp add: realClient_def)
next
  case (19 w n e w') then show ?case
    using subvols.delete [of w n e w'] frames(11,12) [of w n] subvols.get_ok [of w n]
    by (auto simp: realClient_def realClient_methods split: sum.splits)
next
  case (20 w s e w') then show ?case
    using snaps.create [of w s e w'] frames(13,14) [of w s] by (simp add: realClient_def)
next
  case (21 w s e w') then show ?case
    using snaps.update [of w s e w'] frames(15,16) [of w s] by (simp add: realClient_def)
next
  case (22 w s e w') then show ?case
    using snaps.update_status [of w s e w'] frames(17,18) [of w s] by (simp add: realClient_def)
next
  case (23 w n e w') then show ?case
    using snaps.delete [of w n e w'] frames(19,20) [of w n] snaps.get_ok [of w n]
    by (auto simp: realClient_def realClient_methods split: sum.splits)
next
  case (24 w s e w') then show ?case using class_frame by (simp add: realClient_def)
qed

section \<open>An API server in memory\<close>

text \<open>
  The instance on which the contracts are discharged: the objects as lists, with status as a
  subresource. Each write consumes one entry of \<open>st_faults\<close>, and an entry \<open>Some e\<close> makes it
  fail with \<open>e\<close> and change nothing; \<open>st_lost\<close> notes that a status write has failed. The record is
  extensible, so that other components can add their own state to the same world.
\<close>

record store =
  st_pools :: "FileSharePool list"
  st_subvols :: "SubVolume list"
  st_snaps :: "Snapshot list"
  st_policies :: "BackupPolicy list"
  st_restores :: "BackupRestore list"
  st_nodes :: "(string \<times> smap) list"
  st_classes :: "StorageClass list"
  st_faults :: "kerr option list"
  st_lost :: bool

definition note_lost :: "kerr option \<times> 'a store_scheme \<Rightarrow> kerr option \<times> 'a store_scheme" where
  "note_lost = (\<lambda>(e, w). (e, if e = None then w else w\<lparr>st_lost := True\<rparr>))"

definition mem_write ::
  "('a store_scheme \<Rightarrow> 'o list) \<Rightarrow> ('o list \<Rightarrow> 'a store_scheme \<Rightarrow> 'a store_scheme) \<Rightarrow>
   ('o list \<Rightarrow> kerr option \<times> 'o list) \<Rightarrow> 'a store_scheme \<Rightarrow> kerr option \<times> 'a store_scheme" where
  "mem_write get put f w =
     (let w' = w\<lparr>st_faults := tl (st_faults w)\<rparr>
      in case st_faults w of
           Some e # _ \<Rightarrow> (Some e, w')
         | _ \<Rightarrow> (case f (get w) of (e, xs) \<Rightarrow> (e, put xs w')))"

definition obj_get :: "('o \<Rightarrow> string) \<Rightarrow> string \<Rightarrow> 'o list \<Rightarrow> kerr + 'o" where
  "obj_get nm n xs = (case find (\<lambda>x. nm x = n) xs of Some x \<Rightarrow> Inr x | None \<Rightarrow> Inl KNotFound)"

definition obj_create :: "('o \<Rightarrow> string) \<Rightarrow> 'o \<Rightarrow> 'o list \<Rightarrow> kerr option \<times> 'o list" where
  "obj_create nm x xs = (if nm x \<in> nm ` set xs then (Some KAlreadyExists, xs) else (None, xs @ [x]))"

definition obj_update :: "('o \<Rightarrow> string) \<Rightarrow> string \<Rightarrow> ('o \<Rightarrow> 'o) \<Rightarrow> 'o list \<Rightarrow> kerr option \<times> 'o list" where
  "obj_update nm n f xs =
     (if n \<in> nm ` set xs then (None, upd_at nm n f xs) else (Some KNotFound, xs))"

definition obj_delete :: "('o \<Rightarrow> string) \<Rightarrow> string \<Rightarrow> 'o list \<Rightarrow> kerr option \<times> 'o list" where
  "obj_delete nm n xs =
     (if n \<in> nm ` set xs then (None, filter (\<lambda>x. nm x \<noteq> n) xs) else (Some KNotFound, xs))"

definition mem_kind ::
  "('o \<Rightarrow> ObjectMeta) \<Rightarrow> ('o \<Rightarrow> 's) \<Rightarrow> ('s \<Rightarrow> 'o \<Rightarrow> 'o) \<Rightarrow> 's \<Rightarrow>
   ('a store_scheme \<Rightarrow> 'o list) \<Rightarrow> ('o list \<Rightarrow> 'a store_scheme \<Rightarrow> 'a store_scheme) \<Rightarrow>
   ('a store_scheme, 'o) resource" where
  "mem_kind meta status put_status st0 get put =
     (let nm = (\<lambda>x. om_Name (meta x)) in \<lparr>
       r_get = (\<lambda>n w. obj_get nm n (get w)),
       r_list = (\<lambda>sel w. Inr (filter (\<lambda>x. sel (om_Labels (meta x))) (get w))),
       r_create = (\<lambda>x. mem_write get put (obj_create nm (put_status st0 x))),
       r_update = (\<lambda>x. mem_write get put (obj_update nm (nm x) (\<lambda>y. put_status (status y) x))),
       r_status = (\<lambda>x w. note_lost (mem_write get put (obj_update nm (nm x) (put_status (status x))) w)),
       r_delete = (\<lambda>n. mem_write get put (obj_delete nm n))\<rparr>)"

definition no_pool_status :: FileSharePoolStatus where
  "no_pool_status = \<lparr>pt_Phase = '''', pt_Shares = [], pt_ShareCount = 0, pt_TotalCapacityGB = 0,
     pt_TotalAllocatedGB = 0, pt_TotalPVCCount = 0, pt_GoldenImages = None, pt_DrainStatus = [],
     pt_Conditions = [], pt_LastReconcileTime = None\<rparr>"

definition no_sv_status :: SubVolumeStatus where
  "no_sv_status = \<lparr>vt_Phase = '''', vt_ActualUsageBytes = None, vt_LastUsageCheck = None,
     vt_Conditions = [], vt_CreatedAt = None, vt_CloneStatus = '''', vt_CloneProgress = None,
     vt_DiskChain = [], vt_ChainOperation = ''''\<rparr>"

definition no_sn_status :: SnapshotStatus where
  "no_sn_status = \<lparr>nt_Phase = '''', nt_ReadyToUse = False, nt_SizeBytes = 0, nt_CreationTime = None,
     nt_ChainFile = '''', nt_MergeChild = '''', nt_MethodReason = '''', nt_VMCopyAttempts = 0,
     nt_VMCopyStarted = None, nt_VMCopyRetryAfter = None, nt_CopyRestorePoint = None,
     nt_CopyMoment = None, nt_Consistency = '''', nt_ConsistencyReason = '''', nt_CopyID = '''',
     nt_Message = ''''\<rparr>"

definition mem_cr :: "('a store_scheme) crclient" where
  "mem_cr = \<lparr>
     cr_pools = mem_kind fp_Meta fp_Status (\<lambda>s p. p\<lparr>fp_Status := s\<rparr>) no_pool_status
       st_pools (\<lambda>xs w. w\<lparr>st_pools := xs\<rparr>),
     cr_subvols = mem_kind sv_Meta sv_Status (\<lambda>s v. v\<lparr>sv_Status := s\<rparr>) no_sv_status
       st_subvols (\<lambda>xs w. w\<lparr>st_subvols := xs\<rparr>),
     cr_snaps = mem_kind sn_Meta sn_Status (\<lambda>s n. n\<lparr>sn_Status := s\<rparr>) no_sn_status
       st_snaps (\<lambda>xs w. w\<lparr>st_snaps := xs\<rparr>),
     cr_policies = (\<lambda>w. Inr (st_policies w)),
     cr_restores = (\<lambda>w. Inr (st_restores w)),
     cr_nodeLabels = (\<lambda>n w. case map_of (st_nodes w) n of Some l \<Rightarrow> Inr l | None \<Rightarrow> Inl KNotFound),
     cr_getClass = (\<lambda>n w. obj_get sc_Name n (st_classes w)),
     cr_createClass = (\<lambda>s. mem_write st_classes (\<lambda>xs w. w\<lparr>st_classes := xs\<rparr>) (obj_create sc_Name s))\<rparr>"

text \<open>With \<open>strict\<close>, no failure is left to inject.\<close>

definition store_ok :: "bool \<Rightarrow> 'a store_scheme \<Rightarrow> bool" where
  "store_ok strict w \<longleftrightarrow> distinct (map pool_name (st_pools w)) \<and> distinct (map sv_name (st_subvols w))
     \<and> distinct (map sn_name (st_snaps w)) \<and> (strict \<longrightarrow> st_faults w = [])"

lemmas mem_defs = mem_cr_def mem_kind_def mem_write_def note_lost_def Let_def obj_get_def obj_create_def
  obj_update_def obj_delete_def

lemma distinct_upd_at:
  assumes "distinct (map nm xs)" and "\<And>y. nm y = n \<Longrightarrow> nm (f y) = n"
  shows "distinct (map nm (upd_at nm n f xs))"
proof -
  have "map nm (upd_at nm n f xs) = map nm xs"
    using assms(2) by (auto simp: upd_at_def)
  then show ?thesis using assms(1) by simp
qed

lemma find_NoneD: "find P xs = None \<Longrightarrow> x \<in> set xs \<Longrightarrow> \<not> P x"
  by (auto simp: find_None_iff)

lemma mem_pools: "api_kind (cr_pools mem_cr) fp_Meta fp_Status (\<lambda>s p. p\<lparr>fp_Status := s\<rparr>) (store_ok strict) st_pools"
  by (unfold_locales; auto simp: mem_defs store_ok_def image_iff distinct_upd_at distinct_map_filter
      split: option.splits list.splits if_splits dest: find_SomeD find_NoneD)

lemma mem_subvols: "api_kind (cr_subvols mem_cr) sv_Meta sv_Status (\<lambda>s p. p\<lparr>sv_Status := s\<rparr>) (store_ok strict) st_subvols"
  by (unfold_locales; auto simp: mem_defs store_ok_def image_iff distinct_upd_at distinct_map_filter
      split: option.splits list.splits if_splits dest: find_SomeD find_NoneD)

lemma mem_snaps: "api_kind (cr_snaps mem_cr) sn_Meta sn_Status (\<lambda>s p. p\<lparr>sn_Status := s\<rparr>) (store_ok strict) st_snaps"
  by (unfold_locales; auto simp: mem_defs store_ok_def image_iff distinct_upd_at distinct_map_filter
      split: option.splits list.splits if_splits dest: find_SomeD find_NoneD)

interpretation mem: api_server mem_cr "store_ok strict" st_pools st_subvols st_snaps for strict
proof (intro api_server.intro api_server_axioms.intro mem_pools mem_subvols mem_snaps)
  show "writes_frame (cr_pools mem_cr) (store_ok strict) st_subvols st_snaps"
    by (auto simp: writes_frame_def unchanged_def mem_defs split: option.splits list.splits)
  show "writes_frame (cr_subvols mem_cr) (store_ok strict) st_pools st_snaps"
    by (auto simp: writes_frame_def unchanged_def mem_defs split: option.splits list.splits)
  show "writes_frame (cr_snaps mem_cr) (store_ok strict) st_pools st_subvols"
    by (auto simp: writes_frame_def unchanged_def mem_defs split: option.splits list.splits)
  show "store_ok strict w' \<and> st_pools w' = st_pools w \<and> st_subvols w' = st_subvols w \<and> st_snaps w' = st_snaps w"
    if "store_ok strict w" "cr_createClass mem_cr s w = (e, w')" for w s e w'
    using that by (auto simp: mem_defs store_ok_def split: option.splits list.splits if_splits)
qed

end
