(* ===== verification/Vpc_Client.thy ===== *)
theory Vpc_Client
  imports Prelude
begin

text \<open>
  \<^verbatim>\<open>pkg/ibmcloud\<close>: the interface \<open>VPCFileClient\<close> (\<^verbatim>\<open>client.go\<close>), the string helpers and the
  error map (\<^verbatim>\<open>helpers.go\<close>), the IOPS table (\<^verbatim>\<open>share_profiles.go\<close>) and the client itself
  (\<^verbatim>\<open>vpc_client.go\<close>). The IBM VPC SDK, the secret provider, the rate limiter and the clock are
  not part of the repository: they are the parameter \<open>sdk\<close>. Every call passes the world on,
  because the VPC changes while the client polls it. The polling loops take fuel and give up
  with \<open>VPolling\<close> when it runs out; \<open>sdk_clock\<close> states what a clock does, and the lemmas on
  the loops show that the fuel of the timeout suffices.
\<close>

section \<open>Data\<close>

datatype verr =
    ErrShareNotFound
  | ErrShareNotStable
  | ErrShareCreationFailed
  | ErrAPIRateLimit
  | ErrAuthentication
  | VHttp int string
  | VMsg string
  | VContext
  | VPolling

record MountTargetInfo =
  mi_ID :: string
  mi_Name :: string
  mi_IPAddress :: string
  mi_ExportPath :: string

record ShareInfo =
  si_ID :: string
  si_Name :: string
  si_LifecycleState :: string
  si_SizeGB :: int
  si_IOPS :: int
  si_Profile :: string
  si_Zone :: string
  si_ResourceGroupID :: string
  si_Tags :: "string list"
  si_MountTargets :: "MountTargetInfo list"
  si_CreatedAt :: int

record CreateShareInput =
  ci_Name :: string
  ci_Zone :: string
  ci_Profile :: string
  ci_SizeGB :: int
  ci_IOPS :: "int option"
  ci_ResourceGroupID :: string
  ci_Tags :: "string list"
  ci_EncryptInTransit :: bool
  ci_SubnetID :: string
  ci_SecurityGroupIDs :: "string list"
  ci_ClaimedShareIDs :: "string list"

record CreateMountTargetInput =
  cm_Name :: string
  cm_SubnetID :: string
  cm_SecurityGroupIDs :: "string list"
  cm_EncryptInTransit :: bool

record 'w VPCFileClient =
  CreateFileShare :: "CreateShareInput \<Rightarrow> 'w \<Rightarrow> (verr + ShareInfo) \<times> 'w"
  GetFileShare :: "string \<Rightarrow> 'w \<Rightarrow> (verr + ShareInfo) \<times> 'w"
  ExpandFileShare :: "string \<Rightarrow> int \<Rightarrow> 'w \<Rightarrow> verr option \<times> 'w"
  DeleteFileShare :: "string \<Rightarrow> 'w \<Rightarrow> verr option \<times> 'w"
  ListFileShares :: "string \<Rightarrow> 'w \<Rightarrow> (verr + ShareInfo list) \<times> 'w"
  ListSharesByName :: "string \<Rightarrow> 'w \<Rightarrow> (verr + ShareInfo list) \<times> 'w"
  CreateShareMountTarget :: "string \<Rightarrow> CreateMountTargetInput \<Rightarrow> 'w \<Rightarrow> (verr + MountTargetInfo) \<times> 'w"
  GetSubnetZone :: "string \<Rightarrow> 'w \<Rightarrow> (verr + string) \<times> 'w"
  FindSecurityGroupID :: "string \<Rightarrow> string \<Rightarrow> 'w \<Rightarrow> (verr + string) \<times> 'w"

section \<open>Helpers\<close>

text \<open>\<^verbatim>\<open>strings.LastIndex\<close> for the separator the helper looks for.\<close>

fun last_index_of :: "string \<Rightarrow> char \<Rightarrow> nat option" where
  "last_index_of [] d = None"
| "last_index_of (c # cs) d =
     (case last_index_of cs d of
        Some i \<Rightarrow> Some (Suc i)
      | None \<Rightarrow> (if c = d then Some 0 else None))"

definition regionFromZone :: "string \<Rightarrow> string" where
  "regionFromZone zone =
     (if zone = '''' then ''''
      else case last_index_of zone CHR ''-'' of
        None \<Rightarrow> zone
      | Some idx \<Rightarrow> if idx = 0 then zone else take idx zone)"

definition mapHTTPError :: "int \<Rightarrow> string \<Rightarrow> verr" where
  "mapHTTPError statusCode sdkErr =
     (if statusCode = 404 then ErrShareNotFound
      else if statusCode = 429 then ErrAPIRateLimit
      else if statusCode = 401 \<or> statusCode = 403 then ErrAuthentication
      else VHttp statusCode sdkErr)"

definition parseMountPathServer :: "string \<Rightarrow> string" where
  "parseMountPathServer mountPath =
     (case index_of mountPath '':/'' of
        None \<Rightarrow> ''''
      | Some idx \<Rightarrow> if idx = 0 then '''' else take idx mountPath)"

definition parseMountPathExport :: "string \<Rightarrow> string" where
  "parseMountPathExport mountPath =
     (case index_of mountPath '':/'' of
        None \<Rightarrow> ''/''
      | Some idx \<Rightarrow>
          if idx = 0 then ''/''
          else let path = drop (idx + 1) mountPath in if path = '''' then ''/'' else path)"

section \<open>The IOPS table of dp2 shares\<close>

record dp2Range =
  minSizeGB :: int
  maxSizeGB :: int
  minIOPS :: int
  maxIOPS :: int

definition dp2Ranges :: "dp2Range list" where
  "dp2Ranges = map (\<lambda>(a, b, c, d). \<lparr>minSizeGB = a, maxSizeGB = b, minIOPS = c, maxIOPS = d\<rparr>)
     [(10, 39, 100, 1000), (40, 79, 100, 2000), (80, 99, 100, 4000), (100, 499, 100, 6000),
      (500, 999, 100, 10000), (1000, 1999, 100, 20000), (2000, 3999, 200, 40000),
      (4000, 7999, 300, 40000), (8000, 15999, 500, 64000), (16000, 32000, 2000, 96000)]"

definition ShareIOPSRange :: "string \<Rightarrow> int \<Rightarrow> (int \<times> int) option" where
  "ShareIOPSRange profile sizeGB =
     (if profile \<noteq> ''dp2'' then None
      else map_option (\<lambda>r. (minIOPS r, maxIOPS r))
             (find (\<lambda>r. minSizeGB r \<le> sizeGB \<and> sizeGB \<le> maxSizeGB r) dp2Ranges))"

text \<open>The error of \<open>ValidateShareIOPS\<close> carries what its message prints.\<close>

definition ValidateShareIOPS :: "string \<Rightarrow> int \<Rightarrow> int \<Rightarrow> (int \<times> int) option" where
  "ValidateShareIOPS profile sizeGB iops =
     (case ShareIOPSRange profile sizeGB of
        None \<Rightarrow> None
      | Some (mn, mx) \<Rightarrow> if iops < mn \<or> iops > mx then Some (mn, mx) else None)"

section \<open>The SDK\<close>

text \<open>
  \<open>sdkShare\<close> is \<^verbatim>\<open>vpcv1.Share\<close>: the fields the SDK marks as required, which the client
  dereferences without a check, are plain; those it checks are options. An SDK error is the HTTP
  status of the response (0 without a response) and the error text.
\<close>

record sdkMountTarget =
  km_ID :: string
  km_Name :: string
  km_MountPath :: "string option"

record sdkShare =
  ks_ID :: string
  ks_Name :: string
  ks_LifecycleState :: string
  ks_Size :: int
  ks_Iops :: int
  ks_Profile :: "string option"
  ks_Zone :: "string option"
  ks_ResourceGroup :: "string option"
  ks_UserTags :: "string list"
  ks_MountTargets :: "(string \<times> string) list"
  ks_CreatedAt :: "int option"

record MountTargetPrototype =
  pr_mtName :: string
  pr_vniName :: string
  pr_Subnet :: string
  pr_SecurityGroups :: "string list"
  pr_vniResourceGroup :: "string option"
  pr_AccessProtocol :: string
  pr_TransitEncryption :: string

record SharePrototype =
  pr_Profile :: string
  pr_Size :: int
  pr_Name :: string
  pr_Zone :: string
  pr_Owner :: "int \<times> int"
  pr_Iops :: "int option"
  pr_ResourceGroup :: "string option"
  pr_UserTags :: "string list"
  pr_AccessControlMode :: string
  pr_MountTargets :: "MountTargetPrototype list"

type_synonym sdk_err = "int \<times> string"

record 'w sdk =
  sdk_wait :: "'w \<Rightarrow> string option \<times> 'w"
  sdk_token :: "string \<Rightarrow> 'w \<Rightarrow> string option \<times> 'w"
  sdk_now :: "'w \<Rightarrow> int"
  sdk_sleep :: "int \<Rightarrow> 'w \<Rightarrow> bool \<times> 'w"
  sdk_createShare :: "SharePrototype \<Rightarrow> 'w \<Rightarrow> (sdk_err + sdkShare) \<times> 'w"
  sdk_getShare :: "string \<Rightarrow> 'w \<Rightarrow> (sdk_err + sdkShare) \<times> 'w"
  sdk_updateShare :: "string \<Rightarrow> int \<Rightarrow> 'w \<Rightarrow> sdk_err option \<times> 'w"
  sdk_deleteShare :: "string \<Rightarrow> 'w \<Rightarrow> sdk_err option \<times> 'w"
  sdk_listShares :: "string option \<Rightarrow> string option \<Rightarrow> string option \<Rightarrow> 'w \<Rightarrow>
     (sdk_err + sdkShare list \<times> string option) \<times> 'w"
  sdk_createMountTarget :: "string \<Rightarrow> MountTargetPrototype \<Rightarrow> 'w \<Rightarrow> (sdk_err + sdkMountTarget) \<times> 'w"
  sdk_getMountTarget :: "string \<Rightarrow> string \<Rightarrow> 'w \<Rightarrow> (sdk_err + sdkMountTarget) \<times> 'w"
  sdk_deleteMountTarget :: "string \<Rightarrow> string \<Rightarrow> 'w \<Rightarrow> sdk_err option \<times> 'w"
  sdk_getSubnet :: "string \<Rightarrow> 'w \<Rightarrow> (sdk_err + string option) \<times> 'w"
  sdk_listSecurityGroups :: "string \<Rightarrow> string option \<Rightarrow> 'w \<Rightarrow>
     (sdk_err + (string option \<times> string option) list \<times> string option) \<times> 'w"

section \<open>The client\<close>

definition shareToInfo :: "sdkShare \<Rightarrow> ShareInfo" where
  "shareToInfo share = \<lparr>
     si_ID = ks_ID share, si_Name = ks_Name share, si_LifecycleState = ks_LifecycleState share,
     si_SizeGB = ks_Size share, si_IOPS = ks_Iops share,
     si_Profile = (case ks_Profile share of Some p \<Rightarrow> p | None \<Rightarrow> ''''),
     si_Zone = (case ks_Zone share of Some z \<Rightarrow> z | None \<Rightarrow> ''''),
     si_ResourceGroupID = (case ks_ResourceGroup share of Some g \<Rightarrow> g | None \<Rightarrow> ''''),
     si_Tags = ks_UserTags share, si_MountTargets = [],
     si_CreatedAt = (case ks_CreatedAt share of Some t \<Rightarrow> t | None \<Rightarrow> 0)\<rparr>"

definition securityGroupMountTarget ::
  "string \<Rightarrow> string \<Rightarrow> string list \<Rightarrow> bool \<Rightarrow> string \<Rightarrow> MountTargetPrototype" where
  "securityGroupMountTarget name subnetID securityGroupIDs encryptInTransit resourceGroupID = \<lparr>
     pr_mtName = name, pr_vniName = name @ ''-vni'', pr_Subnet = subnetID,
     pr_SecurityGroups = securityGroupIDs,
     pr_vniResourceGroup = (if resourceGroupID \<noteq> '''' then Some resourceGroupID else None),
     pr_AccessProtocol = ''nfs4'',
     pr_TransitEncryption = (if encryptInTransit then ''user_managed'' else ''none'')\<rparr>"

definition shareMatchesRequest :: "sdkShare \<Rightarrow> CreateShareInput \<Rightarrow> bool" where
  "shareMatchesRequest s input \<longleftrightarrow>
     ks_ID s \<notin> set (ci_ClaimedShareIDs input) \<and>
     ks_Zone s = Some (ci_Zone input) \<and>
     (ci_ResourceGroupID input = '''' \<or> ks_ResourceGroup s = Some (ci_ResourceGroupID input)) \<and>
     list_all (\<lambda>t. t \<in> set (ks_UserTags s)) (ci_Tags input)"

definition refreshToken :: "'w sdk \<Rightarrow> string \<Rightarrow> 'w \<Rightarrow> verr option \<times> 'w" where
  "refreshToken s reason w =
     (case sdk_token s reason w of
        (Some e, w1) \<Rightarrow> (Some (VMsg (''failed to refresh IAM token: '' @ e)), w1)
      | (None, w1) \<Rightarrow> (None, w1))"

definition withAuth :: "'w sdk \<Rightarrow> string \<Rightarrow> 'w \<Rightarrow> verr option \<times> 'w" where
  "withAuth s operation w =
     (case sdk_wait s w of
        (Some e, w1) \<Rightarrow> (Some (VMsg (''rate limiter: '' @ e)), w1)
      | (None, w1) \<Rightarrow> refreshToken s operation w1)"

definition getMountTarget :: "'w sdk \<Rightarrow> string \<Rightarrow> string \<Rightarrow> 'w \<Rightarrow> (verr + MountTargetInfo) \<times> 'w" where
  "getMountTarget s shareID mtID w =
     (case withAuth s ''GetShareMountTarget'' w of
        (Some e, w1) \<Rightarrow> (Inl e, w1)
      | (None, w1) \<Rightarrow>
          (case sdk_getMountTarget s shareID mtID w1 of
             (Inl (code, msg), w2) \<Rightarrow> (Inl (mapHTTPError code msg), w2)
           | (Inr mt, w2) \<Rightarrow>
               (Inr (case km_MountPath mt of
                       Some p \<Rightarrow>
                         (if p \<noteq> ''''
                          then \<lparr>mi_ID = km_ID mt, mi_Name = km_Name mt,
                                 mi_IPAddress = parseMountPathServer p,
                                 mi_ExportPath = parseMountPathExport p\<rparr>
                          else \<lparr>mi_ID = km_ID mt, mi_Name = km_Name mt, mi_IPAddress = '''', mi_ExportPath = ''''\<rparr>)
                     | None \<Rightarrow> \<lparr>mi_ID = km_ID mt, mi_Name = km_Name mt, mi_IPAddress = '''', mi_ExportPath = ''''\<rparr>),
                w2)))"

text \<open>The mount targets of a share; one whose read fails is skipped.\<close>

fun fetchMountTargets ::
  "'w sdk \<Rightarrow> string \<Rightarrow> (string \<times> string) list \<Rightarrow> 'w \<Rightarrow> MountTargetInfo list \<times> 'w" where
  "fetchMountTargets s shareID [] w = ([], w)"
| "fetchMountTargets s shareID (r # rs) w =
     (case getMountTarget s shareID (fst r) w of
        (Inl e, w1) \<Rightarrow> fetchMountTargets s shareID rs w1
      | (Inr mt, w1) \<Rightarrow> (case fetchMountTargets s shareID rs w1 of (mts, w2) \<Rightarrow> (mt # mts, w2)))"

definition client_GetFileShare :: "'w sdk \<Rightarrow> string \<Rightarrow> 'w \<Rightarrow> (verr + ShareInfo) \<times> 'w" where
  "client_GetFileShare s shareID w =
     (case withAuth s ''GetFileShare'' w of
        (Some e, w1) \<Rightarrow> (Inl e, w1)
      | (None, w1) \<Rightarrow>
          (case sdk_getShare s shareID w1 of
             (Inl (code, msg), w2) \<Rightarrow> (Inl (mapHTTPError code msg), w2)
           | (Inr share, w2) \<Rightarrow>
               (case fetchMountTargets s shareID (ks_MountTargets share) w2 of
                  (mts, w3) \<Rightarrow> (Inr ((shareToInfo share)\<lparr>si_MountTargets := mts\<rparr>), w3))))"

text \<open>Polling: at most \<open>fuel\<close> rounds, the deadline checked before each of them.\<close>

fun waitForShareStable_loop ::
  "nat \<Rightarrow> 'w sdk \<Rightarrow> int \<Rightarrow> string \<Rightarrow> int \<Rightarrow> 'w \<Rightarrow> (verr + ShareInfo) \<times> 'w" where
  "waitForShareStable_loop 0 s poll shareID deadline w = (Inl VPolling, w)"
| "waitForShareStable_loop (Suc n) s poll shareID deadline w =
     (if sdk_now s w > deadline then (Inl ErrShareNotStable, w)
      else case client_GetFileShare s shareID w of
        (Inl e, w1) \<Rightarrow> (Inl e, w1)
      | (Inr info, w1) \<Rightarrow>
          if si_LifecycleState info = ''stable'' then (Inr info, w1)
          else if si_LifecycleState info = ''failed'' then (Inl ErrShareCreationFailed, w1)
          else case sdk_sleep s poll w1 of
            (True, w2) \<Rightarrow> (Inl VContext, w2)
          | (False, w2) \<Rightarrow> waitForShareStable_loop n s poll shareID deadline w2)"

text \<open>Durations are in seconds; \<open>rounds\<close> is the number of polls a timeout leaves room for.\<close>

definition rounds :: "int \<Rightarrow> int \<Rightarrow> nat" where
  "rounds timeout poll = nat (timeout div poll) + 2"

definition waitForShareStable ::
  "'w sdk \<Rightarrow> int \<Rightarrow> string \<Rightarrow> int \<Rightarrow> 'w \<Rightarrow> (verr + ShareInfo) \<times> 'w" where
  "waitForShareStable s poll shareID timeout w =
     waitForShareStable_loop (rounds timeout poll) s poll shareID (sdk_now s w + timeout) w"

text \<open>The loop of \<open>waitForMountPath\<close> on the first mount target of the share.\<close>

fun waitForMountPath_loop ::
  "nat \<Rightarrow> 'w sdk \<Rightarrow> int \<Rightarrow> string \<Rightarrow> string \<Rightarrow> int \<Rightarrow> 'w \<Rightarrow> (verr + (string \<times> string) option) \<times> 'w" where
  "waitForMountPath_loop 0 s poll shareID mtID deadline w = (Inl VPolling, w)"
| "waitForMountPath_loop (Suc n) s poll shareID mtID deadline w =
     (if \<not> sdk_now s w < deadline then (Inr None, w)
      else case sdk_sleep s poll w of
        (True, w1) \<Rightarrow> (Inl VContext, w1)
      | (False, w1) \<Rightarrow>
          (case getMountTarget s shareID mtID w1 of
             (Inl e, w2) \<Rightarrow> waitForMountPath_loop n s poll shareID mtID deadline w2
           | (Inr mt, w2) \<Rightarrow>
               if mi_IPAddress mt \<noteq> '''' then (Inr (Some (mi_IPAddress mt, mi_ExportPath mt)), w2)
               else waitForMountPath_loop n s poll shareID mtID deadline w2))"

definition waitForMountPath :: "'w sdk \<Rightarrow> int \<Rightarrow> ShareInfo \<Rightarrow> 'w \<Rightarrow> (verr + ShareInfo) \<times> 'w" where
  "waitForMountPath s poll shareInfo w =
     (case si_MountTargets shareInfo of
        [] \<Rightarrow> (Inr shareInfo, w)
      | mt # rest \<Rightarrow>
          if mi_IPAddress mt \<noteq> '''' then (Inr shareInfo, w)
          else case waitForMountPath_loop (rounds 120 poll) s poll (si_ID shareInfo) (mi_ID mt)
                      (sdk_now s w + 120) w of
            (Inl e, w1) \<Rightarrow> (Inl e, w1)
          | (Inr None, w1) \<Rightarrow> (Inr shareInfo, w1)
          | (Inr (Some (ip, path)), w1) \<Rightarrow>
              (Inr (shareInfo\<lparr>si_MountTargets :=
                     mt\<lparr>mi_IPAddress := ip, mi_ExportPath := path\<rparr> # rest\<rparr>), w1))"

definition getShareByName :: "'w sdk \<Rightarrow> int \<Rightarrow> CreateShareInput \<Rightarrow> 'w \<Rightarrow> (verr + ShareInfo) \<times> 'w" where
  "getShareByName s poll input w =
     (case withAuth s ''getShareByName'' w of
        (Some e, w1) \<Rightarrow> (Inl e, w1)
      | (None, w1) \<Rightarrow>
          (case sdk_listShares s (Some (ci_Name input)) None None w1 of
             (Inl (code, msg), w2) \<Rightarrow> (Inl (VMsg (''lookup share by name: '' @ msg)), w2)
           | (Inr (shares, _), w2) \<Rightarrow>
               if shares = [] then (Inl (VMsg ''not found after already exists error''), w2)
               else let ours = filter (\<lambda>x. shareMatchesRequest x input) shares in
                 if ours = [] then (Inl (VMsg ''exists but is not of this pool; not adopting it''), w2)
                 else let chosen = (case find (\<lambda>x. ks_MountTargets x \<noteq> []) ours of
                                      Some x \<Rightarrow> x | None \<Rightarrow> hd ours) in
                   case waitForShareStable s poll (ks_ID chosen) 300 w2 of
                     (Inl e, w3) \<Rightarrow> (Inl e, w3)
                   | (Inr info, w3) \<Rightarrow> waitForMountPath s poll info w3))"

definition client_CreateFileShare :: "'w sdk \<Rightarrow> int \<Rightarrow> CreateShareInput \<Rightarrow> 'w \<Rightarrow> (verr + ShareInfo) \<times> 'w" where
  "client_CreateFileShare s poll input w =
     (case withAuth s ''CreateFileShare'' w of
        (Some e, w1) \<Rightarrow> (Inl e, w1)
      | (None, w1) \<Rightarrow>
          if ci_SubnetID input = ''''
          then (Inl (VMsg ''subnet ID is required for the mount target''), w1)
          else case sdk_createShare s \<lparr>
                 pr_Profile = ci_Profile input, pr_Size = ci_SizeGB input, pr_Name = ci_Name input,
                 pr_Zone = ci_Zone input, pr_Owner = (65534, 65534), pr_Iops = ci_IOPS input,
                 pr_ResourceGroup = (if ci_ResourceGroupID input \<noteq> '''' then Some (ci_ResourceGroupID input) else None),
                 pr_UserTags = ci_Tags input, pr_AccessControlMode = ''security_group'',
                 pr_MountTargets = [securityGroupMountTarget (ci_Name input @ ''-mt'') (ci_SubnetID input)
                   (ci_SecurityGroupIDs input) (ci_EncryptInTransit input) (ci_ResourceGroupID input)]\<rparr> w1 of
            (Inl (code, msg), w2) \<Rightarrow>
              if code = 400 \<and> contains msg ''already exists'' then getShareByName s poll input w2
              else (Inl (mapHTTPError code msg), w2)
          | (Inr share, w2) \<Rightarrow>
              (case waitForShareStable s poll (ks_ID share) 300 w2 of
                 (Inl e, w3) \<Rightarrow> (Inl e, w3)
               | (Inr info, w3) \<Rightarrow> waitForMountPath s poll info w3))"

fun waitForMountTargetIP ::
  "nat \<Rightarrow> 'w sdk \<Rightarrow> int \<Rightarrow> string \<Rightarrow> string \<Rightarrow> int \<Rightarrow> 'w \<Rightarrow> (verr + MountTargetInfo) \<times> 'w" where
  "waitForMountTargetIP 0 s poll shareID mtID deadline w = (Inl VPolling, w)"
| "waitForMountTargetIP (Suc n) s poll shareID mtID deadline w =
     (if sdk_now s w > deadline then (Inl (VMsg ''IP not populated after timeout''), w)
      else case getMountTarget s shareID mtID w of
        (Inl e, w1) \<Rightarrow> (Inl e, w1)
      | (Inr mt, w1) \<Rightarrow>
          if mi_IPAddress mt \<noteq> '''' then (Inr mt, w1)
          else case sdk_sleep s poll w1 of
            (True, w2) \<Rightarrow> (Inl VContext, w2)
          | (False, w2) \<Rightarrow> waitForMountTargetIP n s poll shareID mtID deadline w2)"

definition client_CreateShareMountTarget ::
  "'w sdk \<Rightarrow> int \<Rightarrow> string \<Rightarrow> CreateMountTargetInput \<Rightarrow> 'w \<Rightarrow> (verr + MountTargetInfo) \<times> 'w" where
  "client_CreateShareMountTarget s poll shareID input w =
     (case withAuth s ''CreateShareMountTarget'' w of
        (Some e, w1) \<Rightarrow> (Inl e, w1)
      | (None, w1) \<Rightarrow>
          if cm_SubnetID input = '''' then (Inl (VMsg ''subnet ID is required''), w1)
          else case sdk_createMountTarget s shareID
                 (securityGroupMountTarget (cm_Name input) (cm_SubnetID input)
                   (cm_SecurityGroupIDs input) (cm_EncryptInTransit input) '''') w1 of
            (Inl (code, msg), w2) \<Rightarrow> (Inl (mapHTTPError code msg), w2)
          | (Inr mt, w2) \<Rightarrow>
              waitForMountTargetIP (rounds 300 poll) s poll shareID (km_ID mt) (sdk_now s w2 + 300) w2)"

fun getSharesByID :: "'w sdk \<Rightarrow> sdkShare list \<Rightarrow> 'w \<Rightarrow> (verr + ShareInfo list) \<times> 'w" where
  "getSharesByID s [] w = (Inr [], w)"
| "getSharesByID s (x # xs) w =
     (case client_GetFileShare s (ks_ID x) w of
        (Inl e, w1) \<Rightarrow> (Inl e, w1)
      | (Inr info, w1) \<Rightarrow>
          (case getSharesByID s xs w1 of
             (Inl e, w2) \<Rightarrow> (Inl e, w2)
           | (Inr infos, w2) \<Rightarrow> (Inr (info # infos), w2)))"

definition client_ListSharesByName :: "'w sdk \<Rightarrow> string \<Rightarrow> 'w \<Rightarrow> (verr + ShareInfo list) \<times> 'w" where
  "client_ListSharesByName s name w =
     (case withAuth s ''ListSharesByName'' w of
        (Some e, w1) \<Rightarrow> (Inl e, w1)
      | (None, w1) \<Rightarrow>
          (case sdk_listShares s (Some name) None None w1 of
             (Inl (code, msg), w2) \<Rightarrow> (Inl (mapHTTPError code msg), w2)
           | (Inr (shares, _), w2) \<Rightarrow> getSharesByID s shares w2))"

definition client_ExpandFileShare :: "'w sdk \<Rightarrow> int \<Rightarrow> string \<Rightarrow> int \<Rightarrow> 'w \<Rightarrow> verr option \<times> 'w" where
  "client_ExpandFileShare s poll shareID newSizeGB w =
     (case withAuth s ''ExpandFileShare'' w of
        (Some e, w1) \<Rightarrow> (Some e, w1)
      | (None, w1) \<Rightarrow>
          (case sdk_updateShare s shareID newSizeGB w1 of
             (Some (code, msg), w2) \<Rightarrow> (Some (mapHTTPError code msg), w2)
           | (None, w2) \<Rightarrow>
               (case waitForShareStable s poll shareID 300 w2 of
                  (Inl e, w3) \<Rightarrow> (Some e, w3)
                | (Inr _, w3) \<Rightarrow> (None, w3))))"

text \<open>Deleting a share: a mount target that cannot be deleted is logged and skipped.\<close>

fun deleteMountTargets :: "'w sdk \<Rightarrow> string \<Rightarrow> MountTargetInfo list \<Rightarrow> 'w \<Rightarrow> verr option \<times> 'w" where
  "deleteMountTargets s shareID [] w = (None, w)"
| "deleteMountTargets s shareID (mt # mts) w =
     (case withAuth s ''DeleteShareMountTarget'' w of
        (Some e, w1) \<Rightarrow> (Some e, w1)
      | (None, w1) \<Rightarrow>
          (case sdk_deleteMountTarget s shareID (mi_ID mt) w1 of
             (_, w2) \<Rightarrow> deleteMountTargets s shareID mts w2))"

definition client_DeleteFileShare :: "'w sdk \<Rightarrow> string \<Rightarrow> 'w \<Rightarrow> verr option \<times> 'w" where
  "client_DeleteFileShare s shareID w =
     (case client_GetFileShare s shareID w of
        (Inl e, w1) \<Rightarrow> if e = ErrShareNotFound then (None, w1) else (Some e, w1)
      | (Inr share, w1) \<Rightarrow>
          (case deleteMountTargets s shareID (si_MountTargets share) w1 of
             (Some e, w2) \<Rightarrow> (Some e, w2)
           | (None, w2) \<Rightarrow>
               (case withAuth s ''DeleteFileShare'' w2 of
                  (Some e, w3) \<Rightarrow> (Some e, w3)
                | (None, w3) \<Rightarrow>
                    (case sdk_deleteShare s shareID w3 of
                       (Some (code, msg), w4) \<Rightarrow>
                         if code = 404 then (None, w4) else (Some (mapHTTPError code msg), w4)
                     | (None, w4) \<Rightarrow> (None, w4)))))"

text \<open>Paging: the VPC decides when a listing ends, so the two listing loops take fuel.\<close>

fun client_ListFileShares_loop ::
  "nat \<Rightarrow> 'w sdk \<Rightarrow> string \<Rightarrow> string option \<Rightarrow> 'w \<Rightarrow> (verr + ShareInfo list) \<times> 'w" where
  "client_ListFileShares_loop 0 s rg start w = (Inl VPolling, w)"
| "client_ListFileShares_loop (Suc n) s rg start w =
     (case withAuth s ''ListFileShares'' w of
        (Some e, w1) \<Rightarrow> (Inl e, w1)
      | (None, w1) \<Rightarrow>
          (case sdk_listShares s None (if rg \<noteq> '''' then Some rg else None) start w1 of
             (Inl (code, msg), w2) \<Rightarrow> (Inl (VMsg (''VPC API ListShares failed: '' @ msg)), w2)
           | (Inr (shares, nxt), w2) \<Rightarrow>
               let infos = map (\<lambda>x. (shareToInfo x)\<lparr>si_MountTargets :=
                     map (\<lambda>(i, m). \<lparr>mi_ID = i, mi_Name = m, mi_IPAddress = '''', mi_ExportPath = ''''\<rparr>)
                       (ks_MountTargets x)\<rparr>) shares
               in case nxt of
                    None \<Rightarrow> (Inr infos, w2)
                  | Some t \<Rightarrow>
                      (case client_ListFileShares_loop n s rg (Some t) w2 of
                         (Inl e, w3) \<Rightarrow> (Inl e, w3)
                       | (Inr rest, w3) \<Rightarrow> (Inr (infos @ rest), w3))))"

definition client_GetSubnetZone :: "'w sdk \<Rightarrow> string \<Rightarrow> 'w \<Rightarrow> (verr + string) \<times> 'w" where
  "client_GetSubnetZone s subnetID w =
     (case withAuth s ''GetSubnet'' w of
        (Some e, w1) \<Rightarrow> (Inl e, w1)
      | (None, w1) \<Rightarrow>
          (case sdk_getSubnet s subnetID w1 of
             (Inl (code, msg), w2) \<Rightarrow> (Inl (mapHTTPError code msg), w2)
           | (Inr None, w2) \<Rightarrow> (Inl (VMsg ''subnet has no zone''), w2)
           | (Inr (Some z), w2) \<Rightarrow> (Inr z, w2)))"

fun client_FindSecurityGroupID_loop ::
  "nat \<Rightarrow> 'w sdk \<Rightarrow> string \<Rightarrow> string \<Rightarrow> string option \<Rightarrow> 'w \<Rightarrow> (verr + string) \<times> 'w" where
  "client_FindSecurityGroupID_loop 0 s vpcID name start w = (Inl VPolling, w)"
| "client_FindSecurityGroupID_loop (Suc n) s vpcID name start w =
     (case withAuth s ''ListSecurityGroups'' w of
        (Some e, w1) \<Rightarrow> (Inl e, w1)
      | (None, w1) \<Rightarrow>
          (case sdk_listSecurityGroups s vpcID start w1 of
             (Inl (code, msg), w2) \<Rightarrow> (Inl (mapHTTPError code msg), w2)
           | (Inr (groups, nxt), w2) \<Rightarrow>
               (case find (\<lambda>g. fst g = Some name \<and> snd g \<noteq> None) groups of
                  Some g \<Rightarrow> (Inr (the (snd g)), w2)
                | None \<Rightarrow>
                    (case nxt of
                       None \<Rightarrow> (Inl (VMsg ''security group not found''), w2)
                     | Some t \<Rightarrow> client_FindSecurityGroupID_loop n s vpcID name (Some t) w2))))"

definition Client :: "'w sdk \<Rightarrow> int \<Rightarrow> nat \<Rightarrow> 'w VPCFileClient" where
  "Client s poll pages = \<lparr>
     CreateFileShare = client_CreateFileShare s poll,
     GetFileShare = client_GetFileShare s,
     ExpandFileShare = client_ExpandFileShare s poll,
     DeleteFileShare = client_DeleteFileShare s,
     ListFileShares = (\<lambda>rg. client_ListFileShares_loop pages s rg None),
     ListSharesByName = client_ListSharesByName s,
     CreateShareMountTarget = client_CreateShareMountTarget s poll,
     GetSubnetZone = client_GetSubnetZone s,
     FindSecurityGroupID = (\<lambda>vpcID name. client_FindSecurityGroupID_loop pages s vpcID name None)\<rparr>"

section \<open>What the SDK calls keep\<close>

text \<open>
  \<open>sdk_frame\<close>: a relation between worlds that no SDK call breaks. Every operation of the
  client then keeps it, whatever the relation is: a clock that never goes back, the shares VPC
  has ever issued, the objects of the cluster.
\<close>

locale sdk_frame =
  fixes s :: "'w sdk" and R :: "'w \<Rightarrow> 'w \<Rightarrow> bool"
  assumes refl: "R w w"
    and trans: "R w w1 \<Longrightarrow> R w1 w2 \<Longrightarrow> R w w2"
    and wait: "R w (snd (sdk_wait s w))"
    and token: "R w (snd (sdk_token s r w))"
    and sleep: "0 \<le> d \<Longrightarrow> R w (snd (sdk_sleep s d w))"
    and createShare: "R w (snd (sdk_createShare s p w))"
    and getShare: "R w (snd (sdk_getShare s i w))"
    and updateShare: "R w (snd (sdk_updateShare s i g w))"
    and deleteShare: "R w (snd (sdk_deleteShare s i w))"
    and listShares: "R w (snd (sdk_listShares s a b c w))"
    and createMountTarget: "R w (snd (sdk_createMountTarget s i q w))"
    and getMountTarget: "R w (snd (sdk_getMountTarget s i j w))"
    and deleteMountTarget: "R w (snd (sdk_deleteMountTarget s i j w))"
    and getSubnet: "R w (snd (sdk_getSubnet s i w))"
    and listSecurityGroups: "R w (snd (sdk_listSecurityGroups s i st w))"
begin

lemmas calls = trans [OF _ wait] trans [OF _ token] trans [OF _ sleep] trans [OF _ createShare]
  trans [OF _ getShare] trans [OF _ updateShare] trans [OF _ deleteShare] trans [OF _ listShares]
  trans [OF _ createMountTarget] trans [OF _ getMountTarget] trans [OF _ deleteMountTarget]
  trans [OF _ getSubnet] trans [OF _ listSecurityGroups]

lemmas rules = calls frame_bind [where R = R] frame_branches [where R = R]

lemma withAuth: "R w w0 \<Longrightarrow> R w (snd (withAuth s op w0))"
  unfolding withAuth_def refreshToken_def by (assumption | rule rules)+

lemma getMountTarget_info: "R w w0 \<Longrightarrow> R w (snd (Vpc_Client.getMountTarget s i j w0))"
  unfolding Vpc_Client.getMountTarget_def by (assumption | rule withAuth rules)+

lemma fetchMountTargets: "R w w0 \<Longrightarrow> R w (snd (fetchMountTargets s i rs w0))"
proof (induction rs arbitrary: w0)
  case (Cons r rs)
  show ?case
    unfolding fetchMountTargets.simps
    by (assumption | rule Cons getMountTarget_info rules)+
qed simp

lemma GetFileShare: "R w w0 \<Longrightarrow> R w (snd (client_GetFileShare s i w0))"
  unfolding client_GetFileShare_def by (assumption | rule withAuth fetchMountTargets rules)+

lemma waitForShareStable_loop:
  "0 \<le> poll \<Longrightarrow> R w w0 \<Longrightarrow> R w (snd (waitForShareStable_loop n s poll i dl w0))"
proof (induction n arbitrary: w0)
  case (Suc n)
  show ?case
    unfolding waitForShareStable_loop.simps
    by (assumption | rule Suc GetFileShare rules)+
qed simp

lemma waitForMountPath_loop:
  "0 \<le> poll \<Longrightarrow> R w w0 \<Longrightarrow> R w (snd (waitForMountPath_loop n s poll i j dl w0))"
proof (induction n arbitrary: w0)
  case (Suc n)
  show ?case
    unfolding waitForMountPath_loop.simps
    by (assumption | rule Suc getMountTarget_info rules)+
qed simp

lemma waitForMountTargetIP:
  "0 \<le> poll \<Longrightarrow> R w w0 \<Longrightarrow> R w (snd (waitForMountTargetIP n s poll i j dl w0))"
proof (induction n arbitrary: w0)
  case (Suc n)
  show ?case
    unfolding waitForMountTargetIP.simps
    by (assumption | rule Suc getMountTarget_info rules)+
qed simp

lemma waitForMountPath: "0 \<le> poll \<Longrightarrow> R w w0 \<Longrightarrow> R w (snd (waitForMountPath s poll info w0))"
  unfolding waitForMountPath_def by (assumption | rule waitForMountPath_loop rules)+

lemma waitForShareStable: "0 \<le> poll \<Longrightarrow> R w w0 \<Longrightarrow> R w (snd (waitForShareStable s poll i t w0))"
  unfolding waitForShareStable_def by (rule waitForShareStable_loop)

lemma getShareByName: "0 \<le> poll \<Longrightarrow> R w w0 \<Longrightarrow> R w (snd (getShareByName s poll input w0))"
  unfolding getShareByName_def Let_def
  by (assumption | rule withAuth waitForShareStable waitForMountPath rules)+

lemma CreateFileShare: "0 \<le> poll \<Longrightarrow> R w w0 \<Longrightarrow> R w (snd (client_CreateFileShare s poll input w0))"
  unfolding client_CreateFileShare_def
  by (assumption | rule withAuth waitForShareStable waitForMountPath getShareByName rules)+

lemma CreateShareMountTarget:
  "0 \<le> poll \<Longrightarrow> R w w0 \<Longrightarrow> R w (snd (client_CreateShareMountTarget s poll i input w0))"
  unfolding client_CreateShareMountTarget_def
  by (assumption | rule withAuth waitForMountTargetIP rules)+

lemma getSharesByID: "R w w0 \<Longrightarrow> R w (snd (getSharesByID s xs w0))"
proof (induction xs arbitrary: w0)
  case (Cons x xs)
  show ?case unfolding getSharesByID.simps by (assumption | rule Cons GetFileShare rules)+
qed simp

lemma ListSharesByName: "R w w0 \<Longrightarrow> R w (snd (client_ListSharesByName s n w0))"
  unfolding client_ListSharesByName_def by (assumption | rule withAuth getSharesByID rules)+

lemma ExpandFileShare: "0 \<le> poll \<Longrightarrow> R w w0 \<Longrightarrow> R w (snd (client_ExpandFileShare s poll i g w0))"
  unfolding client_ExpandFileShare_def by (assumption | rule withAuth waitForShareStable rules)+

lemma deleteMountTargets: "R w w0 \<Longrightarrow> R w (snd (deleteMountTargets s i mts w0))"
proof (induction mts arbitrary: w0)
  case (Cons m mts)
  show ?case unfolding deleteMountTargets.simps by (assumption | rule Cons withAuth rules)+
qed simp

lemma DeleteFileShare: "R w w0 \<Longrightarrow> R w (snd (client_DeleteFileShare s i w0))"
  unfolding client_DeleteFileShare_def
  by (assumption | rule GetFileShare deleteMountTargets withAuth rules)+

lemma ListFileShares: "R w w0 \<Longrightarrow> R w (snd (client_ListFileShares_loop n s rg st w0))"
proof (induction n arbitrary: w0 st)
  case (Suc n)
  show ?case
    unfolding client_ListFileShares_loop.simps Let_def by (assumption | rule Suc withAuth rules)+
qed simp

lemma GetSubnetZone: "R w w0 \<Longrightarrow> R w (snd (client_GetSubnetZone s i w0))"
  unfolding client_GetSubnetZone_def by (assumption | rule withAuth rules)+

lemma FindSecurityGroupID: "R w w0 \<Longrightarrow> R w (snd (client_FindSecurityGroupID_loop n s v nm st w0))"
proof (induction n arbitrary: w0 st)
  case (Suc n)
  show ?case
    unfolding client_FindSecurityGroupID_loop.simps by (assumption | rule Suc withAuth rules)+
qed simp

end

text \<open>The same for the interface: what its nine operations keep.\<close>

locale vpc_frame =
  fixes v :: "'w VPCFileClient" and R :: "'w \<Rightarrow> 'w \<Rightarrow> bool"
  assumes refl: "R w w"
    and trans: "R w w1 \<Longrightarrow> R w1 w2 \<Longrightarrow> R w w2"
    and CreateFileShare: "R w (snd (CreateFileShare v ci w))"
    and GetFileShare: "R w (snd (GetFileShare v i w))"
    and ExpandFileShare: "R w (snd (ExpandFileShare v i g w))"
    and DeleteFileShare: "R w (snd (DeleteFileShare v i w))"
    and ListFileShares: "R w (snd (ListFileShares v i w))"
    and ListSharesByName: "R w (snd (ListSharesByName v i w))"
    and CreateShareMountTarget: "R w (snd (CreateShareMountTarget v i cm w))"
    and GetSubnetZone: "R w (snd (GetSubnetZone v i w))"
    and FindSecurityGroupID: "R w (snd (FindSecurityGroupID v i j w))"

context sdk_frame
begin

lemma Client_frame: "0 \<le> poll \<Longrightarrow> vpc_frame (Client s poll pages) R"
  by (unfold_locales)
    (auto simp: Client_def refl intro: trans CreateFileShare [OF _ refl] GetFileShare [OF refl]
      ExpandFileShare [OF _ refl] DeleteFileShare [OF refl] ListFileShares [OF refl]
      ListSharesByName [OF refl] CreateShareMountTarget [OF _ refl] GetSubnetZone [OF refl]
      FindSecurityGroupID [OF refl])

end

section \<open>Polling ends\<close>

text \<open>
  \<open>sdk_clock\<close>: no call sets the clock back, and sleeping lets the time pass. Then the rounds
  of a timeout are enough for each loop, so that no operation ends with \<open>VPolling\<close>.
\<close>

locale sdk_clock = sdk_frame s "\<lambda>w w'. sdk_now s w \<le> sdk_now s w'" for s :: "'w sdk" +
  assumes sleep_passes: "0 \<le> d \<Longrightarrow> sdk_sleep s d w = (False, w') \<Longrightarrow> sdk_now s w + d \<le> sdk_now s w'"
begin

lemma withAuth_not_polling: "withAuth s op w \<noteq> (Some VPolling, w1)"
  by (auto simp: withAuth_def refreshToken_def split: prod.splits option.splits)

lemma mapHTTPError_not_polling: "mapHTTPError c m \<noteq> VPolling"
  by (simp add: mapHTTPError_def)

lemma getMountTarget_not_polling: "Vpc_Client.getMountTarget s i j w \<noteq> (Inl VPolling, w1)"
  using withAuth_not_polling mapHTTPError_not_polling
  by (fastforce simp: Vpc_Client.getMountTarget_def split: prod.splits option.splits sum.splits)

lemma GetFileShare_not_polling: "client_GetFileShare s i w \<noteq> (Inl VPolling, w1)"
  using withAuth_not_polling mapHTTPError_not_polling
  by (fastforce simp: client_GetFileShare_def split: prod.splits option.splits sum.splits)

lemma rounds_enough: "0 < poll \<Longrightarrow> \<exists>n. rounds t poll = Suc n \<and> t < int n * poll"
proof -
  assume p: "0 < poll"
  have "t < (t div poll + 1) * poll"
    using p by (metis add.commute distrib_right less_add_same_cancel1 mod_less_divisor
        minus_mod_eq_div_mult pos_mod_bound diff_less_eq mult_1 add_less_cancel_left
        div_mult_mod_eq)
  also have "\<dots> \<le> int (Suc (nat (t div poll))) * poll"
    using p by (intro mult_right_mono) auto
  finally show ?thesis by (simp add: rounds_def)
qed

lemma waitForShareStable_loop_ends:
  assumes "0 < poll" and "dl < sdk_now s w + int n * poll"
  shows "waitForShareStable_loop (Suc n) s poll i dl w \<noteq> (Inl VPolling, w')"
  using assms(2)
proof (induction n arbitrary: w)
  case 0
  then show ?case by simp
next
  case (Suc n)
  obtain r w1 where g: "client_GetFileShare s i w = (r, w1)" by fastforce
  obtain b w2 where p: "sdk_sleep s poll w1 = (b, w2)" by fastforce
  have "sdk_now s w \<le> sdk_now s w1" using GetFileShare [of w w i] g by simp
  then have "\<not> b \<Longrightarrow> dl < sdk_now s w2 + int n * poll"
    using sleep_passes [of poll w1 w2] p assms(1) Suc.prems by (simp add: algebra_simps)
  then have "\<not> b \<Longrightarrow> waitForShareStable_loop (Suc n) s poll i dl w2 \<noteq> (Inl VPolling, w')"
    by (rule Suc.IH)
  then show ?case
    unfolding waitForShareStable_loop.simps(2) [of "Suc n"] using g p GetFileShare_not_polling [of i w w1]
    by (cases r; cases b) auto
qed

lemma waitForMountPath_loop_ends:
  assumes "0 < poll" and "dl \<le> sdk_now s w + int n * poll"
  shows "waitForMountPath_loop (Suc n) s poll i j dl w \<noteq> (Inl VPolling, w')"
  using assms(2)
proof (induction n arbitrary: w)
  case 0
  then show ?case by simp
next
  case (Suc n)
  obtain b w1 where p: "sdk_sleep s poll w = (b, w1)" by fastforce
  obtain r w2 where g: "Vpc_Client.getMountTarget s i j w1 = (r, w2)" by fastforce
  have "sdk_now s w1 \<le> sdk_now s w2" using getMountTarget_info [of w1 w1 i j] g by simp
  then have "\<not> b \<Longrightarrow> dl \<le> sdk_now s w2 + int n * poll"
    using sleep_passes [of poll w w1] p assms(1) Suc.prems by (simp add: algebra_simps)
  then have "\<not> b \<Longrightarrow> waitForMountPath_loop (Suc n) s poll i j dl w2 \<noteq> (Inl VPolling, w')"
    by (rule Suc.IH)
  then show ?case
    unfolding waitForMountPath_loop.simps(2) [of "Suc n"] using g p
    by (cases r; cases b) auto
qed

lemma waitForMountTargetIP_ends:
  assumes "0 < poll" and "dl < sdk_now s w + int n * poll"
  shows "waitForMountTargetIP (Suc n) s poll i j dl w \<noteq> (Inl VPolling, w')"
  using assms(2)
proof (induction n arbitrary: w)
  case 0
  then show ?case by simp
next
  case (Suc n)
  obtain r w1 where g: "Vpc_Client.getMountTarget s i j w = (r, w1)" by fastforce
  obtain b w2 where p: "sdk_sleep s poll w1 = (b, w2)" by fastforce
  have "sdk_now s w \<le> sdk_now s w1" using getMountTarget_info [of w w i j] g by simp
  then have "\<not> b \<Longrightarrow> dl < sdk_now s w2 + int n * poll"
    using sleep_passes [of poll w1 w2] p assms(1) Suc.prems by (simp add: algebra_simps)
  then have "\<not> b \<Longrightarrow> waitForMountTargetIP (Suc n) s poll i j dl w2 \<noteq> (Inl VPolling, w')"
    by (rule Suc.IH)
  then show ?case
    unfolding waitForMountTargetIP.simps(2) [of "Suc n"]
    using g p getMountTarget_not_polling [of i j w w1]
    by (cases r; cases b) auto
qed

lemma waitForShareStable_ends: "0 < poll \<Longrightarrow> waitForShareStable s poll i t w \<noteq> (Inl VPolling, w')"
  using rounds_enough [of poll t] waitForShareStable_loop_ends [of poll "sdk_now s w + t" w]
  by (auto simp: waitForShareStable_def)

lemma waitForMountPath_ends: "0 < poll \<Longrightarrow> waitForMountPath s poll info w \<noteq> (Inl VPolling, w')"
  using rounds_enough [of poll 120] waitForMountPath_loop_ends [of poll "sdk_now s w + 120" w]
  by (auto simp: waitForMountPath_def split: list.splits prod.splits sum.splits option.splits)

lemma settle_ends:
  assumes "0 < poll"
  shows "(case waitForShareStable s poll i t w of
            (Inl e, w3) \<Rightarrow> (Inl e, w3)
          | (Inr info, w3) \<Rightarrow> waitForMountPath s poll info w3) \<noteq> (Inl VPolling, w')"
  using waitForShareStable_ends [OF assms, of i t w] waitForMountPath_ends [OF assms]
  by (auto split: prod.splits sum.splits)

lemma getShareByName_ends: "0 < poll \<Longrightarrow> getShareByName s poll input w \<noteq> (Inl VPolling, w')"
  using withAuth_not_polling [of "''getShareByName''" w] settle_ends [of poll]
  by (auto simp: getShareByName_def Let_def split: prod.splits option.splits sum.splits if_splits)

lemma CreateFileShare_ends: "0 < poll \<Longrightarrow> client_CreateFileShare s poll input w \<noteq> (Inl VPolling, w')"
proof -
  assume p: "0 < poll"
  obtain a w1 where a: "withAuth s ''CreateFileShare'' w = (a, w1)" by fastforce
  then have "a \<noteq> Some VPolling" using withAuth_not_polling by auto
  then show ?thesis
    using a settle_ends [OF p] getShareByName_ends [OF p] mapHTTPError_not_polling
    by (auto simp: client_CreateFileShare_def simp del: not_None_eq
        split: prod.splits option.splits sum.splits if_splits)
qed

lemma CreateShareMountTarget_ends:
  "0 < poll \<Longrightarrow> client_CreateShareMountTarget s poll i input w \<noteq> (Inl VPolling, w')"
proof -
  assume p: "0 < poll"
  have "waitForMountTargetIP (rounds 300 poll) s poll i j (sdk_now s w + 300) w \<noteq> (Inl VPolling, w')" for j w
    using rounds_enough [OF p, of 300] waitForMountTargetIP_ends [OF p, of "sdk_now s w + 300" w]
    by auto
  then show ?thesis
    using withAuth_not_polling [of "''CreateShareMountTarget''" w] mapHTTPError_not_polling
    by (auto simp: client_CreateShareMountTarget_def split: prod.splits option.splits sum.splits if_splits)
qed

end

section \<open>What a created or adopted share is\<close>

text \<open>
  \<open>issued w\<close> are the share IDs VPC has given out so far. VPC gives a new share a new ID, and
  reading a share by its ID returns that share.
\<close>

locale sdk_shares = sdk_frame s "\<lambda>w w'. issued w \<subseteq> issued w'"
  for s :: "'w sdk" and issued :: "'w \<Rightarrow> string set" +
  assumes created_new: "sdk_createShare s p w = (Inr share, w') \<Longrightarrow> ks_ID share \<notin> issued w"
    and read_id: "sdk_getShare s i w = (Inr share, w') \<Longrightarrow> ks_ID share = i \<and> i \<in> issued w'"
begin

lemma GetFileShare_id:
  assumes "client_GetFileShare s i w = (Inr info, w')"
  shows "si_ID info = i \<and> i \<in> issued w'"
proof -
  obtain w1 w2 share where "sdk_getShare s i w1 = (Inr share, w2)"
    and f: "fetchMountTargets s i (ks_MountTargets share) w2 = (si_MountTargets info, w')"
    and "si_ID info = ks_ID share"
    using assms
    by (auto simp: client_GetFileShare_def shareToInfo_def split: prod.splits option.splits sum.splits)
  moreover have "issued w2 \<subseteq> issued w'"
    using fetchMountTargets [of w2 w2 i "ks_MountTargets share"] f by simp
  ultimately show ?thesis using read_id by blast
qed

lemma waitForShareStable_loop_result:
  "waitForShareStable_loop n s poll i dl w = (Inr info, w') \<Longrightarrow>
     si_ID info = i \<and> si_LifecycleState info = ''stable'' \<and> i \<in> issued w'"
proof (induction n arbitrary: w)
  case (Suc n)
  then show ?case
    by (auto split: prod.splits sum.splits if_splits bool.splits dest: GetFileShare_id)
qed simp

lemma waitForShareStable_result:
  "waitForShareStable s poll i t w = (Inr info, w') \<Longrightarrow>
     si_ID info = i \<and> si_LifecycleState info = ''stable'' \<and> i \<in> issued w'"
  by (simp add: waitForShareStable_def waitForShareStable_loop_result)

lemma waitForMountPath_result:
  assumes "waitForMountPath s poll info w = (Inr info', w')" and "0 \<le> poll"
  shows "si_ID info' = si_ID info \<and> si_LifecycleState info' = si_LifecycleState info
           \<and> issued w \<subseteq> issued w'"
  using assms waitForMountPath [of poll w w info]
  by (auto simp: waitForMountPath_def split: list.splits prod.splits sum.splits option.splits if_splits)

lemma settle_result:
  "0 \<le> poll \<Longrightarrow> (case waitForShareStable s poll i t w of
      (Inl e, w3) \<Rightarrow> (Inl e, w3)
    | (Inr info, w3) \<Rightarrow> waitForMountPath s poll info w3) = (Inr info, w') \<Longrightarrow>
     si_ID info = i \<and> si_LifecycleState info = ''stable'' \<and> i \<in> issued w'"
  by (auto split: prod.splits sum.splits dest!: waitForShareStable_result waitForMountPath_result)

lemma getShareByName_result:
  assumes "getShareByName s poll input w = (Inr info, w')" and "0 \<le> poll"
  shows "\<exists>share. shareMatchesRequest share input \<and> si_ID info = ks_ID share
           \<and> si_LifecycleState info = ''stable'' \<and> si_ID info \<in> issued w'"
proof -
  obtain w1 where a: "withAuth s ''getShareByName'' w = (None, w1)"
    using assms(1) by (auto simp: getShareByName_def split: prod.splits option.splits)
  obtain shares t w2 where l: "sdk_listShares s (Some (ci_Name input)) None None w1 = (Inr (shares, t), w2)"
    using assms(1) a by (auto simp: getShareByName_def split: prod.splits sum.splits)
  define ours where "ours = filter (\<lambda>x. shareMatchesRequest x input) shares"
  have ne: "ours \<noteq> []"
    using assms(1) a l by (auto simp: getShareByName_def Let_def ours_def split: if_splits)
  define chosen where "chosen = (case find (\<lambda>x. ks_MountTargets x \<noteq> []) ours of Some x \<Rightarrow> x | None \<Rightarrow> hd ours)"
  have "chosen \<in> set ours"
    using ne by (auto simp: chosen_def split: option.splits dest: find_SomeD)
  then have "shareMatchesRequest chosen input" by (simp add: ours_def)
  moreover have r: "(case waitForShareStable s poll (ks_ID chosen) 300 w2 of
      (Inl e, w3) \<Rightarrow> (Inl e, w3)
    | (Inr info, w3) \<Rightarrow> waitForMountPath s poll info w3) = (Inr info, w')"
    using assms(1) a l ne unfolding chosen_def ours_def
    by (auto simp: getShareByName_def Let_def split: if_splits)
  ultimately show ?thesis using settle_result [OF assms(2) r] by auto
qed

lemma CreateFileShare_result:
  assumes "client_CreateFileShare s poll input w = (Inr info, w')"
    and "0 \<le> poll" and "set (ci_ClaimedShareIDs input) \<subseteq> issued w"
  shows "si_ID info \<notin> set (ci_ClaimedShareIDs input) \<and> si_LifecycleState info = ''stable''
           \<and> si_ID info \<in> issued w' \<and> ci_SubnetID input \<noteq> []"
proof -
  obtain w1 where a: "withAuth s ''CreateFileShare'' w = (None, w1)"
    using assms(1) by (auto simp: client_CreateFileShare_def split: prod.splits option.splits)
  have "issued w \<subseteq> issued w1" using withAuth [of w w "''CreateFileShare''"] a by simp
  then have "sdk_createShare s q w1 = (Inr share, w2) \<Longrightarrow> ks_ID share \<notin> set (ci_ClaimedShareIDs input)"
    for q share w2
    using created_new [of q w1 share w2] assms(3) by blast
  then show ?thesis
    using assms(1,2) a
    by (auto simp: client_CreateFileShare_def shareMatchesRequest_def
        split: prod.splits sum.splits if_splits
        dest!: waitForShareStable_result waitForMountPath_result getShareByName_result)
qed

end

text \<open>
  The contract of the interface for new shares: the IDs a pool records are IDs VPC has issued,
  and the share a create call returns is stable and recorded by nobody. \<open>Client\<close> keeps it.
\<close>

locale vpc_shares = vpc_frame v "\<lambda>w w'. issued w \<subseteq> issued w'"
  for v :: "'w VPCFileClient" and issued :: "'w \<Rightarrow> string set" +
  assumes created: "CreateFileShare v input w = (Inr info, w') \<Longrightarrow>
      set (ci_ClaimedShareIDs input) \<subseteq> issued w \<Longrightarrow>
      si_ID info \<notin> set (ci_ClaimedShareIDs input) \<and> si_LifecycleState info = ''stable''
        \<and> si_ID info \<in> issued w'"

context sdk_shares
begin

lemma Client_shares: "0 \<le> poll \<Longrightarrow> vpc_shares (Client s poll pages) issued"
proof (intro vpc_shares.intro vpc_shares_axioms.intro Client_frame)
  fix input w info w'
  assume "0 \<le> poll" "CreateFileShare (Client s poll pages) input w = (Inr info, w')"
    and "set (ci_ClaimedShareIDs input) \<subseteq> issued w"
  then show "si_ID info \<notin> set (ci_ClaimedShareIDs input) \<and> si_LifecycleState info = ''stable''
        \<and> si_ID info \<in> issued w'"
    using CreateFileShare_result by (simp add: Client_def)
qed

end

section \<open>Facts about the helpers\<close>

lemma parseMountPath_join:
  assumes "parseMountPathServer m \<noteq> ''''"
  shows "parseMountPathServer m @ '':'' @ parseMountPathExport m = m"
    and "hd (parseMountPathExport m) = CHR ''/''"
proof -
  obtain i where i: "index_of m '':/'' = Some i" "0 < i"
    using assms by (auto simp: parseMountPathServer_def split: option.splits if_splits)
  then obtain t where t: "drop i m = '':/'' @ t"
    using index_of_prefix has_prefix_iff by blast
  have e: "drop (Suc i) m = ''/'' @ t"
    by (metis t append_Cons append_Nil drop_Suc list.sel(3) tl_drop)
  show "parseMountPathServer m @ '':'' @ parseMountPathExport m = m"
    using i e t append_take_drop_id [of i m]
    by (simp add: parseMountPathServer_def parseMountPathExport_def Let_def)
  show "hd (parseMountPathExport m) = CHR ''/''"
    using i e by (simp add: parseMountPathExport_def Let_def)
qed

lemma dp2Ranges_cover:
  "(\<exists>r \<in> set dp2Ranges. minSizeGB r \<le> g \<and> g \<le> maxSizeGB r) \<longleftrightarrow> 10 \<le> g \<and> g \<le> 32000"
  by (simp add: dp2Ranges_def) presburger

lemma dp2Ranges_rows:
  "r \<in> set dp2Ranges \<Longrightarrow> 100 \<le> minIOPS r \<and> minIOPS r < maxIOPS r \<and> maxIOPS r \<le> 96000
     \<and> maxIOPS r \<le> minSizeGB r * 100"
  by (auto simp: dp2Ranges_def)

lemma ShareIOPSRange_None: "ShareIOPSRange p g = None \<longleftrightarrow> p \<noteq> ''dp2'' \<or> g < 10 \<or> 32000 < g"
  using dp2Ranges_cover [of g] by (auto simp: ShareIOPSRange_def find_None_iff)

lemma ShareIOPSRange_bounds:
  "ShareIOPSRange p g = Some (mn, mx) \<Longrightarrow> 100 \<le> mn \<and> mn < mx \<and> mx \<le> 96000 \<and> mx \<le> g * 100"
  by (auto simp: ShareIOPSRange_def split: if_splits dest!: find_SomeD dest: dp2Ranges_rows)

section \<open>Properties of the helpers\<close>

text \<open>
  C23: a mount path that names a server comes apart without loss. The server and the export
  joined by a colon are the path again, and the export is absolute.
\<close>

theorem mountPath_roundtrip:
  assumes "parseMountPathServer mountPath \<noteq> ''''"
  shows "parseMountPathServer mountPath @ '':'' @ parseMountPathExport mountPath = mountPath
    \<and> has_prefix (parseMountPathExport mountPath) ''/''"
proof -
  have "parseMountPathExport mountPath \<noteq> ''''" by (auto simp: parseMountPathExport_def Let_def split: option.splits if_splits)
  then show ?thesis
    using parseMountPath_join [OF assms] by (cases "parseMountPathExport mountPath") (auto simp: has_prefix_def)
qed

theorem mountPath_roundtrip_witness:
  "parseMountPathServer ''10.0.0.1:/nxg/abc'' = ''10.0.0.1'' \<and> ''10.0.0.1'' @ '':'' @ parseMountPathExport ''10.0.0.1:/nxg/abc'' = ''10.0.0.1:/nxg/abc''"
proof -
  have s: "parseMountPathServer ''10.0.0.1:/nxg/abc'' = ''10.0.0.1''" by code_simp
  then show ?thesis using mountPath_roundtrip [of "''10.0.0.1:/nxg/abc''"] by simp
qed

text \<open>
  C24: the IOPS table of the \<open>dp2\<close> profile has a range for every size from 10 to 32000 GB and for
  no other, and a figure it accepts lies between 100 and 96000 and is at most 100 for each GB. For
  any other profile or size every figure passes.
\<close>

theorem ValidateShareIOPS_bounds:
  "ValidateShareIOPS profile sizeGB iops = None \<longleftrightarrow>
     (if profile = ''dp2'' \<and> 10 \<le> sizeGB \<and> sizeGB \<le> 32000
      then \<exists>mn mx. ShareIOPSRange profile sizeGB = Some (mn, mx) \<and> mn \<le> iops \<and> iops \<le> mx
             \<and> 100 \<le> mn \<and> mx \<le> 96000 \<and> mx \<le> 100 * sizeGB
      else True)"
proof (cases "ShareIOPSRange profile sizeGB")
  case None
  then show ?thesis using ShareIOPSRange_None [of profile sizeGB] by (auto simp: ValidateShareIOPS_def)
next
  case (Some r)
  then have "profile = ''dp2'' \<and> 10 \<le> sizeGB \<and> sizeGB \<le> 32000"
    using ShareIOPSRange_None [of profile sizeGB] by auto
  then show ?thesis
    using Some ShareIOPSRange_bounds [of profile sizeGB "fst r" "snd r"]
    by (cases r) (simp add: ValidateShareIOPS_def not_less mult.commute)
qed

end
