(* ===== verification/Share_Select.thy ===== *)
theory Share_Select
  imports K8s_Client Vpc_Client
begin

text \<open>
  \<^verbatim>\<open>pkg/pool/share.go\<close>: which share of a pool takes a new volume, and the sentinel errors of the
  package (\<^verbatim>\<open>manager.go\<close>). A share pointer into the slice is an index into the list. The lemmas
  characterise the two loops by the best share: the first one with the most (spread) or
  the least (binpack) free space among those that are ready, of the tier and large enough.
\<close>

section \<open>Errors\<close>

text \<open>
  One constructor per sentinel; \<^verbatim>\<open>fmt.Errorf\<close> with \<^verbatim>\<open>%w\<close> keeps the sentinel that
  \<^verbatim>\<open>errors.Is\<close> finds, so a wrapped error is its sentinel. The errors of the two clients are
  carried as they are, and \<open>EMsg\<close> is an error without a sentinel.
\<close>

datatype error =
    ErrPoolNotFound
  | ErrPoolExhausted
  | ErrPoolExpanding
  | ErrShareCreationPending
  | ErrNoUsableShare
  | ErrSubVolumeNotFound
  | ErrInsufficientShareCapacity
  | ErrSnapshotNotFound
  | ErrSnapshotAlreadyExists
  | ErrSourceNotFound
  | ErrGroupSnapshotNotFound
  | ErrGroupSnapshotFailed
  | ErrEmptySourceList
  | ErrOperationInProgress
  | ErrRestoreTooSmall
  | errShareDataNotSet
  | ErrNoSubnetForZone
  | ErrSnapshotFailed
  | ErrSnapshotUnsupported
  | ErrShareJobFailed
  | ErrTier tier_error
  | ErrK8s kerr
  | ErrVPC verr
  | EMsg string

section \<open>Selection\<close>

definition shareReady :: "PoolShareStatus \<Rightarrow> bool" where
  "shareReady s \<longleftrightarrow> sh_State s = ''stable'' \<and> sh_MountTargetIP s \<noteq> ''''"

definition sharesWithoutMountTarget :: "PoolShareStatus list \<Rightarrow> string \<Rightarrow> string list" where
  "sharesWithoutMountTarget shares tier =
     map sh_ShareID (filter (\<lambda>s. sh_Tier s = tier \<and> sh_State s = ''stable'' \<and> sh_MountTargetIP s = '''') shares)"

definition freeGB :: "PoolShareStatus \<Rightarrow> int" where
  "freeGB s = sh_TotalGB s - sh_AllocatedGB s"

text \<open>The loop: \<open>i\<close> is the index of the next share, \<open>best\<close> the pair \<open>(bestIdx, bestFree)\<close>.\<close>

fun selectShare_loop ::
  "string \<Rightarrow> int \<Rightarrow> string \<Rightarrow> nat \<Rightarrow> (nat \<times> int) option \<Rightarrow> PoolShareStatus list \<Rightarrow> error + (nat \<times> int) option" where
  "selectShare_loop strategy requestedGB tier i best [] = Inr best"
| "selectShare_loop strategy requestedGB tier i best (s # ss) =
     (if \<not> shareReady s \<or> sh_Tier s \<noteq> tier then selectShare_loop strategy requestedGB tier (Suc i) best ss
      else if freeGB s < requestedGB then selectShare_loop strategy requestedGB tier (Suc i) best ss
      else if strategy = ''spread'' then
        selectShare_loop strategy requestedGB tier (Suc i)
          (case best of
             None \<Rightarrow> Some (i, freeGB s)
           | Some (k, bestFree) \<Rightarrow> if freeGB s > bestFree then Some (i, freeGB s) else Some (k, bestFree)) ss
      else if strategy = ''binpack'' then
        selectShare_loop strategy requestedGB tier (Suc i)
          (case best of
             None \<Rightarrow> Some (i, freeGB s)
           | Some (k, bestFree) \<Rightarrow> if freeGB s < bestFree then Some (i, freeGB s) else Some (k, bestFree)) ss
      else Inl (EMsg ''unknown allocation strategy''))"

definition selectShare :: "string \<Rightarrow> PoolShareStatus list \<Rightarrow> int \<Rightarrow> string \<Rightarrow> error + nat" where
  "selectShare strategy shares requestedGB tier =
     (case selectShare_loop strategy requestedGB tier 0 None shares of
        Inl e \<Rightarrow> Inl e
      | Inr None \<Rightarrow> Inl ErrPoolExhausted
      | Inr (Some (bestIdx, _)) \<Rightarrow> Inr bestIdx)"

text \<open>The first loop of \<open>selectShareForClone\<close>: it stops at the first usable share with the ID.\<close>

fun sourceShare_loop ::
  "PoolShareStatus list \<Rightarrow> int \<Rightarrow> string \<Rightarrow> string \<Rightarrow> nat \<Rightarrow> nat option" where
  "sourceShare_loop [] requestedGB tier sourceShareID i = None"
| "sourceShare_loop (s # ss) requestedGB tier sourceShareID i =
     (if sh_ShareID s = sourceShareID \<and> sh_State s = ''stable'' \<and> sh_MountTargetIP s \<noteq> '''' \<and> sh_Tier s = tier
      then (if freeGB s \<ge> requestedGB then Some i else None)
      else sourceShare_loop ss requestedGB tier sourceShareID (Suc i))"

definition selectShareForClone ::
  "string \<Rightarrow> PoolShareStatus list \<Rightarrow> int \<Rightarrow> string \<Rightarrow> string \<Rightarrow> error + nat" where
  "selectShareForClone strategy shares requestedGB tier sourceShareID =
     (case sourceShare_loop shares requestedGB tier sourceShareID 0 of
        Some i \<Rightarrow> Inr i
      | None \<Rightarrow> selectShare strategy shares requestedGB tier)"

section \<open>The best share\<close>

definition fits :: "int \<Rightarrow> string \<Rightarrow> PoolShareStatus \<Rightarrow> bool" where
  "fits requestedGB tier s \<longleftrightarrow> shareReady s \<and> sh_Tier s = tier \<and> requestedGB \<le> freeGB s"

definition better :: "string \<Rightarrow> PoolShareStatus \<Rightarrow> PoolShareStatus \<Rightarrow> bool" where
  "better strategy a b \<longleftrightarrow> (if strategy = ''spread'' then freeGB a > freeGB b else freeGB a < freeGB b)"

definition best_share :: "string \<Rightarrow> int \<Rightarrow> string \<Rightarrow> PoolShareStatus list \<Rightarrow> nat \<Rightarrow> bool" where
  "best_share strategy requestedGB tier shares i \<longleftrightarrow>
     i < length shares \<and> fits requestedGB tier (shares ! i) \<and>
     (\<forall>j < length shares. fits requestedGB tier (shares ! j) \<longrightarrow> \<not> better strategy (shares ! j) (shares ! i)) \<and>
     (\<forall>j < i. fits requestedGB tier (shares ! j) \<longrightarrow> better strategy (shares ! i) (shares ! j))"

definition known_strategy :: "string \<Rightarrow> bool" where
  "known_strategy strategy \<longleftrightarrow> strategy = ''spread'' \<or> strategy = ''binpack''"

text \<open>What the loop knows after the shares \<open>pre\<close>.\<close>

definition best_so_far :: "string \<Rightarrow> int \<Rightarrow> string \<Rightarrow> PoolShareStatus list \<Rightarrow> (nat \<times> int) option \<Rightarrow> bool" where
  "best_so_far strategy requestedGB tier pre best \<longleftrightarrow>
     (case best of
        None \<Rightarrow> \<forall>s \<in> set pre. \<not> fits requestedGB tier s
      | Some (k, f) \<Rightarrow> best_share strategy requestedGB tier pre k \<and> f = freeGB (pre ! k))"

lemma best_share_skip:
  "\<not> fits r t s \<Longrightarrow> best_share st r t pre k \<Longrightarrow> best_share st r t (pre @ [s]) k"
  by (auto simp: best_share_def nth_append less_Suc_eq)

lemma best_share_keep:
  "best_share st r t pre k \<Longrightarrow> \<not> better st s (pre ! k) \<Longrightarrow> best_share st r t (pre @ [s]) k"
  by (auto simp: best_share_def nth_append less_Suc_eq)

lemma best_share_take:
  "best_share st r t pre k \<Longrightarrow> fits r t s \<Longrightarrow> better st s (pre ! k) \<Longrightarrow> known_strategy st \<Longrightarrow>
     best_share st r t (pre @ [s]) (length pre)"
  by (fastforce simp: best_share_def nth_append less_Suc_eq better_def split: if_splits)

lemma best_share_first:
  "\<forall>x \<in> set pre. \<not> fits r t x \<Longrightarrow> fits r t s \<Longrightarrow> best_share st r t (pre @ [s]) (length pre)"
  by (auto simp: best_share_def nth_append less_Suc_eq better_def)

lemma best_so_far_skip:
  "\<not> fits r t s \<Longrightarrow> best_so_far st r t pre best \<Longrightarrow> best_so_far st r t (pre @ [s]) best"
  using best_share_skip by (auto simp: best_so_far_def nth_append best_share_def split: option.splits)

lemma best_so_far_step:
  assumes "known_strategy st" "fits r t s" "best_so_far st r t pre best"
  shows "best_so_far st r t (pre @ [s])
     (case best of
        None \<Rightarrow> Some (length pre, freeGB s)
      | Some (k, f) \<Rightarrow> if better st s (pre ! k) then Some (length pre, freeGB s) else Some (k, f))"
proof (cases best)
  case None
  then show ?thesis using assms best_share_first by (simp add: best_so_far_def)
next
  case (Some p)
  then obtain k f where p: "best = Some (k, f)" "best_share st r t pre k" "f = freeGB (pre ! k)"
    using assms(3) by (cases p) (simp add: best_so_far_def)
  then have "k < length pre" by (simp add: best_share_def)
  then show ?thesis
    using p assms(1,2) best_share_take [of st r t pre k s] best_share_keep [of st r t pre k s]
    by (simp add: best_so_far_def nth_append)
qed

lemma selectShare_loop_best:
  assumes "known_strategy st" and "best_so_far st r t pre best"
  shows "\<exists>b. selectShare_loop st r t (length pre) best ss = Inr b \<and> best_so_far st r t (pre @ ss) b"
  using assms(2)
proof (induction ss arbitrary: pre best)
  case Nil
  then show ?case by simp
next
  case (Cons s ss)
  define best' where "best' = (if fits r t s then
      (case best of
        None \<Rightarrow> Some (length pre, freeGB s)
      | Some (k, f) \<Rightarrow> if better st s (pre ! k) then Some (length pre, freeGB s) else Some (k, f))
      else best)"
  have "best_so_far st r t (pre @ [s]) best'"
    using Cons.prems best_so_far_skip best_so_far_step [OF assms(1)] by (simp add: best'_def)
  then have "\<exists>b. selectShare_loop st r t (Suc (length pre)) best' ss = Inr b \<and> best_so_far st r t (pre @ s # ss) b"
    using Cons.IH [of "pre @ [s]" best'] by simp
  moreover have "selectShare_loop st r t (length pre) best (s # ss) = selectShare_loop st r t (Suc (length pre)) best' ss"
    using assms(1) Cons.prems
    by (auto simp: best'_def fits_def known_strategy_def better_def best_so_far_def split: option.splits)
  ultimately show ?case by simp
qed

lemma selectShare_cases:
  assumes "known_strategy st"
  shows "(\<exists>i. selectShare st shares r t = Inr i \<and> best_share st r t shares i)
       \<or> selectShare st shares r t = Inl ErrPoolExhausted \<and> (\<forall>s \<in> set shares. \<not> fits r t s)"
proof -
  have "best_so_far st r t [] None" by (simp add: best_so_far_def)
  then obtain b where "selectShare_loop st r t 0 None shares = Inr b" "best_so_far st r t shares b"
    using selectShare_loop_best [OF assms, of r t "[]" None shares] by auto
  then show ?thesis by (cases b) (auto simp: selectShare_def best_so_far_def)
qed

lemma best_share_unique: "best_share st r t shares i \<Longrightarrow> best_share st r t shares j \<Longrightarrow> i = j"
  unfolding best_share_def by (metis linorder_neqE_nat)

lemma best_share_exists_fit: "best_share st r t shares i \<Longrightarrow> \<exists>s \<in> set shares. fits r t s"
  by (auto simp: best_share_def)

text \<open>Whatever the strategy, a share that is returned fits.\<close>

lemma selectShare_loop_unknown:
  "\<not> known_strategy st \<Longrightarrow> selectShare_loop st r t i best ss =
     (if \<exists>s \<in> set ss. fits r t s then Inl (EMsg ''unknown allocation strategy'') else Inr best)"
  by (induction ss arbitrary: i) (auto simp: fits_def known_strategy_def)

lemma selectShare_fits:
  assumes "selectShare st shares r t = Inr i"
  shows "i < length shares \<and> fits r t (shares ! i)"
proof (cases "known_strategy st")
  case True
  then show ?thesis using assms selectShare_cases [of st shares r t] by (auto simp: best_share_def)
next
  case False
  then show ?thesis
    using assms by (auto simp: selectShare_def selectShare_loop_unknown split: if_splits)
qed

lemma sourceShare_loop_fits:
  "sourceShare_loop ss r t src i = Some k \<Longrightarrow>
     i \<le> k \<and> k < i + length ss \<and> fits r t (ss ! (k - i)) \<and> sh_ShareID (ss ! (k - i)) = src"
proof (induction ss arbitrary: i)
  case (Cons s ss)
  show ?case
  proof (cases "k = i")
    case True
    then show ?thesis using Cons.prems Cons.IH [of "Suc i"]
      by (auto simp: fits_def shareReady_def split: if_splits)
  next
    case False
    then have "sourceShare_loop ss r t src (Suc i) = Some k"
      using Cons.prems by (auto split: if_splits)
    then show ?thesis using Cons.IH [of "Suc i"] by (auto simp: nth_Cons')
  qed
qed simp

lemma selectShareForClone_fits:
  "selectShareForClone st shares r t src = Inr i \<Longrightarrow> i < length shares \<and> fits r t (shares ! i)"
  using selectShare_fits sourceShare_loop_fits [of shares r t src 0]
  by (fastforce simp: selectShareForClone_def split: option.splits)

lemma sourceShare_loop_complete:
  assumes "distinct (map sh_ShareID ss)" "k < length ss" "fits r t (ss ! k)" "sh_ShareID (ss ! k) = src"
  shows "sourceShare_loop ss r t src i = Some (i + k)"
  using assms
proof (induction ss arbitrary: i k)
  case (Cons s ss)
  show ?case
  proof (cases k)
    case 0
    then show ?thesis using Cons.prems by (auto simp: fits_def shareReady_def)
  next
    case (Suc m)
    then have "sh_ShareID s \<noteq> src" using Cons.prems by (auto simp: nth_mem)
    then show ?thesis using Suc Cons.prems Cons.IH [of m "Suc i"] by simp
  qed
qed simp

section \<open>Properties\<close>

text \<open>
  C4: for the strategies the API admits, \<open>selectShare\<close> returns exactly the share the
  specification names: ready, of the tier, with room, the freest one for \<open>spread\<close> and the fullest
  one for \<open>binpack\<close>, the first of equals.
\<close>

theorem selectShare_best_share:
  assumes "known_strategy strategy"
  shows "selectShare strategy shares requestedGB tier = Inr i \<longleftrightarrow> best_share strategy requestedGB tier shares i"
  using selectShare_cases [OF assms, of shares requestedGB tier] best_share_unique best_share_exists_fit
  by (metis Inl_Inr_False sum.inject(2))

definition exampleShare :: "string \<Rightarrow> int \<Rightarrow> PoolShareStatus" where
  "exampleShare shareID allocatedGB = \<lparr>sh_ShareID = shareID, sh_ShareName = shareID,
     sh_MountTargetIP = ''10.0.0.1'', sh_MountTargetID = ''mt'', sh_ExportPath = ''/e'', sh_TotalGB = 100,
     sh_AllocatedGB = allocatedGB, sh_PVCCount = 0, sh_State = ''stable'', sh_Tier = ''gold'', sh_Zone = ''us-south-1'',
     sh_MountTargets = [], sh_CreatedAt = None\<rparr>"

theorem selectShare_best_share_witness:
  "known_strategy ''spread'' \<and> best_share ''spread'' 10 ''gold''
     [exampleShare ''s1'' 50, exampleShare ''s2'' 20, exampleShare ''s3'' 20] 1"
  using selectShare_best_share [of "''spread''" "[exampleShare ''s1'' 50, exampleShare ''s2'' 20, exampleShare ''s3'' 20]" 10 "''gold''" 1]
  by (simp add: known_strategy_def selectShare_def exampleShare_def shareReady_def freeGB_def)

text \<open>
  C5: \<open>selectShare\<close> fails in two ways only. No share fits, and it reports the pool as
  exhausted whatever the strategy; or some share fits and the strategy is not one it knows.
\<close>

theorem selectShare_error:
  "selectShare strategy shares requestedGB tier = Inl e \<longleftrightarrow>
     (if \<exists>s \<in> set shares. fits requestedGB tier s
      then \<not> known_strategy strategy \<and> e = EMsg ''unknown allocation strategy''
      else e = ErrPoolExhausted)"
proof (cases "known_strategy strategy")
  case True
  then show ?thesis
    using selectShare_cases [OF True, of shares requestedGB tier] best_share_exists_fit by fastforce
next
  case False
  then show ?thesis by (auto simp: selectShare_def selectShare_loop_unknown)
qed

text \<open>
  C6: a clone goes to the share of its source whenever that share fits, and otherwise where
  \<open>selectShare\<close> would put a new volume of that size; what it returns fits in either case.
\<close>

theorem selectShareForClone_prefers_source:
  assumes "distinct (map sh_ShareID shares)"
  shows "selectShareForClone strategy shares requestedGB tier source =
    (case find (\<lambda>i. sh_ShareID (shares ! i) = source \<and> fits requestedGB tier (shares ! i)) [0..<length shares] of
       Some i \<Rightarrow> Inr i
     | None \<Rightarrow> selectShare strategy shares requestedGB tier)"
proof -
  let ?P = "\<lambda>i. sh_ShareID (shares ! i) = source \<and> fits requestedGB tier (shares ! i)"
  have "find ?P [0..<length shares] = sourceShare_loop shares requestedGB tier source 0"
  proof (cases "find ?P [0..<length shares]")
    case None
    then have "\<not> ?P k" if "k < length shares" for k using that by (simp add: find_None_iff)
    then show ?thesis
      using None sourceShare_loop_fits [of shares requestedGB tier source 0]
      by (cases "sourceShare_loop shares requestedGB tier source 0") auto
  next
    case (Some k)
    then have "k < length shares" "?P k" by (auto simp: find_Some_iff)
    then show ?thesis using Some sourceShare_loop_complete [OF assms, of k requestedGB tier source 0] by simp
  qed
  then show ?thesis by (simp add: selectShareForClone_def)
qed

theorem selectShareForClone_prefers_source_witness:
  "distinct (map sh_ShareID [exampleShare ''s1'' 20, exampleShare ''s2'' 50]) \<and>
   selectShareForClone ''spread'' [exampleShare ''s1'' 20, exampleShare ''s2'' 50] 10 ''gold'' ''s2'' = Inr 1"
  using selectShareForClone_prefers_source [of "[exampleShare ''s1'' 20, exampleShare ''s2'' 50]" "''spread''" 10 "''gold''" "''s2''"]
  by (simp add: exampleShare_def fits_def shareReady_def freeGB_def)

end
