(* ===== verification/Fake_Vpc.thy ===== *)
theory Fake_Vpc
  imports Vpc_Client K8s_Client
begin

text \<open>
  \<^verbatim>\<open>pkg/ibmcloud/fake/fake_client.go\<close>: the VPC client in memory. Its state extends the world of
  the API server in memory, so that one world holds both. It keeps the contract of
  \<open>VPCFileClient\<close>, and \<open>mem_sdk\<close> keeps the contracts of the SDK under the real client.
\<close>

section \<open>FakeVPCClient\<close>

record fakevpc = store +
  fv_shares :: "(string \<times> ShareInfo) list"
  fv_nextID :: nat
  fv_subnetZones :: smap
  fv_securityGroups :: smap
  fv_CreateErr :: "verr option"
  fv_GetErr :: "verr option"
  fv_ExpandErr :: "verr option"
  fv_DeleteErr :: "verr option"
  fv_CreateMountTargetErr :: "verr option"
  fv_failCreateAfter :: int
  fv_failCreateAfterErr :: "verr option"
  fv_CreateCalls :: int
  fv_GetCalls :: int
  fv_ExpandCalls :: int
  fv_DeleteCalls :: int
  fv_CreateMountTargetCalls :: int
  fv_GetSubnetZoneCalls :: int
  fv_FindSecurityGroupCalls :: int
  fv_LastCreateInput :: "CreateShareInput option"
  fv_LastMountTargetInput :: "CreateMountTargetInput option"
  fv_now :: int

text \<open>\<^verbatim>\<open>%04d\<close>, and writing and deleting a key of the map of shares.\<close>

definition pad4 :: "nat \<Rightarrow> string" where
  "pad4 n = replicate (4 - length (itoa n)) CHR ''0'' @ itoa n"

definition fake_id :: "nat \<Rightarrow> string" where
  "fake_id n = ''r006-fake-'' @ pad4 n"

definition share_put :: "string \<Rightarrow> ShareInfo \<Rightarrow> (string \<times> ShareInfo) list \<Rightarrow> (string \<times> ShareInfo) list" where
  "share_put i info m = (i, info) # filter (\<lambda>p. fst p \<noteq> i) m"

definition fake_CreateFileShare ::
  "CreateShareInput \<Rightarrow> 'a fakevpc_scheme \<Rightarrow> (verr + ShareInfo) \<times> 'a fakevpc_scheme" where
  "fake_CreateFileShare input w =
     (let w1 = w\<lparr>fv_CreateCalls := fv_CreateCalls w + 1, fv_LastCreateInput := Some input\<rparr>
      in case fv_CreateErr w1 of
           Some e \<Rightarrow> (Inl e, w1)
         | None \<Rightarrow>
             if fv_failCreateAfterErr w1 \<noteq> None \<and> fv_CreateCalls w1 > fv_failCreateAfter w1
             then (Inl (the (fv_failCreateAfterErr w1)), w1)
             else if ci_SubnetID input = ''''
             then (Inl (VMsg ''subnet ID is required for the mount target''), w1)
             else let n = fv_nextID w1 + 1; i = fake_id n;
                      info = \<lparr>si_ID = i, si_Name = ci_Name input, si_LifecycleState = ''stable'',
                        si_SizeGB = ci_SizeGB input, si_IOPS = 1000, si_Profile = ci_Profile input,
                        si_Zone = ci_Zone input, si_ResourceGroupID = ci_ResourceGroupID input,
                        si_Tags = ci_Tags input,
                        si_MountTargets = [\<lparr>mi_ID = i @ ''-mt'', mi_Name = ci_Name input @ ''-mt'',
                          mi_IPAddress = ''10.240.0.'' @ itoa n, mi_ExportPath = ''/'' @ i\<rparr>],
                        si_CreatedAt = fv_now w1\<rparr>
                  in (Inr info, w1\<lparr>fv_nextID := n, fv_shares := share_put i info (fv_shares w1)\<rparr>))"

definition fake_GetFileShare ::
  "string \<Rightarrow> 'a fakevpc_scheme \<Rightarrow> (verr + ShareInfo) \<times> 'a fakevpc_scheme" where
  "fake_GetFileShare shareID w =
     (let w1 = w\<lparr>fv_GetCalls := fv_GetCalls w + 1\<rparr>
      in case fv_GetErr w1 of
           Some e \<Rightarrow> (Inl e, w1)
         | None \<Rightarrow> (case map_of (fv_shares w1) shareID of
                      None \<Rightarrow> (Inl ErrShareNotFound, w1)
                    | Some info \<Rightarrow> (Inr info, w1)))"

definition fake_ExpandFileShare ::
  "string \<Rightarrow> int \<Rightarrow> 'a fakevpc_scheme \<Rightarrow> verr option \<times> 'a fakevpc_scheme" where
  "fake_ExpandFileShare shareID newSizeGB w =
     (let w1 = w\<lparr>fv_ExpandCalls := fv_ExpandCalls w + 1\<rparr>
      in case fv_ExpandErr w1 of
           Some e \<Rightarrow> (Some e, w1)
         | None \<Rightarrow> (case map_of (fv_shares w1) shareID of
                      None \<Rightarrow> (Some ErrShareNotFound, w1)
                    | Some info \<Rightarrow>
                        (None, w1\<lparr>fv_shares := share_put shareID (info\<lparr>si_SizeGB := newSizeGB\<rparr>) (fv_shares w1)\<rparr>)))"

definition fake_DeleteFileShare :: "string \<Rightarrow> 'a fakevpc_scheme \<Rightarrow> verr option \<times> 'a fakevpc_scheme" where
  "fake_DeleteFileShare shareID w =
     (let w1 = w\<lparr>fv_DeleteCalls := fv_DeleteCalls w + 1\<rparr>
      in case fv_DeleteErr w1 of
           Some e \<Rightarrow> (Some e, w1)
         | None \<Rightarrow> (None, w1\<lparr>fv_shares := filter (\<lambda>p. fst p \<noteq> shareID) (fv_shares w1)\<rparr>))"

definition fake_CreateShareMountTarget ::
  "string \<Rightarrow> CreateMountTargetInput \<Rightarrow> 'a fakevpc_scheme \<Rightarrow> (verr + MountTargetInfo) \<times> 'a fakevpc_scheme" where
  "fake_CreateShareMountTarget shareID input w =
     (let w1 = w\<lparr>fv_CreateMountTargetCalls := fv_CreateMountTargetCalls w + 1,
                 fv_LastMountTargetInput := Some input\<rparr>
      in case fv_CreateMountTargetErr w1 of
           Some e \<Rightarrow> (Inl e, w1)
         | None \<Rightarrow>
             (case map_of (fv_shares w1) shareID of
                None \<Rightarrow> (Inl ErrShareNotFound, w1)
              | Some info \<Rightarrow>
                  let n = fv_nextID w1 + 1;
                      mt = \<lparr>mi_ID = shareID @ ''-mt-'' @ itoa n, mi_Name = cm_Name input,
                        mi_IPAddress = ''10.240.'' @ itoa n @ ''.'' @ itoa (length (si_MountTargets info) + 1),
                        mi_ExportPath = ''/'' @ shareID\<rparr>
                  in (Inr mt, w1\<lparr>fv_nextID := n,
                        fv_shares := share_put shareID
                          (info\<lparr>si_MountTargets := si_MountTargets info @ [mt]\<rparr>) (fv_shares w1)\<rparr>)))"

definition fake_GetSubnetZone :: "string \<Rightarrow> 'a fakevpc_scheme \<Rightarrow> (verr + string) \<times> 'a fakevpc_scheme" where
  "fake_GetSubnetZone subnetID w =
     (let w1 = w\<lparr>fv_GetSubnetZoneCalls := fv_GetSubnetZoneCalls w + 1\<rparr>
      in case map_of (fv_subnetZones w1) subnetID of
           None \<Rightarrow> (Inl ErrShareNotFound, w1)
         | Some zone \<Rightarrow> (Inr zone, w1))"

definition fake_FindSecurityGroupID ::
  "string \<Rightarrow> string \<Rightarrow> 'a fakevpc_scheme \<Rightarrow> (verr + string) \<times> 'a fakevpc_scheme" where
  "fake_FindSecurityGroupID vpcID name w =
     (let w1 = w\<lparr>fv_FindSecurityGroupCalls := fv_FindSecurityGroupCalls w + 1\<rparr>
      in case map_of (fv_securityGroups w1) name of
           None \<Rightarrow> (Inl (VMsg ''security group not found''), w1)
         | Some i \<Rightarrow> (Inr i, w1))"

definition fake_ListFileShares ::
  "string \<Rightarrow> 'a fakevpc_scheme \<Rightarrow> (verr + ShareInfo list) \<times> 'a fakevpc_scheme" where
  "fake_ListFileShares rg w = (Inr (map snd (fv_shares w)), w)"

definition fake_ListSharesByName ::
  "string \<Rightarrow> 'a fakevpc_scheme \<Rightarrow> (verr + ShareInfo list) \<times> 'a fakevpc_scheme" where
  "fake_ListSharesByName name w = (Inr (filter (\<lambda>i. si_Name i = name) (map snd (fv_shares w))), w)"

definition FakeVPCClient :: "('a fakevpc_scheme) VPCFileClient" where
  "FakeVPCClient = \<lparr>
     CreateFileShare = fake_CreateFileShare,
     GetFileShare = fake_GetFileShare,
     ExpandFileShare = fake_ExpandFileShare,
     DeleteFileShare = fake_DeleteFileShare,
     ListFileShares = fake_ListFileShares,
     ListSharesByName = fake_ListSharesByName,
     CreateShareMountTarget = fake_CreateShareMountTarget,
     GetSubnetZone = fake_GetSubnetZone,
     FindSecurityGroupID = fake_FindSecurityGroupID\<rparr>"

lemmas fake_ops = FakeVPCClient_def fake_CreateFileShare_def fake_GetFileShare_def
  fake_ExpandFileShare_def fake_DeleteFileShare_def fake_ListFileShares_def
  fake_ListSharesByName_def fake_CreateShareMountTarget_def fake_GetSubnetZone_def
  fake_FindSecurityGroupID_def

section \<open>The contracts of the fake\<close>

text \<open>The IDs the fake has given out are those up to the counter.\<close>

definition fake_issued :: "'a fakevpc_scheme \<Rightarrow> string set" where
  "fake_issued w = fake_id ` {n. n \<le> fv_nextID w}"

lemma fake_id_inj: "fake_id m = fake_id n \<Longrightarrow> m = n"
  using digits_val_zeros digits_val_itoa unfolding fake_id_def pad4_def
  by (metis same_append_eq)

definition same_cluster :: "'a fakevpc_scheme \<Rightarrow> 'a fakevpc_scheme \<Rightarrow> bool" where
  "same_cluster w w' \<longleftrightarrow> st_pools w' = st_pools w \<and> st_subvols w' = st_subvols w
     \<and> st_snaps w' = st_snaps w \<and> st_faults w' = st_faults w"

interpretation fake_cluster: vpc_frame FakeVPCClient same_cluster
  by (unfold_locales)
    (auto simp: same_cluster_def fake_ops Let_def split: option.splits)

interpretation fake_shares: vpc_shares FakeVPCClient fake_issued
proof
  fix input :: CreateShareInput and w w' :: "'a fakevpc_scheme" and info
  assume "CreateFileShare FakeVPCClient input w = (Inr info, w')"
    and c: "set (ci_ClaimedShareIDs input) \<subseteq> fake_issued w"
  then have "si_ID info = fake_id (fv_nextID w + 1)" "si_LifecycleState info = ''stable''"
    "fv_nextID w' = fv_nextID w + 1"
    by (auto simp: fake_ops Let_def split: option.splits if_splits)
  moreover have "fake_id (fv_nextID w + 1) \<notin> fake_issued w"
    using fake_id_inj by (fastforce simp: fake_issued_def)
  ultimately show "si_ID info \<notin> set (ci_ClaimedShareIDs input) \<and> si_LifecycleState info = ''stable''
      \<and> si_ID info \<in> fake_issued w'"
    using c by (auto simp: fake_issued_def)
qed (auto simp: fake_issued_def fake_ops Let_def split: option.splits)

section \<open>A VPC in memory under the SDK\<close>

text \<open>
  The instance of the SDK contracts: a share is pending for \<open>mv_delay\<close> seconds after its
  creation, a second share of the same name is refused the way VPC refuses it, and sleeping
  advances the clock.
\<close>

record memvpc =
  mv_now :: int
  mv_delay :: int
  mv_next :: nat
  mv_shares :: "sdkShare list"

definition mem_createShare :: "SharePrototype \<Rightarrow> memvpc \<Rightarrow> (sdk_err + sdkShare) \<times> memvpc" where
  "mem_createShare p w =
     (if pr_Name p \<in> ks_Name ` set (mv_shares w) then (Inl (400, ''share already exists''), w)
      else let n = mv_next w + 1; i = fake_id n;
               share = \<lparr>ks_ID = i, ks_Name = pr_Name p, ks_LifecycleState = ''pending'', ks_Size = pr_Size p,
                 ks_Iops = 1000, ks_Profile = Some (pr_Profile p), ks_Zone = Some (pr_Zone p),
                 ks_ResourceGroup = pr_ResourceGroup p, ks_UserTags = pr_UserTags p,
                 ks_MountTargets = map (\<lambda>m. (i @ ''-mt'', pr_mtName m)) (pr_MountTargets p),
                 ks_CreatedAt = Some (mv_now w)\<rparr>
           in (Inr share, w\<lparr>mv_next := n, mv_shares := share # mv_shares w\<rparr>))"

definition mem_seen :: "memvpc \<Rightarrow> sdkShare \<Rightarrow> sdkShare" where
  "mem_seen w x =
     (case ks_CreatedAt x of
        Some t \<Rightarrow> if mv_now w < t + mv_delay w then x else x\<lparr>ks_LifecycleState := ''stable''\<rparr>
      | None \<Rightarrow> x\<lparr>ks_LifecycleState := ''stable''\<rparr>)"

definition mem_getShare :: "string \<Rightarrow> memvpc \<Rightarrow> (sdk_err + sdkShare) \<times> memvpc" where
  "mem_getShare i w =
     (if i \<in> set (map fake_id [0..<Suc (mv_next w)])
      then case find (\<lambda>x. ks_ID x = i) (mv_shares w) of
             Some x \<Rightarrow> (Inr (mem_seen w x), w)
           | None \<Rightarrow> (Inl (404, ''share not found''), w)
      else (Inl (404, ''share not found''), w))"

definition mem_sdk :: "memvpc sdk" where
  "mem_sdk = \<lparr>
     sdk_wait = (\<lambda>w. (None, w)),
     sdk_token = (\<lambda>r w. (None, w)),
     sdk_now = mv_now,
     sdk_sleep = (\<lambda>d w. (False, w\<lparr>mv_now := mv_now w + d\<rparr>)),
     sdk_createShare = mem_createShare,
     sdk_getShare = mem_getShare,
     sdk_updateShare = (\<lambda>i g w.
       (None, w\<lparr>mv_shares := map (\<lambda>x. if ks_ID x = i then x\<lparr>ks_Size := g\<rparr> else x) (mv_shares w)\<rparr>)),
     sdk_deleteShare = (\<lambda>i w. (None, w\<lparr>mv_shares := filter (\<lambda>x. ks_ID x \<noteq> i) (mv_shares w)\<rparr>)),
     sdk_listShares = (\<lambda>nm rg st w.
       (Inr (filter (\<lambda>x. (nm = None \<or> nm = Some (ks_Name x)) \<and> (rg = None \<or> rg = ks_ResourceGroup x))
               (map (mem_seen w) (mv_shares w)), None), w)),
     sdk_createMountTarget = (\<lambda>i p w. (Inr \<lparr>km_ID = i @ ''-mt'', km_Name = pr_mtName p, km_MountPath = None\<rparr>, w)),
     sdk_getMountTarget = (\<lambda>i j w.
       (Inr \<lparr>km_ID = j, km_Name = j, km_MountPath = Some (''10.240.0.1:/'' @ i)\<rparr>, w)),
     sdk_deleteMountTarget = (\<lambda>i j w. (None, w)),
     sdk_getSubnet = (\<lambda>i w. (Inr (Some ''us-south-1''), w)),
     sdk_listSecurityGroups = (\<lambda>v st w. (Inr ([], None), w))\<rparr>"

lemma fake_ids: "set (map fake_id [0..<Suc n]) = fake_id ` {k. k \<le> n}"
  by (simp only: set_map set_upt atLeast0LessThan lessThan_Suc_atMost atMost_def)

lemmas mem_sdk_defs = mem_sdk_def mem_createShare_def mem_getShare_def Let_def fake_ids

definition mem_issued :: "memvpc \<Rightarrow> string set" where
  "mem_issued w = fake_id ` {n. n \<le> mv_next w}"

interpretation mem_clock: sdk_clock mem_sdk
  by (unfold_locales) (auto simp: mem_sdk_defs split: option.splits)

interpretation mem_shares: sdk_shares mem_sdk mem_issued
proof
  show "ks_ID share \<notin> mem_issued w" if "sdk_createShare mem_sdk p w = (Inr share, w')" for p w share w'
  proof -
    have "ks_ID share = fake_id (mv_next w + 1)"
      using that by (auto simp: mem_sdk_defs split: if_splits)
    then show ?thesis using fake_id_inj by (fastforce simp: mem_issued_def)
  qed
  show "ks_ID share = i \<and> i \<in> mem_issued w'" if "sdk_getShare mem_sdk i w = (Inr share, w')" for i w share w'
    using that find_SomeD
    by (fastforce simp: mem_sdk_defs mem_issued_def mem_seen_def split: option.splits if_splits)
qed (auto simp: mem_sdk_defs mem_issued_def split: option.splits)

interpretation mem_client: vpc_shares "Client mem_sdk 10 1" mem_issued
  by (rule mem_shares.Client_shares) simp

section \<open>Properties of the VPC client\<close>

text \<open>
  C7: creating a share and creating a mount target return. With a clock that runs, the
  poll loops of the two calls reach their timeout within the rounds the model gives them, so the
  outcome is a result or an error of the code and never the end of the fuel.
\<close>

theorem create_calls_end:
  assumes "sdk_clock s" "0 < poll"
  shows "fst (CreateFileShare (Client s poll pages) input w) \<noteq> Inl VPolling
    \<and> fst (CreateShareMountTarget (Client s poll pages) shareID target w) \<noteq> Inl VPolling"
  using sdk_clock.CreateFileShare_ends [OF assms, of input w] sdk_clock.CreateShareMountTarget_ends [OF assms, of shareID target w]
  by (auto simp: Client_def fst_def split: prod.splits)

text \<open>
  C8: the share a create call returns belongs to no pool yet. Whether VPC made it just now or
  the client adopted one of the same name that an earlier try left behind, its ID is none of the
  claimed ones, it is stable, and VPC has issued it.
\<close>

theorem created_share_unclaimed:
  assumes "sdk_shares s issued" "0 \<le> poll" "set (ci_ClaimedShareIDs input) \<subseteq> issued w"
    and "CreateFileShare (Client s poll pages) input w = (Inr info, w')"
  shows "si_ID info \<notin> set (ci_ClaimedShareIDs input) \<and> si_LifecycleState info = ''stable'' \<and> si_ID info \<in> issued w'"
  using vpc_shares.created [OF sdk_shares.Client_shares [OF assms(1,2)] assms(4,3)] .

definition exampleInput :: CreateShareInput where
  "exampleInput = \<lparr>ci_Name = ''pool-gold-1'', ci_Zone = ''us-south-1'', ci_Profile = ''dp2'', ci_SizeGB = 100,
     ci_IOPS = Some 1000, ci_ResourceGroupID = '''', ci_Tags = [], ci_EncryptInTransit = False,
     ci_SubnetID = ''subnet'', ci_SecurityGroupIDs = [''sg''], ci_ClaimedShareIDs = [fake_id 1]\<rparr>"

definition exampleVpc :: memvpc where
  "exampleVpc = \<lparr>mv_now = 0, mv_delay = 30, mv_next = 1, mv_shares = []\<rparr>"

lemma example_create:
  "(case CreateFileShare (Client mem_sdk 10 1) exampleInput exampleVpc of
      (Inr info, w') \<Rightarrow> si_ID info = fake_id 2 \<and> mv_now w' = 30 | _ \<Rightarrow> False)"
  by code_simp

theorem create_calls_end_witness:
  "sdk_clock mem_sdk \<and> fst (CreateFileShare (Client mem_sdk 10 1) exampleInput exampleVpc) \<noteq> Inl VPolling"
  using mem_clock.sdk_clock_axioms create_calls_end [of mem_sdk 10 1 exampleInput exampleVpc] by simp

theorem created_share_unclaimed_witness:
  "\<exists>info w'. CreateFileShare (Client mem_sdk 10 1) exampleInput exampleVpc = (Inr info, w')
     \<and> si_ID info \<notin> set (ci_ClaimedShareIDs exampleInput)"
proof -
  obtain info w' where c: "CreateFileShare (Client mem_sdk 10 1) exampleInput exampleVpc = (Inr info, w')"
    using example_create by (auto split: prod.splits sum.splits)
  have "set (ci_ClaimedShareIDs exampleInput) \<subseteq> mem_issued exampleVpc"
    by (auto simp: exampleInput_def exampleVpc_def mem_issued_def)
  then show ?thesis using created_share_unclaimed [OF mem_shares.sdk_shares_axioms _ _ c] c by simp
qed

end
