(* ===== verification/Share_Network.thy ===== *)
theory Share_Network
  imports Share_Select Fake_Vpc
begin

text \<open>
  \<^verbatim>\<open>pkg/pool/share_network.go\<close>: the network of a new share's mount target, the request that
  creates the share and the record of the created share. \<open>ShareNetwork\<close> caches its lookups, so
  the operations that use it return it updated. The lemmas show that the cache is sound (a
  cached lookup gives what the VPC answers) and what a new record starts with.
\<close>

record ShareNetwork =
  nw_vpcID :: string
  nw_subnetIDs :: "string list"
  nw_clusterID :: string
  nw_subnetZones :: smap
  nw_clusterSGID :: string

definition NewShareNetwork :: "string \<Rightarrow> string list \<Rightarrow> string \<Rightarrow> ShareNetwork" where
  "NewShareNetwork vpcID subnetIDs clusterID = \<lparr>nw_vpcID = vpcID, nw_subnetIDs = subnetIDs,
     nw_clusterID = clusterID, nw_subnetZones = [], nw_clusterSGID = ''''\<rparr>"

fun subnetInZone_loop ::
  "'w VPCFileClient \<Rightarrow> string \<Rightarrow> string list \<Rightarrow> ShareNetwork \<Rightarrow> 'w \<Rightarrow> (error + string) \<times> ShareNetwork \<times> 'w" where
  "subnetInZone_loop vpc zone [] n w = (Inl ErrNoSubnetForZone, n, w)"
| "subnetInZone_loop vpc zone (i # is) n w =
     (case map_of (nw_subnetZones n) i of
        Some subnetZone \<Rightarrow>
          if subnetZone = zone then (Inr i, n, w) else subnetInZone_loop vpc zone is n w
      | None \<Rightarrow>
          (case GetSubnetZone vpc i w of
             (Inl e, w1) \<Rightarrow> (Inl (ErrVPC e), n, w1)
           | (Inr subnetZone, w1) \<Rightarrow>
               let n1 = n\<lparr>nw_subnetZones := mput i subnetZone (nw_subnetZones n)\<rparr>
               in if subnetZone = zone then (Inr i, n1, w1) else subnetInZone_loop vpc zone is n1 w1))"

definition subnetInZone ::
  "'w VPCFileClient \<Rightarrow> string \<Rightarrow> ShareNetwork \<Rightarrow> 'w \<Rightarrow> (error + string) \<times> ShareNetwork \<times> 'w" where
  "subnetInZone vpc zone n w = subnetInZone_loop vpc zone (nw_subnetIDs n) n w"

definition mountTargetNetwork ::
  "'w VPCFileClient \<Rightarrow> FileSharePool \<Rightarrow> ShareNetwork \<Rightarrow> 'w \<Rightarrow> (error + string \<times> string list) \<times> ShareNetwork \<times> 'w" where
  "mountTargetNetwork vpc pool n w =
     (case subnetInZone vpc (ps_Zone (fp_Spec pool)) n w of
        (Inl e, n1, w1) \<Rightarrow> (Inl e, n1, w1)
      | (Inr subnetID, n1, w1) \<Rightarrow>
          if ps_SecurityGroupIDs (fp_Spec pool) \<noteq> []
          then (Inr (subnetID, ps_SecurityGroupIDs (fp_Spec pool)), n1, w1)
          else if nw_clusterSGID n1 \<noteq> '''' then (Inr (subnetID, [nw_clusterSGID n1]), n1, w1)
          else if nw_clusterID n1 = '''' then (Inl (EMsg ''cluster ID is unknown''), n1, w1)
          else case FindSecurityGroupID vpc (nw_vpcID n1) (''kube-'' @ nw_clusterID n1) w1 of
            (Inl e, w2) \<Rightarrow> (Inl (ErrVPC e), n1, w2)
          | (Inr i, w2) \<Rightarrow> (Inr (subnetID, [i]), n1\<lparr>nw_clusterSGID := i\<rparr>, w2))"

definition nextShareName :: "FileSharePool \<Rightarrow> string \<Rightarrow> string" where
  "nextShareName pool tier =
     (if tier = '''' then pool_name pool @ ''-share-'' @ itoa (length (pool_shares pool) + 1)
      else pool_name pool @ ''-'' @ tier @ ''-share-'' @
             itoa (length (filter (\<lambda>s. sh_Tier s = tier) (pool_shares pool)) + 1))"

text \<open>The network is optional: a manager without one cannot create shares.\<close>

definition newShareInput ::
  "'w VPCFileClient \<Rightarrow> ShareNetwork option \<Rightarrow> FileSharePool \<Rightarrow> string \<Rightarrow> string \<Rightarrow> 'w \<Rightarrow>
     (error + CreateShareInput) \<times> ShareNetwork option \<times> 'w" where
  "newShareInput vpc network pool tier defaultResourceGroup w =
     (case TierConfig (fp_Spec pool) tier of
        Inl e \<Rightarrow> (Inl (ErrTier e), network, w)
      | Inr (profile, sizeGB, iops, _, _) \<Rightarrow>
          (case network of
             None \<Rightarrow> (Inl (EMsg ''cluster network is not configured yet''), None, w)
           | Some n \<Rightarrow>
               (case mountTargetNetwork vpc pool n w of
                  (Inl e, n1, w1) \<Rightarrow> (Inl e, Some n1, w1)
                | (Inr (subnetID, sgIDs), n1, w1) \<Rightarrow>
                    (Inr \<lparr>ci_Name = nextShareName pool tier, ci_Zone = ps_Zone (fp_Spec pool),
                       ci_Profile = profile, ci_SizeGB = sizeGB, ci_IOPS = iops,
                       ci_ResourceGroupID = (if ps_ResourceGroup (fp_Spec pool) = '''' then defaultResourceGroup
                         else ps_ResourceGroup (fp_Spec pool)),
                       ci_Tags = ps_Tags (fp_Spec pool),
                       ci_EncryptInTransit = ps_EncryptionInTransit (fp_Spec pool),
                       ci_SubnetID = subnetID, ci_SecurityGroupIDs = sgIDs, ci_ClaimedShareIDs = []\<rparr>,
                     Some n1, w1))))"

definition recordedShareIDs :: "'w Client \<Rightarrow> 'w \<Rightarrow> error + string list" where
  "recordedShareIDs c w =
     (case ListFileSharePools c w of
        Inl e \<Rightarrow> Inl (ErrK8s e)
      | Inr pools \<Rightarrow> Inr (concat (map (\<lambda>p. map sh_ShareID (pool_shares p)) pools)))"

definition newPoolShareStatus :: "ShareInfo \<Rightarrow> string \<Rightarrow> time \<Rightarrow> PoolShareStatus" where
  "newPoolShareStatus info tier now =
     (let status = \<lparr>sh_ShareID = si_ID info, sh_ShareName = si_Name info, sh_MountTargetIP = '''',
            sh_MountTargetID = '''', sh_ExportPath = '''', sh_TotalGB = si_SizeGB info,
            sh_AllocatedGB = 0, sh_PVCCount = 0,
            sh_State = (if si_LifecycleState info = ''stable'' then ''stable'' else ''creating''),
            sh_Tier = tier, sh_Zone = si_Zone info, sh_MountTargets = [], sh_CreatedAt = Some now\<rparr>
      in case si_MountTargets info of
           [] \<Rightarrow> status
         | mt # _ \<Rightarrow>
             if mi_IPAddress mt \<noteq> '''' then
               status\<lparr>sh_MountTargetIP := mi_IPAddress mt, sh_MountTargetID := mi_ID mt,
                 sh_ExportPath := mi_ExportPath mt,
                 sh_MountTargets := [\<lparr>mt_Zone = si_Zone info, mt_MountTargetID = mi_ID mt,
                   mt_MountTargetIP = mi_IPAddress mt, mt_ExportPath = mi_ExportPath mt\<rparr>]\<rparr>
             else status)"

section \<open>What a new record starts with\<close>

lemma newPoolShareStatus_simps [simp]:
  "sh_ShareID (newPoolShareStatus info tier now) = si_ID info"
  "sh_TotalGB (newPoolShareStatus info tier now) = si_SizeGB info"
  "sh_AllocatedGB (newPoolShareStatus info tier now) = 0"
  "sh_PVCCount (newPoolShareStatus info tier now) = 0"
  "sh_Tier (newPoolShareStatus info tier now) = tier"
  by (simp_all add: newPoolShareStatus_def Let_def split: list.splits)

lemma newPoolShareStatus_ready:
  "shareReady (newPoolShareStatus info tier now) \<longleftrightarrow>
     si_LifecycleState info = ''stable'' \<and> si_MountTargets info \<noteq> [] \<and> mi_IPAddress (hd (si_MountTargets info)) \<noteq> ''''"
  by (auto simp: newPoolShareStatus_def shareReady_def Let_def split: list.splits)

section \<open>What the calls keep\<close>

context vpc_frame
begin

lemma subnetInZone_loop_frame: "subnetInZone_loop v zone is n w = (r, n', w') \<Longrightarrow> R w w'"
proof (induction "is" arbitrary: n w)
  case Nil
  then show ?case using refl by auto
next
  case (Cons i "is")
  obtain q w1 where g: "GetSubnetZone v i w = (q, w1)" by fastforce
  have "R w w1" using GetSubnetZone [of w i] g by simp
  then show ?case
    using Cons refl trans g by (auto simp: Let_def split: option.splits sum.splits if_splits)
qed

lemma mountTargetNetwork_frame:
  assumes "mountTargetNetwork v pool n w = (r, n', w')"
  shows "R w w'"
proof -
  obtain q n1 w1 where s: "subnetInZone v (ps_Zone (fp_Spec pool)) n w = (q, n1, w1)" by (metis prod_cases3)
  obtain f w2 where f: "FindSecurityGroupID v (nw_vpcID n1) (''kube-'' @ nw_clusterID n1) w1 = (f, w2)" by fastforce
  have "R w w1" using s subnetInZone_loop_frame by (simp add: subnetInZone_def)
  moreover have "R w1 w2" using FindSecurityGroupID [of w1] f by (metis snd_conv)
  ultimately show ?thesis
    using assms s f trans by (auto simp: mountTargetNetwork_def split: sum.splits if_splits)
qed

lemma newShareInput_frame:
  assumes "newShareInput v network pool tier rg w = (r, n', w')"
  shows "R w w'"
  using assms refl mountTargetNetwork_frame
  by (auto simp: newShareInput_def split: sum.splits option.splits prod.splits)

end

section \<open>The cache\<close>

text \<open>
  \<open>zones w\<close> gives the zone of each subnet; a subnet does not move. The cache is sound when it
  holds nothing else.
\<close>

definition cache_sound :: "(string \<Rightarrow> string) \<Rightarrow> ShareNetwork \<Rightarrow> bool" where
  "cache_sound zone_of n \<longleftrightarrow> (\<forall>i z. map_of (nw_subnetZones n) i = Some z \<longrightarrow> z = zone_of i)"

locale subnet_zones = vpc_frame vpc "\<lambda>w w'. zones w' = zones w"
  for vpc :: "'w VPCFileClient" and zones :: "'w \<Rightarrow> string \<Rightarrow> string" +
  assumes zone: "GetSubnetZone vpc i w = (Inr z, w') \<Longrightarrow> z = zones w i"
begin

lemma zone_kept: "GetSubnetZone vpc i w = (r, w') \<Longrightarrow> zones w' = zones w"
  using GetSubnetZone [of i w] by simp

lemma subnetInZone_loop_sound:
  assumes "cache_sound (zones w) n" and "subnetInZone_loop vpc zone is n w = (r, n', w')"
  shows "cache_sound (zones w') n' \<and> zones w' = zones w \<and>
    (case r of
       Inr i \<Rightarrow> find (\<lambda>i. zones w i = zone) is = Some i
     | Inl e \<Rightarrow> e = ErrNoSubnetForZone \<and> (\<forall>i \<in> set is. zones w i \<noteq> zone) \<or> (\<exists>v. e = ErrVPC v))"
  using assms
proof (induction "is" arbitrary: n w)
  case Nil
  then show ?case by auto
next
  case (Cons i "is")
  show ?case
  proof (cases "map_of (nw_subnetZones n) i")
    case (Some z)
    then have "z = zones w i" using Cons.prems(1) by (simp add: cache_sound_def)
    then show ?thesis using Some Cons.prems Cons.IH [of w n] by (auto split: if_splits sum.splits)
  next
    case None
    obtain q w1 where g: "GetSubnetZone vpc i w = (q, w1)" by fastforce
    show ?thesis
    proof (cases q)
      case (Inl e)
      then show ?thesis using None g Cons.prems zone_kept [OF g] by auto
    next
      case (Inr z)
      define n1 where "n1 = n\<lparr>nw_subnetZones := mput i z (nw_subnetZones n)\<rparr>"
      have z: "z = zones w i" and k: "zones w1 = zones w"
        using g Inr zone zone_kept by auto
      then have "cache_sound (zones w1) n1"
        using Cons.prems(1) by (auto simp: cache_sound_def n1_def map_of_mput)
      then show ?thesis
        using None g Inr z k Cons.prems(2) Cons.IH [of w1 n1]
        by (auto simp: n1_def Let_def split: if_splits sum.splits)
    qed
  qed
qed

lemma mountTargetNetwork_sound:
  assumes "cache_sound (zones w) n" and "mountTargetNetwork vpc pool n w = (Inr (subnetID, sgs), n', w')"
  shows "find (\<lambda>i. zones w i = ps_Zone (fp_Spec pool)) (nw_subnetIDs n) = Some subnetID"
  using assms subnetInZone_loop_sound [OF assms(1), of "ps_Zone (fp_Spec pool)" "nw_subnetIDs n"]
  by (fastforce simp: mountTargetNetwork_def subnetInZone_def split: prod.splits sum.splits if_splits)

end

interpretation fake_zones: subnet_zones FakeVPCClient "\<lambda>w. mget (fv_subnetZones w)"
  by (unfold_locales) (auto simp: fake_ops Let_def mget_def split: option.splits)

end
