(* ===== verification/Util_Paths.thy ===== *)
theory Util_Paths
  imports Prelude
begin

text \<open>
  \<^verbatim>\<open>pkg/util/path.go\<close> and \<^verbatim>\<open>pkg/util/volume_id.go\<close>: the paths of volume and snapshot
  folders and the CSI volume ID. \<^verbatim>\<open>filepath.Clean\<close> and \<^verbatim>\<open>filepath.Join\<close> are modelled on the
  elements between slashes: the cleaned path is the stack that is left after each element was
  pushed, dropped or popped. The lemmas show that a joined path lies under its base.
\<close>

section \<open>filepath.Clean and filepath.Join\<close>

fun elements :: "string \<Rightarrow> string list" where
  "elements [] = [[]]"
| "elements (c # cs) =
     (if c = CHR ''/'' then [] # elements cs
      else case elements cs of [] \<Rightarrow> [[c]] | e # es \<Rightarrow> (c # e) # es)"

text \<open>The stack holds the elements so far, the last one first.\<close>

fun clean_step :: "bool \<Rightarrow> string list \<Rightarrow> string \<Rightarrow> string list" where
  "clean_step rooted st e =
     (if e = '''' \<or> e = ''.'' then st
      else if e = ''..'' then
        (case st of
           [] \<Rightarrow> if rooted then [] else [''..'']
         | t # rest \<Rightarrow> if t = ''..'' then ''..'' # st else rest)
      else e # st)"

definition rooted :: "string \<Rightarrow> bool" where
  "rooted p \<longleftrightarrow> has_prefix p ''/''"

definition clean_elems :: "string \<Rightarrow> string list" where
  "clean_elems p = rev (foldl (clean_step (rooted p)) [] (elements p))"

definition Clean :: "string \<Rightarrow> string" where
  "Clean p =
     (if p = '''' then ''.''
      else if rooted p then ''/'' @ join ''/'' (clean_elems p)
      else if clean_elems p = [] then ''.'' else join ''/'' (clean_elems p))"

definition Join :: "string \<Rightarrow> string \<Rightarrow> string" where
  "Join a b =
     (if a = '''' \<and> b = '''' then ''''
      else if a = '''' then Clean b
      else if b = '''' then Clean a
      else Clean (a @ ''/'' @ b))"

section \<open>Volume and snapshot paths\<close>

definition hex_or_dash :: "char \<Rightarrow> bool" where
  "hex_or_dash c \<longleftrightarrow> c \<in> set ''abcdef0123456789-''"

definition alnum_or_dash :: "char \<Rightarrow> bool" where
  "alnum_or_dash c \<longleftrightarrow> c \<in> set ''abcdefghijklmnopqrstuvwxyzABCDEFGHIJKLMNOPQRSTUVWXYZ0123456789-''"

text \<open>The two anchored patterns: \<^verbatim>\<open>/pvcs/pvc-[a-f0-9-]{36}\<close> and \<^verbatim>\<open>/pvcs/.snapshots/snap-[a-zA-Z0-9-]+\<close>.\<close>

definition validSubDirPattern :: "string \<Rightarrow> bool" where
  "validSubDirPattern s \<longleftrightarrow> has_prefix s ''/pvcs/pvc-'' \<and> length s = 46 \<and> list_all hex_or_dash (drop 10 s)"

definition validSnapshotPathPattern :: "string \<Rightarrow> bool" where
  "validSnapshotPathPattern s \<longleftrightarrow>
     has_prefix s ''/pvcs/.snapshots/snap-'' \<and> length s > 22 \<and> list_all alnum_or_dash (drop 22 s)"

definition ValidateSubDir :: "string \<Rightarrow> string option" where
  "ValidateSubDir subDir =
     (if \<not> validSubDirPattern subDir then Some ''does not match expected pattern''
      else if Clean subDir \<noteq> subDir then Some ''is not clean''
      else if contains subDir ''..'' then Some ''contains path traversal''
      else None)"

definition SafeJoin :: "string \<Rightarrow> string \<Rightarrow> string + string" where
  "SafeJoin base sub =
     (case ValidateSubDir sub of
        Some e \<Rightarrow> Inl e
      | None \<Rightarrow>
          let joined = Join base sub
          in if \<not> has_prefix (Clean joined) (Clean base) then Inl ''escapes base'' else Inr joined)"

definition ValidateSnapshotPath :: "string \<Rightarrow> string option" where
  "ValidateSnapshotPath snapshotPath =
     (if \<not> validSnapshotPathPattern snapshotPath then Some ''does not match expected pattern''
      else if Clean snapshotPath \<noteq> snapshotPath then Some ''is not clean''
      else if contains snapshotPath ''..'' then Some ''contains path traversal''
      else None)"

definition SafeJoinSnapshot :: "string \<Rightarrow> string \<Rightarrow> string + string" where
  "SafeJoinSnapshot base snapshotPath =
     (case ValidateSnapshotPath snapshotPath of
        Some e \<Rightarrow> Inl e
      | None \<Rightarrow>
          let joined = Join base snapshotPath
          in if \<not> has_prefix (Clean joined) (Clean base) then Inl ''escapes base'' else Inr joined)"

section \<open>Backup paths\<close>

definition backupPolicyDir :: "string \<Rightarrow> bool" where
  "backupPolicyDir d \<longleftrightarrow> d \<noteq> [] \<and> length d \<le> 63 \<and> lower_alnum (hd d) \<and> lower_alnum (last d)
     \<and> list_all (\<lambda>c. lower_alnum c \<or> c = CHR ''-'' \<or> c = CHR ''.'') d"

text \<open>The policy folder holds no slash, so it is what stands before the next slash.\<close>

definition backupPattern :: "string \<Rightarrow> string \<Rightarrow> bool" where
  "backupPattern mid p \<longleftrightarrow>
     has_prefix p ''/backup/'' \<and>
     (let rest = drop 8 p; d = takeWhile (\<lambda>c. c \<noteq> CHR ''/'') rest; tl' = drop (length d) rest
      in backupPolicyDir d \<and> has_prefix tl' mid \<and>
         length tl' = length mid + 36 \<and> list_all hex_or_dash (drop (length mid) tl'))"

definition validateBackup :: "string \<Rightarrow> (string \<Rightarrow> bool) \<Rightarrow> string option" where
  "validateBackup p re =
     (if \<not> re p then Some ''does not match expected pattern''
      else if Clean p \<noteq> p then Some ''is not clean''
      else if contains p ''..'' then Some ''contains path traversal''
      else None)"

definition ValidateBackupPath :: "string \<Rightarrow> string option" where
  "ValidateBackupPath p = validateBackup p (backupPattern ''/pvcs/pvc-'')"

definition ValidateBackupMomentsPath :: "string \<Rightarrow> string option" where
  "ValidateBackupMomentsPath p = validateBackup p (backupPattern ''/.moments/pvcs/pvc-'')"

section \<open>Volume IDs\<close>

text \<open>\<^verbatim>\<open>strings.SplitN(id, "/", 3)\<close>.\<close>

definition split1 :: "string \<Rightarrow> (string \<times> string) option" where
  "split1 s = (case dropWhile (\<lambda>c. c \<noteq> CHR ''/'') s of
     [] \<Rightarrow> None
   | _ # rest \<Rightarrow> Some (takeWhile (\<lambda>c. c \<noteq> CHR ''/'') s, rest))"

definition ParseVolumeID :: "string \<Rightarrow> string + (string \<times> string \<times> string)" where
  "ParseVolumeID vid =
     (case split1 vid of
        None \<Rightarrow> Inl ''ID must have 3 parts''
      | Some (poolName, rest) \<Rightarrow>
          (case split1 rest of
             None \<Rightarrow> Inl ''ID must have 3 parts''
           | Some (shareID, name) \<Rightarrow> Inr (poolName, shareID, name)))"

section \<open>Cleaned paths\<close>

lemma elements_not_Nil [simp]: "elements p \<noteq> []"
  by (induction p rule: elements.induct) (auto split: list.splits)

lemma elements_append: "elements (a @ CHR ''/'' # b) = elements a @ elements b"
  by (induction a) (auto split: list.splits)

lemma elements_no_slash: "CHR ''/'' \<notin> set e \<Longrightarrow> elements e = [e]"
  by (induction e) auto

lemma elements_slash_free: "e \<in> set (elements p) \<Longrightarrow> CHR ''/'' \<notin> set e"
  by (induction p arbitrary: e rule: elements.induct) (auto split: list.splits if_splits)

lemma elements_join:
  "es \<noteq> [] \<Longrightarrow> (\<And>e. e \<in> set es \<Longrightarrow> CHR ''/'' \<notin> set e) \<Longrightarrow> elements (join ''/'' es) = es"
proof (induction es rule: induct_list012)
  case (3 x y zs)
  then show ?case using elements_append [of x "join ''/'' (y # zs)"] elements_no_slash [of x] by simp
qed (simp_all add: elements_no_slash)

lemma join_append:
  "es \<noteq> [] \<Longrightarrow> fs \<noteq> [] \<Longrightarrow> join ''/'' (es @ fs) = join ''/'' es @ ''/'' @ join ''/'' fs"
proof (induction es rule: induct_list012)
  case (2 x)
  then show ?case by (cases fs) auto
qed simp_all

text \<open>An element that a cleaned rooted path keeps.\<close>

definition plain :: "string \<Rightarrow> bool" where
  "plain e \<longleftrightarrow> e \<noteq> '''' \<and> e \<noteq> ''.'' \<and> e \<noteq> ''..'' \<and> CHR ''/'' \<notin> set e"

lemma clean_step_plain [simp]: "plain e \<Longrightarrow> clean_step r st e = e # st"
  by (simp add: plain_def)

lemma clean_fold_plain: "list_all plain es \<Longrightarrow> foldl (clean_step r) st es = rev es @ st"
  by (induction es arbitrary: st) (simp_all del: clean_step.simps)

lemma clean_step_keeps_plain:
  "list_all plain st \<Longrightarrow> CHR ''/'' \<notin> set e \<Longrightarrow> list_all plain (clean_step True st e)"
  by (cases st) (auto simp: plain_def)

lemma clean_fold_rooted:
  "list_all plain st \<Longrightarrow> (\<And>e. e \<in> set es \<Longrightarrow> CHR ''/'' \<notin> set e) \<Longrightarrow>
     list_all plain (foldl (clean_step True) st es)"
  by (induction es arbitrary: st) (simp_all add: clean_step_keeps_plain del: clean_step.simps)

lemma clean_elems_plain: "rooted p \<Longrightarrow> list_all plain (clean_elems p)"
  using clean_fold_rooted [of "[]" "elements p"] elements_slash_free
  by (simp add: clean_elems_def list_all_rev)

lemma rooted_append: "p \<noteq> '''' \<Longrightarrow> rooted (p @ q) = rooted p"
  by (cases p) (auto simp: rooted_def has_prefix_def)

lemma rooted_Clean: "rooted p \<Longrightarrow> rooted (Clean p)"
  by (auto simp: Clean_def rooted_def has_prefix_def)

lemma clean_elems_of_plain:
  assumes "list_all plain es"
  shows "clean_elems (''/'' @ join ''/'' es) = es"
proof (cases "es = []")
  case True
  then show ?thesis by (simp add: clean_elems_def)
next
  case False
  have "elements (CHR ''/'' # join ''/'' es) = [] # es"
    using elements_append [of "[]" "join ''/'' es"] elements_join [OF False] assms
    by (simp add: plain_def list_all_iff)
  then show ?thesis
    using clean_fold_plain [OF assms] by (simp add: clean_elems_def)
qed

lemma Clean_rooted: "rooted p \<Longrightarrow> Clean p = ''/'' @ join ''/'' (clean_elems p)"
  by (auto simp: Clean_def rooted_def has_prefix_def)

lemma clean_elems_Clean: "rooted p \<Longrightarrow> clean_elems (Clean p) = clean_elems p"
  by (simp only: Clean_rooted clean_elems_of_plain clean_elems_plain)

lemma Clean_Clean: "rooted p \<Longrightarrow> Clean (Clean p) = Clean p"
  using Clean_rooted [of "Clean p"] Clean_rooted [of p] clean_elems_Clean rooted_Clean by metis

lemma clean_elems_join:
  assumes "base \<noteq> ''''" and "list_all plain es"
  shows "clean_elems (base @ ''/'' @ ''/'' @ join ''/'' es) = clean_elems base @ es"
proof -
  have e: "elements (CHR ''/'' # join ''/'' es) = [] # (if es = [] then [[]] else es)"
    using elements_append [of "[]" "join ''/'' es"] elements_join [of es] assms(2)
    by (simp add: plain_def list_all_iff)
  have "foldl (clean_step r) st (elements (CHR ''/'' # join ''/'' es)) = rev es @ st" for r st
    using clean_fold_plain [OF assms(2)] e by simp
  moreover have "elements (base @ ''/'' @ ''/'' @ join ''/'' es)
      = elements base @ elements (CHR ''/'' # join ''/'' es)"
    using elements_append [of base "CHR ''/'' # join ''/'' es"] by simp
  ultimately show ?thesis
    using rooted_append [OF assms(1)] by (simp add: clean_elems_def)
qed

section \<open>Joined paths\<close>

lemma not_hex: "\<not> hex_or_dash CHR ''/''" "\<not> hex_or_dash CHR ''.''"
  by (simp_all add: hex_or_dash_def)

lemma not_alnum: "\<not> alnum_or_dash CHR ''/''" "\<not> alnum_or_dash CHR ''.''"
  by (simp_all add: alnum_or_dash_def)

lemma hex_or_dash_no_slash: "list_all hex_or_dash s \<Longrightarrow> CHR ''/'' \<notin> set s \<and> CHR ''.'' \<notin> set s"
  using not_hex unfolding list_all_iff by blast

lemma alnum_or_dash_no_slash: "list_all alnum_or_dash s \<Longrightarrow> CHR ''/'' \<notin> set s \<and> CHR ''.'' \<notin> set s"
  using not_alnum unfolding list_all_iff by blast

lemma no_dot_contains: "CHR ''.'' \<notin> set s \<Longrightarrow> \<not> contains s ''..''"
  by (auto simp: contains_iff)

lemma validSubDirPattern_iff:
  "validSubDirPattern s \<longleftrightarrow> (\<exists>x. s = ''/pvcs/pvc-'' @ x \<and> length x = 36 \<and> list_all hex_or_dash x)"
  by (auto simp: validSubDirPattern_def has_prefix_iff)

lemma subDir_elements:
  "list_all hex_or_dash x \<Longrightarrow> ''/pvcs/pvc-'' @ x = ''/'' @ join ''/'' [''pvcs'', ''pvc-'' @ x]
     \<and> list_all plain [''pvcs'', ''pvc-'' @ x]"
  using hex_or_dash_no_slash [of x] by (simp add: plain_def)

lemma snapPath_elements:
  "list_all alnum_or_dash x \<Longrightarrow>
     ''/pvcs/.snapshots/snap-'' @ x = ''/'' @ join ''/'' [''pvcs'', ''.snapshots'', ''snap-'' @ x]
     \<and> list_all plain [''pvcs'', ''.snapshots'', ''snap-'' @ x]"
  using alnum_or_dash_no_slash [of x] by (simp add: plain_def)

lemma Clean_plain_path: "list_all plain es \<Longrightarrow> Clean (''/'' @ join ''/'' es) = ''/'' @ join ''/'' es"
  using Clean_rooted [of "''/'' @ join ''/'' es"] clean_elems_of_plain
  by (simp add: rooted_def has_prefix_def)

lemma ValidateSubDir_None: "ValidateSubDir s = None \<longleftrightarrow> validSubDirPattern s"
proof
  assume "validSubDirPattern s"
  then obtain x where x: "s = ''/pvcs/pvc-'' @ x" "list_all hex_or_dash x"
    unfolding validSubDirPattern_iff by blast
  then have "Clean s = s" using subDir_elements Clean_plain_path by metis
  moreover have "\<not> contains s ''..''"
    using x hex_or_dash_no_slash [of x] by (intro no_dot_contains) auto
  ultimately show "ValidateSubDir s = None"
    using \<open>validSubDirPattern s\<close> by (simp add: ValidateSubDir_def)
qed (simp add: ValidateSubDir_def split: if_splits)

text \<open>Joining below a rooted base.\<close>

lemma Join_rooted:
  assumes "rooted base" and "list_all plain es" and "es \<noteq> []"
  shows "Join base (''/'' @ join ''/'' es) = ''/'' @ join ''/'' (clean_elems base @ es)"
    and "has_prefix (Clean (Join base (''/'' @ join ''/'' es))) (Clean base)"
proof -
  have ne: "base \<noteq> ''''" using assms(1) by (auto simp: rooted_def has_prefix_def)
  let ?q = "base @ ''/'' @ ''/'' @ join ''/'' es"
  have q: "Join base (''/'' @ join ''/'' es) = Clean ?q" using ne by (simp add: Join_def)
  have r: "rooted ?q" using assms(1) ne rooted_append by blast
  show 1: "Join base (''/'' @ join ''/'' es) = ''/'' @ join ''/'' (clean_elems base @ es)"
    unfolding q Clean_rooted [OF r] clean_elems_join [OF ne assms(2)] ..
  have "Clean (Join base (''/'' @ join ''/'' es)) = ''/'' @ join ''/'' (clean_elems base @ es)"
    using 1 q Clean_Clean [OF r] by simp
  then show "has_prefix (Clean (Join base (''/'' @ join ''/'' es))) (Clean base)"
    using assms(3) join_append [of "clean_elems base" es] Clean_rooted [OF assms(1)]
    by (cases "clean_elems base = []") (auto simp: has_prefix_iff)
qed

lemma SafeJoin_rooted:
  assumes "rooted base"
  shows "SafeJoin base sub = Inr p \<longleftrightarrow>
    (\<exists>x. sub = ''/pvcs/pvc-'' @ x \<and> length x = 36 \<and> list_all hex_or_dash x
       \<and> p = ''/'' @ join ''/'' (clean_elems base @ [''pvcs'', ''pvc-'' @ x]))"
proof -
  have ok: "SafeJoin base (''/pvcs/pvc-'' @ x) = Inr (''/'' @ join ''/'' (clean_elems base @ [''pvcs'', ''pvc-'' @ x]))"
    if x: "length x = 36" "list_all hex_or_dash x" for x
  proof -
    have "ValidateSubDir (''/pvcs/pvc-'' @ x) = None"
      using x ValidateSubDir_None validSubDirPattern_iff by blast
    then show ?thesis
      using subDir_elements [OF x(2)] Join_rooted [OF assms, of "[''pvcs'', ''pvc-'' @ x]"]
      unfolding SafeJoin_def Let_def by simp
  qed
  show ?thesis
  proof
    assume p: "SafeJoin base sub = Inr p"
    then have "ValidateSubDir sub = None" by (simp add: SafeJoin_def split: option.splits)
    then obtain x where x: "sub = ''/pvcs/pvc-'' @ x" "length x = 36" "list_all hex_or_dash x"
      unfolding ValidateSubDir_None validSubDirPattern_iff by blast
    then show "\<exists>x. sub = ''/pvcs/pvc-'' @ x \<and> length x = 36 \<and> list_all hex_or_dash x
       \<and> p = ''/'' @ join ''/'' (clean_elems base @ [''pvcs'', ''pvc-'' @ x])"
      using ok [OF x(2,3)] p by (intro exI [of _ x]) (simp only: sum.inject simp_thms)
  qed (use ok in blast)
qed

lemma confined_elements:
  assumes "rooted base" and "list_all plain es"
  shows "elements (''/'' @ join ''/'' (clean_elems base @ es)) =
      [] # (if clean_elems base @ es = [] then [[]] else clean_elems base @ es)"
  using elements_append [of "[]" "join ''/'' (clean_elems base @ es)"]
    elements_join [of "clean_elems base @ es"] clean_elems_plain [OF assms(1)] assms(2)
  by (auto simp: plain_def list_all_iff)

section \<open>Volume IDs\<close>

lemma split1_join: "CHR ''/'' \<notin> set a \<Longrightarrow> split1 (a @ ''/'' @ b) = Some (a, b)"
proof -
  assume "CHR ''/'' \<notin> set a"
  then have "\<forall>c \<in> set a. c \<noteq> CHR ''/''" by auto
  then show ?thesis
    by (simp add: split1_def dropWhile_append takeWhile_append split: list.splits)
qed

lemma split1_Some: "split1 s = Some (a, b) \<Longrightarrow> s = a @ ''/'' @ b \<and> CHR ''/'' \<notin> set a"
proof -
  assume s: "split1 s = Some (a, b)"
  obtain c where d: "dropWhile (\<lambda>c. c \<noteq> CHR ''/'') s = c # b" and a: "a = takeWhile (\<lambda>c. c \<noteq> CHR ''/'') s"
    using s by (auto simp: split1_def split: list.splits)
  have "c = CHR ''/''" using d by (metis (mono_tags) hd_dropWhile list.distinct(1) list.sel(1))
  then show ?thesis
    using d a takeWhile_dropWhile_id [of "\<lambda>c. c \<noteq> CHR ''/''" s] by (auto dest: set_takeWhileD)
qed

section \<open>Properties\<close>

text \<open>The elements of a path that \<^verbatim>\<open>open\<close> walks: those between slashes that are not empty.\<close>

definition walked :: "string \<Rightarrow> string list" where
  "walked p = filter (\<lambda>e. e \<noteq> '''') (elements p)"

lemma walked_confined:
  assumes "rooted base" and "list_all plain es" and "es \<noteq> []"
  shows "walked (''/'' @ join ''/'' (clean_elems base @ es)) = clean_elems base @ es"
proof -
  have "e \<noteq> ''''" if "e \<in> set (clean_elems base @ es)" for e
    using that clean_elems_plain [OF assms(1)] assms(2) by (auto simp: plain_def list_all_iff)
  then have "filter (\<lambda>e. e \<noteq> '''') (clean_elems base @ es) = clean_elems base @ es"
    by (intro filter_True) blast
  then show ?thesis
    unfolding walked_def confined_elements [OF assms(1,2)] using assms(3) by simp
qed

lemma ValidateSnapshotPath_None: "ValidateSnapshotPath s = None \<Longrightarrow> validSnapshotPathPattern s"
  by (simp add: ValidateSnapshotPath_def split: if_splits)

text \<open>
  C9: a path from \<open>SafeJoin\<close> or \<open>SafeJoinSnapshot\<close> stays under its base. Walking it is walking
  the cleaned base and then \<open>pvcs\<close> and one folder, or \<open>pvcs\<close>, \<open>.snapshots\<close> and one folder; no
  element of it climbs.
\<close>

theorem SafeJoin_confined:
  assumes "rooted base"
  shows "(SafeJoin base sub = Inr p \<longrightarrow>
            (\<exists>x. walked p = clean_elems base @ [''pvcs'', ''pvc-'' @ x] \<and> ''..'' \<notin> set (walked p)))
       \<and> (SafeJoinSnapshot base sub = Inr p \<longrightarrow>
            (\<exists>x. walked p = clean_elems base @ [''pvcs'', ''.snapshots'', ''snap-'' @ x] \<and> ''..'' \<notin> set (walked p)))"
proof -
  have no_dots: "''..'' \<notin> set (clean_elems base @ es)" if "list_all plain es" for es
    using that clean_elems_plain [OF assms] by (auto simp: plain_def list_all_iff)
  have "\<exists>x. walked p = clean_elems base @ [''pvcs'', ''pvc-'' @ x] \<and> ''..'' \<notin> set (walked p)"
    if j: "SafeJoin base sub = Inr p"
  proof -
    obtain x where x: "list_all hex_or_dash x" "p = ''/'' @ join ''/'' (clean_elems base @ [''pvcs'', ''pvc-'' @ x])"
      using j SafeJoin_rooted [OF assms] by blast
    note pl = subDir_elements [OF x(1), THEN conjunct2]
    show ?thesis using walked_confined [OF assms pl] no_dots [OF pl] x(2) by (metis list.distinct(1))
  qed
  moreover have "\<exists>x. walked p = clean_elems base @ [''pvcs'', ''.snapshots'', ''snap-'' @ x] \<and> ''..'' \<notin> set (walked p)"
    if j: "SafeJoinSnapshot base sub = Inr p"
  proof -
    have v: "ValidateSnapshotPath sub = None" and p: "p = Join base sub"
      using j by (auto simp: SafeJoinSnapshot_def Let_def split: option.splits if_splits)
    obtain x where x: "sub = ''/pvcs/.snapshots/snap-'' @ x" "list_all alnum_or_dash x"
      using ValidateSnapshotPath_None [OF v] by (auto simp: validSnapshotPathPattern_def has_prefix_iff)
    note pl = snapPath_elements [OF x(2)]
    have "p = ''/'' @ join ''/'' (clean_elems base @ [''pvcs'', ''.snapshots'', ''snap-'' @ x])"
      using Join_rooted(1) [OF assms, of "[''pvcs'', ''.snapshots'', ''snap-'' @ x]"] pl p x(1) by simp
    then show ?thesis
      using walked_confined [OF assms pl [THEN conjunct2]] no_dots [OF pl [THEN conjunct2]] by (metis list.distinct(1))
  qed
  ultimately show ?thesis by blast
qed

definition exampleSub :: string where
  "exampleSub = ''/pvcs/pvc-'' @ replicate 36 (CHR ''a'')"

theorem SafeJoin_confined_witness:
  "rooted ''/var/lib/../mnt'' \<and> SafeJoin ''/var/lib/../mnt'' exampleSub = Inr (''/var/mnt'' @ exampleSub)
     \<and> (\<exists>x. walked (''/var/mnt'' @ exampleSub) = [''var'', ''mnt'', ''pvcs'', ''pvc-'' @ x])"
proof -
  have r: "rooted ''/var/lib/../mnt''" "clean_elems ''/var/lib/../mnt'' = [''var'', ''mnt'']"
    "SafeJoin ''/var/lib/../mnt'' exampleSub = Inr (''/var/mnt'' @ exampleSub)" by code_simp+
  then show ?thesis using SafeJoin_confined [OF r(1), of exampleSub "''/var/mnt'' @ exampleSub"] by auto
qed

text \<open>
  C10: a volume ID is read back as it was written. \<open>ParseVolumeID\<close> returns three parts exactly
  for the strings that are the parts joined by slashes, where neither the pool's name nor the share's
  ID holds a slash.
\<close>

theorem ParseVolumeID_roundtrip:
  "ParseVolumeID vid = Inr (pool, share, name) \<longleftrightarrow>
     vid = pool @ ''/'' @ share @ ''/'' @ name \<and> CHR ''/'' \<notin> set pool \<and> CHR ''/'' \<notin> set share"
proof
  assume "ParseVolumeID vid = Inr (pool, share, name)"
  then obtain rest where "split1 vid = Some (pool, rest)" "split1 rest = Some (share, name)"
    by (auto simp: ParseVolumeID_def split: option.splits)
  then show "vid = pool @ ''/'' @ share @ ''/'' @ name \<and> CHR ''/'' \<notin> set pool \<and> CHR ''/'' \<notin> set share"
    using split1_Some by blast
next
  assume "vid = pool @ ''/'' @ share @ ''/'' @ name \<and> CHR ''/'' \<notin> set pool \<and> CHR ''/'' \<notin> set share"
  then show "ParseVolumeID vid = Inr (pool, share, name)"
    using split1_join [of pool "share @ ''/'' @ name"] split1_join [of share name] by (simp add: ParseVolumeID_def)
qed

end
