(* ===== verification/Manager_Volumes.thy ===== *)
theory Manager_Volumes
  imports Share_Network Util_Paths
begin

text \<open>
  The volume operations of \<^verbatim>\<open>pkg/pool/manager.go\<close>: Allocate, Deallocate, Expand, CloneVolume and
  the reservation of a restored volume, with the share accounting they keep. An operation takes
  the manager, the request, the time and the world, and returns its result with the manager (whose
  network cache may have grown) and the world. A pool or SubVolume that the code mutates through a
  pointer is passed on as a value. The mutexes are the subject of another theory: each operation
  here is one critical section.
\<close>

section \<open>Interfaces and data\<close>

record ShareMount =
  sm_MountTargetIP :: string
  sm_ExportPath :: string

record Ownership =
  ow_UID :: "int option"
  ow_GID :: "int option"
  ow_Permissions :: string
  ow_Recursive :: bool

text \<open>The operations of \<^verbatim>\<open>ShareData\<close> and \<^verbatim>\<open>NFSOperations\<close> that the manager calls.\<close>

record 'w ShareData =
  sd_RemoveDir :: "string \<Rightarrow> ShareMount \<Rightarrow> string \<Rightarrow> 'w \<Rightarrow> (error + bool) \<times> 'w"
  sd_CopyDir :: "string \<Rightarrow> ShareMount \<Rightarrow> string \<Rightarrow> ShareMount \<Rightarrow> string \<Rightarrow> Ownership option \<Rightarrow> 'w \<Rightarrow> (error + bool) \<times> 'w"
  sd_Stop :: "string \<Rightarrow> 'w \<Rightarrow> (error + bool) \<times> 'w"

record 'w NFSOperations =
  nfs_MkdirAll :: "string \<Rightarrow> nat \<Rightarrow> 'w \<Rightarrow> string option \<times> 'w"
  nfs_Chown :: "string \<Rightarrow> int \<Rightarrow> int \<Rightarrow> 'w \<Rightarrow> string option \<times> 'w"
  nfs_Chmod :: "string \<Rightarrow> nat \<Rightarrow> 'w \<Rightarrow> string option \<times> 'w"

record 'w Manager =
  mg_k8sClient :: "'w Client"
  mg_vpcClient :: "'w VPCFileClient"
  mg_nfsOps :: "'w NFSOperations option"
  mg_shareData :: "'w ShareData option"
  mg_stagingBasePath :: string
  mg_defaultResourceGroup :: string
  mg_network :: "ShareNetwork option"

record AllocationRequest =
  rq_PVName :: string
  rq_PVCName :: string
  rq_PVCNamespace :: string
  rq_PoolName :: string
  rq_RequestedGB :: int
  rq_Zone :: string
  rq_Tier :: string
  rq_UID :: "int option"
  rq_GID :: "int option"
  rq_Permissions :: string
  rq_RestorePending :: bool

record AllocationResult =
  ar_ShareID :: string
  ar_MountTargetIP :: string
  ar_SubPath :: string
  ar_SharePath :: string
  ar_UID :: "int option"
  ar_GID :: "int option"
  ar_Permissions :: string
  ar_MountTargets :: smap
  ar_AccessibleZones :: "string list"

definition SetShareData :: "'w ShareData option \<Rightarrow> ('w, 'z) Manager_scheme \<Rightarrow> ('w, 'z) Manager_scheme" where
  "SetShareData sd m = m\<lparr>mg_shareData := sd\<rparr>"

definition SetDefaultResourceGroup :: "string \<Rightarrow> ('w, 'z) Manager_scheme \<Rightarrow> ('w, 'z) Manager_scheme" where
  "SetDefaultResourceGroup rg m = m\<lparr>mg_defaultResourceGroup := rg\<rparr>"

definition SetShareNetwork :: "ShareNetwork option \<Rightarrow> ('w, 'z) Manager_scheme \<Rightarrow> ('w, 'z) Manager_scheme" where
  "SetShareNetwork network m = m\<lparr>mg_network := network\<rparr>"

definition SetVPCClient :: "'w VPCFileClient \<Rightarrow> ('w, 'z) Manager_scheme \<Rightarrow> ('w, 'z) Manager_scheme" where
  "SetVPCClient c m = m\<lparr>mg_vpcClient := c\<rparr>"

definition NewManager :: "'w Client \<Rightarrow> 'w VPCFileClient \<Rightarrow> 'w NFSOperations option \<Rightarrow> string \<Rightarrow> 'w Manager" where
  "NewManager k8sClient vpcClient nfsOps stagingBasePath = \<lparr>
     mg_k8sClient = k8sClient, mg_vpcClient = vpcClient, mg_nfsOps = nfsOps, mg_shareData = None,
     mg_stagingBasePath = stagingBasePath, mg_defaultResourceGroup = '''', mg_network = None\<rparr>"

section \<open>Volume folders\<close>

text \<open>\<^verbatim>\<open>strconv.ParseUint(s, 8, 32)\<close>.\<close>

definition parse_octal :: "string \<Rightarrow> nat option" where
  "parse_octal s =
     (if s = '''' \<or> \<not> list_all (\<lambda>c. is_digit c \<and> digit_val c < 8) s then None
      else let v = foldl (\<lambda>a c. a * 8 + digit_val c) 0 s in if v < 2 ^ 32 then Some v else None)"

definition createSubDirectory ::
  "'w NFSOperations \<Rightarrow> string \<Rightarrow> string \<Rightarrow> int option \<Rightarrow> int option \<Rightarrow> string \<Rightarrow> 'w \<Rightarrow> error option \<times> 'w" where
  "createSubDirectory nfsOps basePath subPath uid gid permissions w =
     (case SafeJoin basePath subPath of
        Inl e \<Rightarrow> (Some (EMsg e), w)
      | Inr fullPath \<Rightarrow>
          (case (if permissions = '''' then Some 493 else parse_octal permissions) of
             None \<Rightarrow> (Some (EMsg ''invalid permissions''), w)
           | Some perm \<Rightarrow>
               (case nfs_MkdirAll nfsOps fullPath perm w of
                  (Some e, w1) \<Rightarrow> (Some (EMsg e), w1)
                | (None, w1) \<Rightarrow>
                    let w2 = (if uid \<noteq> None \<or> gid \<noteq> None
                              then snd (nfs_Chown nfsOps fullPath
                                     (case uid of Some u \<Rightarrow> u | None \<Rightarrow> -1)
                                     (case gid of Some g \<Rightarrow> g | None \<Rightarrow> -1) w1)
                              else w1)
                    in if permissions \<noteq> '''' then
                         (case nfs_Chmod nfsOps fullPath perm w2 of
                            (Some e, w3) \<Rightarrow> (Some (EMsg e), w3)
                          | (None, w3) \<Rightarrow> (None, w3))
                       else (None, w2))))"

section \<open>Share accounting\<close>

definition instantChargeGB :: "int \<Rightarrow> int" where
  "instantChargeGB sizeGB = (let c = quot (sizeGB + 9) 10 in if c > 1 then c else 1)"

definition snapshotMethodAnnotation :: string where
  "snapshotMethodAnnotation = ''storage.ibmcloud.io/snapshot-method''"

definition snapshotMethodInstant :: string where
  "snapshotMethodInstant = ''instant''"

definition snapshotChargeGB :: "Snapshot \<Rightarrow> int" where
  "snapshotChargeGB snap =
     (if mget (om_Annotations (sn_Meta snap)) snapshotMethodAnnotation = snapshotMethodInstant
      then instantChargeGB (ns_SizeGB (sn_Spec snap))
      else ns_SizeGB (sn_Spec snap))"

definition updateShareAllocation :: "string \<Rightarrow> int \<Rightarrow> FileSharePool \<Rightarrow> FileSharePool" where
  "updateShareAllocation shareID sizeGB pool =
     (let st = fp_Status pool in
      pool\<lparr>fp_Status := st\<lparr>
        pt_Shares := upd_first sh_ShareID shareID
          (\<lambda>s. s\<lparr>sh_AllocatedGB := sh_AllocatedGB s + sizeGB, sh_PVCCount := sh_PVCCount s + 1\<rparr>) (pt_Shares st),
        pt_TotalAllocatedGB := pt_TotalAllocatedGB st + sizeGB,
        pt_TotalPVCCount := pt_TotalPVCCount st + 1\<rparr>\<rparr>)"

definition chargeShare :: "string \<Rightarrow> int \<Rightarrow> FileSharePool \<Rightarrow> FileSharePool" where
  "chargeShare shareID sizeGB pool =
     (let st = fp_Status pool in
      pool\<lparr>fp_Status := st\<lparr>
        pt_Shares := upd_first sh_ShareID shareID
          (\<lambda>s. s\<lparr>sh_AllocatedGB := sh_AllocatedGB s + sizeGB\<rparr>) (pt_Shares st),
        pt_TotalAllocatedGB := pt_TotalAllocatedGB st + sizeGB\<rparr>\<rparr>)"

definition updateShareDeallocation :: "string \<Rightarrow> int \<Rightarrow> FileSharePool \<Rightarrow> FileSharePool" where
  "updateShareDeallocation shareID sizeGB pool =
     (let st = fp_Status pool in
      pool\<lparr>fp_Status := st\<lparr>
        pt_Shares := upd_first sh_ShareID shareID
          (\<lambda>s. s\<lparr>sh_AllocatedGB := sh_AllocatedGB s - sizeGB, sh_PVCCount := sh_PVCCount s - 1\<rparr>) (pt_Shares st),
        pt_TotalAllocatedGB := pt_TotalAllocatedGB st - sizeGB,
        pt_TotalPVCCount := pt_TotalPVCCount st - 1\<rparr>\<rparr>)"

definition checkShareRoom :: "FileSharePool \<Rightarrow> string \<Rightarrow> int \<Rightarrow> error option" where
  "checkShareRoom pool shareID sizeGB =
     (case find (\<lambda>s. sh_ShareID s = shareID) (pool_shares pool) of
        Some s \<Rightarrow> if sizeGB > freeGB s then Some ErrInsufficientShareCapacity else None
      | None \<Rightarrow> Some (EMsg ''share is not in pool''))"

definition bookShare ::
  "('w, 'z) Manager_scheme \<Rightarrow> string \<Rightarrow> string \<Rightarrow> int \<Rightarrow> 'w \<Rightarrow> error option \<times> 'w" where
  "bookShare m poolName shareID sizeGB w =
     (case GetFileSharePool (mg_k8sClient m) poolName w of
        Inl _ \<Rightarrow> (Some ErrPoolNotFound, w)
      | Inr pool \<Rightarrow>
          (case checkShareRoom pool shareID sizeGB of
             Some e \<Rightarrow> (Some e, w)
           | None \<Rightarrow>
               (case UpdateFileSharePoolStatus (mg_k8sClient m) (chargeShare shareID sizeGB pool) w of
                  (Some e, w1) \<Rightarrow> (Some (ErrK8s e), w1)
                | (None, w1) \<Rightarrow> (None, w1))))"

definition unbookShare :: "('w, 'z) Manager_scheme \<Rightarrow> string \<Rightarrow> string \<Rightarrow> int \<Rightarrow> 'w \<Rightarrow> 'w" where
  "unbookShare m poolName shareID sizeGB w =
     (case GetFileSharePool (mg_k8sClient m) poolName w of
        Inl _ \<Rightarrow> w
      | Inr pool \<Rightarrow> snd (UpdateFileSharePoolStatus (mg_k8sClient m) (chargeShare shareID (- sizeGB) pool) w))"

definition resolvePermissions ::
  "AllocationRequest \<Rightarrow> FileSharePool \<Rightarrow> int option \<times> int option \<times> string" where
  "resolvePermissions req pool =
     (case rq_UID req of None \<Rightarrow> ps_DefaultUID (fp_Spec pool) | Some u \<Rightarrow> Some u,
      case rq_GID req of None \<Rightarrow> ps_DefaultGID (fp_Spec pool) | Some g \<Rightarrow> Some g,
      if rq_Permissions req = '''' then ps_DefaultPermissions (fp_Spec pool) else rq_Permissions req)"

section \<open>Growing the pool\<close>

text \<open>The pool is returned as the code leaves it, also with an error.\<close>

definition tryAutoExpand ::
  "('w, 'z) Manager_scheme \<Rightarrow> FileSharePool \<Rightarrow> int \<Rightarrow> string \<Rightarrow> time \<Rightarrow> 'w \<Rightarrow>
     (error + PoolShareStatus) \<times> FileSharePool \<times> ('w, 'z) Manager_scheme \<times> 'w" where
  "tryAutoExpand m pool requestedGB tier now w =
     (if \<not> ps_AutoExpand (fp_Spec pool) then (Inl ErrPoolExhausted, pool, m, w)
      else case TierConfig (fp_Spec pool) tier of
        Inl e \<Rightarrow> (Inl (ErrTier e), pool, m, w)
      | Inr (_, sizeGB, _, maxShares, _) \<Rightarrow>
          if list_ex (\<lambda>s. sh_Tier s = tier \<and> sh_State s = ''creating'') (pool_shares pool)
          then (Inl ErrPoolExpanding, pool, m, w)
          else if sharesWithoutMountTarget (pool_shares pool) tier \<noteq> []
          then (Inl ErrNoUsableShare, pool, m, w)
          else if int (length (filter (\<lambda>s. sh_Tier s = tier) (pool_shares pool))) \<ge> maxShares
          then (Inl ErrPoolExhausted, pool, m, w)
          else if requestedGB > sizeGB
          then (Inl (EMsg ''request exceeds share size''), pool, m, w)
          else case newShareInput (mg_vpcClient m) (mg_network m) pool tier (mg_defaultResourceGroup m) w of
            (Inl e, n, w1) \<Rightarrow> (Inl e, pool, m\<lparr>mg_network := n\<rparr>, w1)
          | (Inr input, n, w1) \<Rightarrow>
              (case recordedShareIDs (mg_k8sClient m) w1 of
                 Inl e \<Rightarrow> (Inl e, pool, m\<lparr>mg_network := n\<rparr>, w1)
               | Inr claimed \<Rightarrow>
                   (case CreateFileShare (mg_vpcClient m) (input\<lparr>ci_ClaimedShareIDs := claimed\<rparr>) w1 of
                      (Inl e, w2) \<Rightarrow> (Inl (ErrVPC e), pool, m\<lparr>mg_network := n\<rparr>, w2)
                    | (Inr shareInfo, w2) \<Rightarrow>
                        let newShare = newPoolShareStatus shareInfo tier now;
                            shares = pool_shares pool @ [newShare];
                            pool' = pool\<lparr>fp_Status := (fp_Status pool)\<lparr>
                              pt_Shares := shares,
                              pt_ShareCount := int (length shares),
                              pt_TotalCapacityGB := pt_TotalCapacityGB (fp_Status pool) + si_SizeGB shareInfo\<rparr>\<rparr>
                        in if \<not> shareReady newShare
                           then (Inl ErrPoolExpanding, pool', m\<lparr>mg_network := n\<rparr>, w2)
                           else (Inr newShare, pool', m\<lparr>mg_network := n\<rparr>, w2))))"

section \<open>New volumes\<close>

text \<open>
  The last steps of Allocate, reserveRestore and CloneVolume are the same code: create the
  SubVolume, write its status (an error is only logged), charge the share and write the pool's
  status (an error is only logged).
\<close>

definition recordVolume ::
  "'w Client \<Rightarrow> FileSharePool \<Rightarrow> SubVolume \<Rightarrow> string \<Rightarrow> int \<Rightarrow> 'w \<Rightarrow> error option \<times> 'w" where
  "recordVolume k pool sv shareID sizeGB w =
     (case CreateSubVolume k sv w of
        (Some e, w1) \<Rightarrow> (Some (ErrK8s e), w1)
      | (None, w1) \<Rightarrow>
          let w2 = snd (UpdateSubVolumeStatus k sv w1);
              w3 = snd (UpdateFileSharePoolStatus k (updateShareAllocation shareID sizeGB pool) w2)
          in (None, w3))"

definition newMeta :: "string \<Rightarrow> smap \<Rightarrow> ObjectMeta" where
  "newMeta name labels = \<lparr>om_Name = name, om_Labels = labels, om_Annotations = [], om_Finalizers = [],
     om_DeletionTimestamp = None, om_Generation = 0, om_UID = ''''\<rparr>"

definition newVolumeSpec ::
  "AllocationRequest \<Rightarrow> FileSharePool \<Rightarrow> PoolShareStatus \<Rightarrow> string \<Rightarrow> SubVolumeSpec" where
  "newVolumeSpec req pool share subPath =
     (case resolvePermissions req pool of (uid, gid, perms) \<Rightarrow> \<lparr>
        vs_PoolName = rq_PoolName req, vs_ShareID = sh_ShareID share,
        vs_ShareMountTargetIP = sh_MountTargetIP share, vs_ShareExportPath = sh_ExportPath share,
        vs_SubPath = subPath, vs_RequestedGB = rq_RequestedGB req, vs_PVName = rq_PVName req,
        vs_PVCName = rq_PVCName req, vs_PVCNamespace = rq_PVCNamespace req, vs_UID = uid, vs_GID = gid,
        vs_Permissions = perms, vs_ReclaimPolicy = ''Delete'', vs_SourceVolume = '''', vs_SourceShareID = ''''\<rparr>)"

definition newVolumeStatus :: "string \<Rightarrow> time \<Rightarrow> SubVolumeStatus" where
  "newVolumeStatus phase now = no_sv_status\<lparr>vt_Phase := phase, vt_CreatedAt := Some now\<rparr>"

definition subVolumeAllocationResult :: "SubVolume \<Rightarrow> AllocationResult" where
  "subVolumeAllocationResult sv = \<lparr>
     ar_ShareID = vs_ShareID (sv_Spec sv), ar_MountTargetIP = vs_ShareMountTargetIP (sv_Spec sv),
     ar_SubPath = vs_SubPath (sv_Spec sv),
     ar_SharePath = (if vs_ShareExportPath (sv_Spec sv) = '''' then ''/'' else vs_ShareExportPath (sv_Spec sv)),
     ar_UID = vs_UID (sv_Spec sv), ar_GID = vs_GID (sv_Spec sv),
     ar_Permissions = vs_Permissions (sv_Spec sv), ar_MountTargets = [], ar_AccessibleZones = []\<rparr>"

text \<open>Lines 275 to 373 of Allocate, for the share that was picked.\<close>

definition placeVolume ::
  "('w, 'z) Manager_scheme \<Rightarrow> AllocationRequest \<Rightarrow> FileSharePool \<Rightarrow> PoolShareStatus \<Rightarrow> time \<Rightarrow> 'w \<Rightarrow>
     (error + AllocationResult) \<times> 'w" where
  "placeVolume m req pool share now w =
     (let subPath = ''/pvcs/'' @ rq_PVName req in
      case resolvePermissions req pool of (uid, gid, perms) \<Rightarrow>
        (case (case mg_nfsOps m of
                 None \<Rightarrow> (None, w)
               | Some nfsOps \<Rightarrow> createSubDirectory nfsOps (mg_stagingBasePath m) subPath uid gid perms w) of
           (Some e, w1) \<Rightarrow> (Inl e, w1)
         | (None, w1) \<Rightarrow>
             let labels = [(poolLabelKey, rq_PoolName req), (shareLabelKey, sh_ShareID share)];
                 sv = \<lparr>sv_Meta = newMeta (rq_PVName req)
                         (if rq_RestorePending req then mput RestorePendingLabel ''true'' labels else labels),
                       sv_Spec = newVolumeSpec req pool share subPath,
                       sv_Status = newVolumeStatus ''Bound'' now\<rparr>
             in (case recordVolume (mg_k8sClient m) pool sv (sh_ShareID share) (rq_RequestedGB req) w1 of
                   (Some e, w2) \<Rightarrow> (Inl e, w2)
                 | (None, w2) \<Rightarrow>
                     (Inr \<lparr>ar_ShareID = sh_ShareID share, ar_MountTargetIP = sh_MountTargetIP share,
                        ar_SubPath = subPath,
                        ar_SharePath = (if sh_ExportPath share = '''' then ''/'' else sh_ExportPath share),
                        ar_UID = uid, ar_GID = gid, ar_Permissions = perms,
                        ar_MountTargets =
                          (if ps_AccessorZones (fp_Spec pool) \<noteq> [] \<and> sh_MountTargets share \<noteq> []
                           then foldl (\<lambda>mp mt. mput (mt_Zone mt) (mt_MountTargetIP mt) mp) [] (sh_MountTargets share)
                           else []),
                        ar_AccessibleZones =
                          (if ps_AccessorZones (fp_Spec pool) \<noteq> [] \<and> sh_MountTargets share \<noteq> []
                           then AllAccessibleZones (fp_Spec pool) else [])\<rparr>, w2))))"

definition Allocate ::
  "('w, 'z) Manager_scheme \<Rightarrow> AllocationRequest \<Rightarrow> time \<Rightarrow> 'w \<Rightarrow>
     (error + AllocationResult) \<times> ('w, 'z) Manager_scheme \<times> 'w" where
  "Allocate m req now w =
     (case GetFileSharePool (mg_k8sClient m) (rq_PoolName req) w of
        Inl _ \<Rightarrow> (Inl ErrPoolNotFound, m, w)
      | Inr pool \<Rightarrow>
          if rq_Zone req \<noteq> '''' \<and> \<not> IsAccessibleZone (fp_Spec pool) (rq_Zone req)
          then (Inl (EMsg ''zone mismatch''), m, w)
          else case GetSubVolume (mg_k8sClient m) (rq_PVName req) w of
            Inr existing \<Rightarrow> (Inr (subVolumeAllocationResult existing), m, w)
          | Inl _ \<Rightarrow>
              if ps_Tiers (fp_Spec pool) \<noteq> [] \<and> rq_Tier req = ''''
              then (Inl (EMsg ''tier is required when pool has tiers configured''), m, w)
              else case selectShare (ps_AllocationStrategy (fp_Spec pool)) (pool_shares pool)
                          (rq_RequestedGB req) (rq_Tier req) of
                Inr i \<Rightarrow>
                  (case placeVolume m req pool (pool_shares pool ! i) now w of (r, w1) \<Rightarrow> (r, m, w1))
              | Inl e \<Rightarrow>
                  if e \<noteq> ErrPoolExhausted then (Inl e, m, w)
                  else case tryAutoExpand m pool (rq_RequestedGB req) (rq_Tier req) now w of
                    (Inl e, pool1, m1, w1) \<Rightarrow>
                      (Inl e, m1, snd (UpdateFileSharePoolStatus (mg_k8sClient m) pool1 w1))
                  | (Inr share, pool1, m1, w1) \<Rightarrow>
                      (case placeVolume m1 req pool1 share now w1 of (r, w2) \<Rightarrow> (r, m1, w2)))"

section \<open>Restored volumes and clones\<close>

text \<open>The selected share of a restore or a clone, or a new share when the pool is exhausted.\<close>

definition pickShare ::
  "('w, 'z) Manager_scheme \<Rightarrow> FileSharePool \<Rightarrow> error + nat \<Rightarrow> int \<Rightarrow> string \<Rightarrow> time \<Rightarrow> 'w \<Rightarrow>
     (error + PoolShareStatus) \<times> FileSharePool \<times> ('w, 'z) Manager_scheme \<times> 'w" where
  "pickShare m pool selected requestedGB tier now w =
     (case selected of
        Inr i \<Rightarrow> (Inr (pool_shares pool ! i), pool, m, w)
      | Inl e \<Rightarrow>
          if e = ErrPoolExhausted then tryAutoExpand m pool requestedGB tier now w
          else (Inl e, pool, m, w))"

definition reserveRestore ::
  "('w, 'z) Manager_scheme \<Rightarrow> string \<Rightarrow> AllocationRequest \<Rightarrow> time \<Rightarrow> 'w \<Rightarrow>
     (error + SubVolume) \<times> ('w, 'z) Manager_scheme \<times> 'w" where
  "reserveRestore m snapshotName req now w =
     (case GetFileSharePool (mg_k8sClient m) (rq_PoolName req) w of
        Inl _ \<Rightarrow> (Inl ErrPoolNotFound, m, w)
      | Inr pool \<Rightarrow>
          (case pickShare m pool
                  (selectShare (ps_AllocationStrategy (fp_Spec pool)) (pool_shares pool)
                     (rq_RequestedGB req) (rq_Tier req))
                  (rq_RequestedGB req) (rq_Tier req) now w of
             (Inl e, pool1, m1, w1) \<Rightarrow> (Inl e, m1, w1)
           | (Inr share, pool1, m1, w1) \<Rightarrow>
               if mg_shareData m1 = None then (Inl errShareDataNotSet, m1, w1)
               else let subPath = ''/pvcs/'' @ rq_PVName req;
                        sv = \<lparr>sv_Meta = newMeta (rq_PVName req)
                                [(poolLabelKey, rq_PoolName req), (shareLabelKey, sh_ShareID share),
                                 (restoreSnapshotLabel, snapshotName)],
                              sv_Spec = newVolumeSpec req pool1 share subPath,
                              sv_Status = newVolumeStatus ''Creating'' now\<rparr>
                    in (case recordVolume (mg_k8sClient m) pool1 sv (sh_ShareID share) (rq_RequestedGB req) w1 of
                          (Some e, w2) \<Rightarrow> (Inl e, m1, w2)
                        | (None, w2) \<Rightarrow> (Inr sv, m1, w2))))"

definition parseManagerVolumeID :: "string \<Rightarrow> string + (string \<times> string \<times> string)" where
  "parseManagerVolumeID volumeID = ParseVolumeID volumeID"

text \<open>
  A clone whose earlier attempt failed prints \<^verbatim>\<open>CloneProgress.Error\<close>; with \<^verbatim>\<open>CloneProgress\<close> nil
  the code panics, which is the outcome \<open>None\<close> of the error text.
\<close>

definition CloneVolume ::
  "('w, 'z) Manager_scheme \<Rightarrow> string \<Rightarrow> AllocationRequest \<Rightarrow> time \<Rightarrow> 'w \<Rightarrow>
     ((error + AllocationResult) \<times> ('w, 'z) Manager_scheme \<times> 'w) option" where
  "CloneVolume m sourceVolumeID req now w =
     (case GetSubVolume (mg_k8sClient m) (rq_PVName req) w of
        Inr existing \<Rightarrow>
          if vt_CloneStatus (sv_Status existing) = ''Failed''
          then map_option (\<lambda>p. (Inl (EMsg (''clone previously failed: '' @ cp_Error p)), m, w))
                 (vt_CloneProgress (sv_Status existing))
          else Some (Inr (subVolumeAllocationResult existing), m, w)
      | Inl _ \<Rightarrow>
          Some (case parseManagerVolumeID sourceVolumeID of
            Inl e \<Rightarrow> (Inl (EMsg e), m, w)
          | Inr (_, _, pvName) \<Rightarrow>
              (case GetSubVolume (mg_k8sClient m) pvName w of
                 Inl _ \<Rightarrow> (Inl ErrSourceNotFound, m, w)
               | Inr sourceSV \<Rightarrow>
                   if vt_DiskChain (sv_Status sourceSV) \<noteq> [] then (Inl ErrSnapshotUnsupported, m, w)
                   else if rq_RequestedGB req < vs_RequestedGB (sv_Spec sourceSV)
                   then (Inl (EMsg ''clone size must be >= source size''), m, w)
                   else case GetFileSharePool (mg_k8sClient m) (rq_PoolName req) w of
                     Inl _ \<Rightarrow> (Inl ErrPoolNotFound, m, w)
                   | Inr pool \<Rightarrow>
                       (case pickShare m pool
                               (selectShareForClone (ps_AllocationStrategy (fp_Spec pool)) (pool_shares pool)
                                  (rq_RequestedGB req) (rq_Tier req) (vs_ShareID (sv_Spec sourceSV)))
                               (rq_RequestedGB req) (rq_Tier req) now w of
                          (Inl e, pool1, m1, w1) \<Rightarrow> (Inl e, m1, w1)
                        | (Inr share, pool1, m1, w1) \<Rightarrow>
                            let subPath = ''/pvcs/'' @ rq_PVName req;
                                sv = \<lparr>sv_Meta = newMeta (rq_PVName req)
                                        [(poolLabelKey, rq_PoolName req), (shareLabelKey, sh_ShareID share),
                                         (cloneSourceLabelKey, pvName)],
                                      sv_Spec = (newVolumeSpec req pool1 share subPath)
                                        \<lparr>vs_SourceVolume := pvName, vs_SourceShareID := vs_ShareID (sv_Spec sourceSV)\<rparr>,
                                      sv_Status = (newVolumeStatus ''Cloning'' now)
                                        \<lparr>vt_CloneStatus := ''Pending'',
                                          vt_CloneProgress := Some \<lparr>cp_BytesCopied = 0,
                                            cp_TotalBytes = wrap64 (vs_RequestedGB (sv_Spec sourceSV) * 2 ^ 30),
                                            cp_StartedAt = None, cp_CompletedAt = None, cp_Error = ''''\<rparr>\<rparr>\<rparr>
                            in (case recordVolume (mg_k8sClient m) pool1 sv (sh_ShareID share) (rq_RequestedGB req) w1 of
                                  (Some e, w2) \<Rightarrow> (Inl e, m1, w2)
                                | (None, w2) \<Rightarrow>
                                    (Inr ((subVolumeAllocationResult sv)), m1, w2))))))"

section \<open>Deleting and resizing volumes\<close>

definition cloneCopyKey :: "string \<Rightarrow> string" where
  "cloneCopyKey svName = ''clone-'' @ svName"

definition dataCopyKey :: "SubVolume \<Rightarrow> string" where
  "dataCopyKey sv =
     (if mget (om_Labels (sv_Meta sv)) restoreSnapshotLabel \<noteq> '''' then ''restore-'' @ sv_name sv
      else if vs_SourceVolume (sv_Spec sv) \<noteq> '''' then cloneCopyKey (sv_name sv)
      else '''')"

definition subVolumeShareMount :: "SubVolume \<Rightarrow> ShareMount" where
  "subVolumeShareMount sv = \<lparr>sm_MountTargetIP = vs_ShareMountTargetIP (sv_Spec sv),
     sm_ExportPath = vs_ShareExportPath (sv_Spec sv)\<rparr>"

definition poolShareMount :: "FileSharePool \<Rightarrow> string \<Rightarrow> error + ShareMount" where
  "poolShareMount pool shareID =
     (case find (\<lambda>s. sh_ShareID s = shareID) (pool_shares pool) of
        Some sh \<Rightarrow> Inr \<lparr>sm_MountTargetIP = sh_MountTargetIP sh, sm_ExportPath = sh_ExportPath sh\<rparr>
      | None \<Rightarrow> Inl (EMsg ''share not found in pool''))"

definition hasInstantSnapshots :: "'w Client \<Rightarrow> string \<Rightarrow> 'w \<Rightarrow> error + bool" where
  "hasInstantSnapshots k svName w =
     (case ListSnapshotsBySource k svName w of
        Inl e \<Rightarrow> Inl (ErrK8s e)
      | Inr snaps \<Rightarrow>
          Inr (list_ex (\<lambda>s. mget (om_Annotations (sn_Meta s)) snapshotMethodAnnotation = snapshotMethodInstant
                 \<and> nt_ChainFile (sn_Status s) \<noteq> '''') snaps))"

text \<open>Step 3 of Deallocate: stop a copy into the volume, then remove its folder unless it is kept.\<close>

definition removeVolumeFolder ::
  "('w, 'z) Manager_scheme \<Rightarrow> SubVolume \<Rightarrow> 'w \<Rightarrow> error option \<times> 'w" where
  "removeVolumeFolder m sv w =
     (case mg_shareData m of
        None \<Rightarrow> (Some errShareDataNotSet, w)
      | Some sd \<Rightarrow>
          (case (if dataCopyKey sv = '''' then (Inr True, w) else sd_Stop sd (dataCopyKey sv) w) of
             (Inl e, w1) \<Rightarrow> (Some e, w1)
           | (Inr False, w1) \<Rightarrow> (Some ErrOperationInProgress, w1)
           | (Inr True, w1) \<Rightarrow>
               (case hasInstantSnapshots (mg_k8sClient m) (sv_name sv) w1 of
                  Inl e \<Rightarrow> (Some e, w1)
                | Inr True \<Rightarrow> (None, w1)
                | Inr False \<Rightarrow>
                    (case sd_RemoveDir sd (''rm-'' @ sv_name sv) (subVolumeShareMount sv) (vs_SubPath (sv_Spec sv)) w1 of
                       (Inl e, w2) \<Rightarrow> (Some e, w2)
                     | (Inr done, w2) \<Rightarrow> (if done then None else Some ErrOperationInProgress, w2)))))"

definition Deallocate :: "('w, 'z) Manager_scheme \<Rightarrow> string \<Rightarrow> 'w \<Rightarrow> error option \<times> 'w" where
  "Deallocate m subVolumeName w =
     (case GetSubVolume (mg_k8sClient m) subVolumeName w of
        Inl _ \<Rightarrow> (Some ErrSubVolumeNotFound, w)
      | Inr sv \<Rightarrow>
          (case GetFileSharePool (mg_k8sClient m) (vs_PoolName (sv_Spec sv)) w of
             Inl e \<Rightarrow> (Some (ErrK8s e), w)
           | Inr pool \<Rightarrow>
               (case removeVolumeFolder m sv w of
                  (Some e, w1) \<Rightarrow> (Some e, w1)
                | (None, w1) \<Rightarrow>
                    (case DeleteSubVolume (mg_k8sClient m) subVolumeName w1 of
                       (Some e, w2) \<Rightarrow> (Some (ErrK8s e), w2)
                     | (None, w2) \<Rightarrow>
                         (None, snd (UpdateFileSharePoolStatus (mg_k8sClient m)
                            (updateShareDeallocation (vs_ShareID (sv_Spec sv)) (vs_RequestedGB (sv_Spec sv)) pool) w2))))))"

definition Expand :: "('w, 'z) Manager_scheme \<Rightarrow> string \<Rightarrow> int \<Rightarrow> 'w \<Rightarrow> error option \<times> 'w" where
  "Expand m subVolumeName newSizeGB w =
     (case GetSubVolume (mg_k8sClient m) subVolumeName w of
        Inl _ \<Rightarrow> (Some ErrSubVolumeNotFound, w)
      | Inr sv \<Rightarrow>
          (case GetFileSharePool (mg_k8sClient m) (vs_PoolName (sv_Spec sv)) w of
             Inl e \<Rightarrow> (Some (ErrK8s e), w)
           | Inr pool \<Rightarrow>
               let delta = newSizeGB - vs_RequestedGB (sv_Spec sv) in
               if delta \<le> 0 then (None, w)
               else case find (\<lambda>s. sh_ShareID s = vs_ShareID (sv_Spec sv)) (pool_shares pool) of
                 None \<Rightarrow> (Some (EMsg ''share not found in pool status''), w)
               | Some share \<Rightarrow>
                   if delta > freeGB share then (Some ErrInsufficientShareCapacity, w)
                   else case UpdateSubVolume (mg_k8sClient m)
                          (sv\<lparr>sv_Spec := (sv_Spec sv)\<lparr>vs_RequestedGB := newSizeGB\<rparr>\<rparr>) w of
                     (Some e, w1) \<Rightarrow> (Some (ErrK8s e), w1)
                   | (None, w1) \<Rightarrow>
                       (None, snd (UpdateFileSharePoolStatus (mg_k8sClient m)
                          (chargeShare (vs_ShareID (sv_Spec sv)) delta pool) w1))))"

end
