(* ===== verification/Storage_Classes.thy ===== *)
theory Storage_Classes
  imports K8s_Client
begin

text \<open>
  \<^verbatim>\<open>pkg/pool/storageclass.go\<close> and the mount options of \<^verbatim>\<open>pkg/util/mountoptions.go\<close>: the
  StorageClasses a pool gets, one or one per tier, and the options its volumes are mounted with.
  Of an owner reference the name and UID are kept; its API version and kind are constants.
\<close>

section \<open>StorageClasses\<close>

definition ProvisionerName :: string where
  "ProvisionerName = ''vpc-file-pool.csi.ibm.io''"

definition SkipStorageClassAnnotation :: string where
  "SkipStorageClassAnnotation = ''storage.ibmcloud.io/skip-storageclass''"

definition managedByLabel :: string where
  "managedByLabel = ''storage.ibmcloud.io/managed-by''"

definition managedByValue :: string where
  "managedByValue = ''ibm-vpc-file-pool-csi''"

definition defaultMountOptions :: "string list" where
  "defaultMountOptions = [''nfsvers=4.1'', ''soft'', ''timeo=600'', ''retrans=3'']"

definition shouldSkipStorageClass :: "FileSharePool \<Rightarrow> bool" where
  "shouldSkipStorageClass pool \<longleftrightarrow> mget (om_Annotations (fp_Meta pool)) SkipStorageClassAnnotation = ''true''"

definition buildStorageClass :: "FileSharePool \<Rightarrow> string \<Rightarrow> StorageClass" where
  "buildStorageClass pool tierName =
     (let spec = fp_Spec pool;
          name = (if tierName \<noteq> '''' then pool_name pool @ ''-'' @ tierName else pool_name pool);
          p0 = [(''pool'', pool_name pool)];
          p1 = (if tierName \<noteq> '''' then mput ''tier'' tierName p0 else p0);
          p2 = (case ps_DefaultUID spec of Some u \<Rightarrow> mput ''uid'' (itoa_int u) p1 | None \<Rightarrow> p1);
          p3 = (case ps_DefaultGID spec of Some g \<Rightarrow> mput ''gid'' (itoa_int g) p2 | None \<Rightarrow> p2);
          p4 = (if ps_DefaultPermissions spec \<noteq> '''' then mput ''permissions'' (ps_DefaultPermissions spec) p3 else p3)
      in \<lparr>sc_Name = name,
          sc_Labels = [(managedByLabel, managedByValue), (poolLabelKey, pool_name pool)],
          sc_OwnerName = pool_name pool, sc_OwnerUID = om_UID (fp_Meta pool),
          sc_Provisioner = ProvisionerName, sc_Parameters = p4,
          sc_MountOptions = (if ps_MountOptions spec = [] then defaultMountOptions else ps_MountOptions spec),
          sc_WaitForFirstConsumer = (ps_AccessorZones spec \<noteq> []),
          sc_AllowVolumeExpansion = True, sc_ReclaimPolicy = ''Delete''\<rparr>)"

definition storageClassesForPool :: "FileSharePool \<Rightarrow> StorageClass list" where
  "storageClassesForPool pool =
     (if ps_Tiers (fp_Spec pool) \<noteq> [] then map (\<lambda>t. buildStorageClass pool (ti_Name t)) (ps_Tiers (fp_Spec pool))
      else [buildStorageClass pool ''''])"

section \<open>Mount options\<close>

definition DefaultNFSMountOptions :: "string list" where
  "DefaultNFSMountOptions = [''nfsvers=4.1'', ''soft'', ''timeo=600'', ''retrans=3'', ''sec=sys'']"

definition optKey :: "string \<Rightarrow> string" where
  "optKey opt = takeWhile (\<lambda>c. c \<noteq> CHR ''='') opt"

text \<open>The two loops over \<open>merged\<close> and \<open>order\<close>.\<close>

fun merge_defaults :: "string list \<Rightarrow> smap \<times> string list \<Rightarrow> smap \<times> string list" where
  "merge_defaults [] st = st"
| "merge_defaults (opt # opts) (merged, order) =
     merge_defaults opts (mput (optKey opt) opt merged, order @ [optKey opt])"

fun merge_custom :: "string list \<Rightarrow> smap \<times> string list \<times> bool \<Rightarrow> smap \<times> string list \<times> bool" where
  "merge_custom [] st = st"
| "merge_custom (opt # opts) (merged, order, hasHard) =
     (let key = optKey opt
      in merge_custom opts (mput key opt merged,
           if map_of merged key = None then order @ [key] else order, hasHard \<or> key = ''hard''))"

definition MergeNFSMountOptions :: "string list \<Rightarrow> string list \<Rightarrow> string list" where
  "MergeNFSMountOptions defaults custom =
     (if custom = [] then defaults
      else let (merged0, order0) = merge_defaults defaults ([], []);
               (merged1, order, hasHard) = merge_custom custom (merged0, order0, False);
               merged = (if hasHard then filter (\<lambda>p. fst p \<noteq> ''soft'') merged1 else merged1)
           in concat (map (\<lambda>key. case map_of merged key of Some opt \<Rightarrow> [opt] | None \<Rightarrow> []) order))"

definition PoolMountOptions :: "string list \<Rightarrow> string list" where
  "PoolMountOptions poolOptions = MergeNFSMountOptions DefaultNFSMountOptions poolOptions"

section \<open>What merging does\<close>

text \<open>An option list read as a map from option keys; the first of several options with a key counts.\<close>

definition options :: "string list \<Rightarrow> string \<rightharpoonup> string" where
  "options opts = map_of (map (\<lambda>opt. (optKey opt, opt)) opts)"

lemma options_append [simp]: "options (xs @ ys) = options ys ++ options xs"
  by (simp add: options_def)

lemma options_simps [simp]:
  "options [] = Map.empty" "options (opt # opts) = (options opts)(optKey opt \<mapsto> opt)"
  by (simp_all add: options_def)

lemma options_SomeD: "options opts k = Some opt \<Longrightarrow> optKey opt = k \<and> opt \<in> set opts"
  by (auto simp: options_def dest: map_of_SomeD)

lemma dom_options: "dom (options opts) = optKey ` set opts"
  by (simp add: options_def dom_map_of_conv_image_fst image_image)

lemma merge_defaults_options:
  assumes "distinct (map optKey opts)" "merge_defaults opts (merged, order) = (merged', order')"
  shows "map_of merged' = map_of merged ++ options opts \<and> order' = order @ map optKey opts"
  using assms
proof (induction opts arbitrary: merged order)
  case (Cons opt opts)
  have "map_of merged' = map_of (mput (optKey opt) opt merged) ++ options opts \<and> order' = (order @ [optKey opt]) @ map optKey opts"
    using Cons.prems by (intro Cons.IH) simp_all
  moreover have "(map_of merged)(optKey opt \<mapsto> opt) ++ options opts = map_of merged ++ (options opts)(optKey opt \<mapsto> opt)"
    using Cons.prems(1) dom_options [of opts] by (auto simp: fun_eq_iff map_add_def split: option.splits)
  ultimately show ?case by (simp only: map_of_mput options_simps append_assoc append_Cons append_Nil list.map simp_thms)
qed simp

lemma merge_custom_options:
  assumes "distinct order" "set order = dom (map_of merged)"
    "merge_custom opts (merged, order, hard) = (merged', order', hard')"
  shows "map_of merged' = map_of merged ++ options (rev opts) \<and> distinct order' \<and> set order' = dom (map_of merged')
    \<and> hard' = (hard \<or> ''hard'' \<in> optKey ` set opts)"
  using assms
proof (induction opts arbitrary: merged order hard)
  case (Cons opt opts)
  let ?order = "if map_of merged (optKey opt) = None then order @ [optKey opt] else order"
  let ?merged = "mput (optKey opt) opt merged"
  have "distinct ?order" "set ?order = dom (map_of ?merged)" using Cons.prems(1,2) by (auto simp: map_of_mput)
  then have "map_of merged' = map_of ?merged ++ options (rev opts) \<and> distinct order' \<and> set order' = dom (map_of merged')
    \<and> hard' = ((hard \<or> optKey opt = ''hard'') \<or> ''hard'' \<in> optKey ` set opts)"
    using Cons.prems(3) by (intro Cons.IH) (simp_all add: Let_def)
  then show ?case by (auto simp: map_of_mput map_add_assoc)
qed simp

text \<open>The last loop reads a map in a given order.\<close>

lemma options_read:
  assumes "distinct order" "\<And>k opt. m k = Some opt \<Longrightarrow> optKey opt = k"
  defines "out \<equiv> concat (map (\<lambda>key. case m key of Some opt \<Rightarrow> [opt] | None \<Rightarrow> []) order)"
  shows "distinct (map optKey out) \<and> options out = m |` set order"
  using assms(1) unfolding out_def
proof (induction order)
  case (Cons k order)
  let ?out = "concat (map (\<lambda>key. case m key of Some opt \<Rightarrow> [opt] | None \<Rightarrow> []) order)"
  have "optKey ` set ?out \<subseteq> set order" using assms(2) by (auto split: option.splits)
  moreover have "distinct (map optKey ?out) \<and> options ?out = m |` set order" using Cons by simp
  ultimately show ?case
    using Cons.prems assms(2) [of k] by (cases "m k") (auto simp: restrict_map_def fun_eq_iff)
qed simp

section \<open>Properties\<close>

text \<open>
  C19: merging mount options is an override. The result has one option per key: the last custom
  option with the key, else the default with it; with a custom \<open>hard\<close>, no \<open>soft\<close>.
\<close>

theorem MergeNFSMountOptions_overrides:
  assumes "distinct (map optKey defaults)"
  shows "distinct (map optKey (MergeNFSMountOptions defaults custom))
    \<and> options (MergeNFSMountOptions defaults custom) =
        (options defaults ++ options (rev custom)) |` (if ''hard'' \<in> optKey ` set custom then - {''soft''} else UNIV)"
proof (cases "custom = []")
  case False
  obtain merged0 order0 where d: "merge_defaults defaults ([], []) = (merged0, order0)" by (rule prod.exhaust)
  obtain merged1 order hard where c: "merge_custom custom (merged0, order0, False) = (merged1, order, hard)" by (rule prod_cases3)
  have d': "map_of merged0 = options defaults" "order0 = map optKey defaults"
    using merge_defaults_options [OF assms d] by simp_all
  then have c': "map_of merged1 = options defaults ++ options (rev custom)" "distinct order" "set order = dom (map_of merged1)"
    "hard = (''hard'' \<in> optKey ` set custom)"
    using merge_custom_options [OF _ _ c] assms dom_options [of defaults] by auto
  define m where "m = map_of (if hard then filter (\<lambda>p. fst p \<noteq> ''soft'') merged1 else merged1)"
  have m: "m = map_of merged1 |` (if hard then - {''soft''} else UNIV)"
    by (rule ext) (simp add: m_def restrict_map_def map_of_filter_key)
  have k: "optKey opt = k" if "m k = Some opt" for k opt
    using that c'(1) options_SomeD by (auto simp: m restrict_map_def split: if_splits)
  have "m |` set order = m" using c'(3) by (auto simp: m restrict_map_def fun_eq_iff dom_def)
  moreover have "MergeNFSMountOptions defaults custom = concat (map (\<lambda>key. case m key of Some opt \<Rightarrow> [opt] | None \<Rightarrow> []) order)"
    using False d c by (simp add: MergeNFSMountOptions_def m_def)
  ultimately have "distinct (map optKey (MergeNFSMountOptions defaults custom)) \<and> options (MergeNFSMountOptions defaults custom) = m"
    using options_read [OF c'(2), of m, OF k] by simp
  then show ?thesis unfolding m c'(1,4) .
qed (simp add: MergeNFSMountOptions_def assms restrict_map_def)

theorem MergeNFSMountOptions_overrides_witness:
  "options (PoolMountOptions [''timeo=300'', ''hard'']) ''timeo'' = Some ''timeo=300''
   \<and> options (PoolMountOptions [''timeo=300'', ''hard'']) ''sec'' = Some ''sec=sys''
   \<and> options (PoolMountOptions [''timeo=300'', ''hard'']) ''soft'' = None"
  using MergeNFSMountOptions_overrides [of DefaultNFSMountOptions "[''timeo=300'', ''hard'']"]
  by (simp add: PoolMountOptions_def DefaultNFSMountOptions_def optKey_def)

end
