(* ===== verification/Reconciler.thy ===== *)
theory Reconciler
  imports Manager_Volumes Storage_Classes
begin

text \<open>
  \<^verbatim>\<open>pkg/pool/reconciler.go\<close>: one pass over a FileSharePool. The reconciler value is threaded
  because the network cache and the CDI check change it; the pool is the copy the code works on, and only
  the status and metadata writes reach the cluster. \<open>now\<close> is the time of the pass. Prometheus gauges are
  left out.
\<close>

section \<open>Data\<close>

text \<open>
  The part of a CDI StorageProfile that is read: \<open>spec\<close> may be missing, \<open>claimPropertySets\<close> may
  be missing, a list of some length or something else.
\<close>

datatype claimSets = ClaimSetsMissing | ClaimSetsList nat | ClaimSetsOther

record StorageProfile =
  pf_Name :: string
  pf_HasSpec :: bool
  pf_ClaimSets :: claimSets
  pf_CloneStrategy :: string

text \<open>A merge patch: whether it sets \<open>claimPropertySets\<close> and whether it sets \<open>cloneStrategy\<close>.\<close>

record 'w unstructuredClient =
  uc_Get :: "string \<Rightarrow> 'w \<Rightarrow> kerr + StorageProfile"
  uc_Patch :: "string \<Rightarrow> bool \<Rightarrow> string option \<Rightarrow> 'w \<Rightarrow> kerr option \<times> 'w"

record 'w FileSharePoolReconciler =
  rc_k8sClient :: "'w Client"
  rc_vpcClient :: "'w VPCFileClient option"
  rc_network :: "ShareNetwork option"
  rc_defaultResourceGroup :: string
  rc_directClient :: "'w unstructuredClient option"
  rc_restMapper :: "bool option"
  rc_cdiChecked :: bool
  rc_cdiInstalled :: bool
  rc_goldenImages :: "(FileSharePool \<Rightarrow> 'w \<Rightarrow> (error + bool) \<times> 'w) option"

definition FinalizerName :: string where
  "FinalizerName = ''storage.ibmcloud.io/pool-protection''"

definition ReconcileInterval :: int where
  "ReconcileInterval = 60"

definition SetGoldenImageRemover ::
  "(FileSharePool \<Rightarrow> 'w \<Rightarrow> (error + bool) \<times> 'w) option \<Rightarrow> 'w FileSharePoolReconciler \<Rightarrow> 'w FileSharePoolReconciler" where
  "SetGoldenImageRemover g r = r\<lparr>rc_goldenImages := g\<rparr>"

definition NewFileSharePoolReconciler ::
  "'w Client \<Rightarrow> 'w VPCFileClient option \<Rightarrow> 'w FileSharePoolReconciler" where
  "NewFileSharePoolReconciler k8sClient vpcClient = \<lparr>rc_k8sClient = k8sClient, rc_vpcClient = vpcClient,
     rc_network = None, rc_defaultResourceGroup = '''', rc_directClient = None, rc_restMapper = None,
     rc_cdiChecked = False, rc_cdiInstalled = False, rc_goldenImages = None\<rparr>"

definition SetVPCConfig ::
  "ShareNetwork option \<Rightarrow> string \<Rightarrow> 'w FileSharePoolReconciler \<Rightarrow> 'w FileSharePoolReconciler" where
  "SetVPCConfig network rg r = r\<lparr>rc_network := network, rc_defaultResourceGroup := rg\<rparr>"

definition reconciler_SetVPCClient ::
  "'w VPCFileClient \<Rightarrow> 'w FileSharePoolReconciler \<Rightarrow> 'w FileSharePoolReconciler" where
  "reconciler_SetVPCClient c r = r\<lparr>rc_vpcClient := Some c\<rparr>"

section \<open>Finalizers and conditions\<close>

definition hasFinalizer :: "FileSharePool \<Rightarrow> bool" where
  "hasFinalizer pool \<longleftrightarrow> list_ex (\<lambda>f. f = FinalizerName) (om_Finalizers (fp_Meta pool))"

definition setFinalizers :: "string list \<Rightarrow> FileSharePool \<Rightarrow> FileSharePool" where
  "setFinalizers fs pool = pool\<lparr>fp_Meta := (fp_Meta pool)\<lparr>om_Finalizers := fs\<rparr>\<rparr>"

definition addFinalizer :: "FileSharePool \<Rightarrow> FileSharePool" where
  "addFinalizer pool = setFinalizers (om_Finalizers (fp_Meta pool) @ [FinalizerName]) pool"

definition removeFinalizer :: "FileSharePool \<Rightarrow> FileSharePool" where
  "removeFinalizer pool = setFinalizers (filter (\<lambda>f. f \<noteq> FinalizerName) (om_Finalizers (fp_Meta pool))) pool"

fun upsertCondition :: "Condition \<Rightarrow> Condition list \<Rightarrow> Condition list" where
  "upsertCondition new [] = [new]"
| "upsertCondition new (c # cs) =
     (if co_Type c = co_Type new
      then (if co_Status c \<noteq> co_Status new then new
            else c\<lparr>co_Reason := co_Reason new, co_Message := co_Message new,
                   co_ObservedGeneration := co_ObservedGeneration new\<rparr>) # cs
      else c # upsertCondition new cs)"

definition setCondition :: "string \<Rightarrow> bool \<Rightarrow> string \<Rightarrow> string \<Rightarrow> time \<Rightarrow> FileSharePool \<Rightarrow> FileSharePool" where
  "setCondition condType status reason message now pool =
     pool\<lparr>fp_Status := (fp_Status pool)\<lparr>pt_Conditions :=
       upsertCondition \<lparr>co_Type = condType, co_Status = status,
           co_ObservedGeneration = om_Generation (fp_Meta pool), co_LastTransitionTime = now,
           co_Reason = reason, co_Message = message\<rparr> (pt_Conditions (fp_Status pool))\<rparr>\<rparr>"

definition updateConditions :: "time \<Rightarrow> FileSharePool \<Rightarrow> FileSharePool" where
  "updateConditions now pool =
     (let readyCount = length (filter shareReady (pool_shares pool));
          noMountTarget = map sh_ShareID (filter (\<lambda>s. \<not> shareReady s \<and> sh_State s = ''stable'') (pool_shares pool));
          pool1 =
            (if readyCount > 0 then
               setCondition ''SharesReady'' True ''SharesAvailable'' (itoa readyCount @ '' shares ready'') now pool
             else if noMountTarget \<noteq> [] then
               setCondition ''SharesReady'' False ''NoMountTarget''
                 (''No share can serve volumes: no mount target on '' @ join '', '' noMountTarget) now pool
             else setCondition ''SharesReady'' False ''NoSharesReady'' ''No shares in stable state'' now pool);
          st = fp_Status pool1
      in if pt_TotalCapacityGB st > 0 \<and> pt_TotalAllocatedGB st < pt_TotalCapacityGB st
         then setCondition ''CapacityAvailable'' True ''CapacityExists''
                (itoa_int (pt_TotalCapacityGB st - pt_TotalAllocatedGB st) @ '' GB available'') now pool1
         else setCondition ''CapacityAvailable'' False ''NoCapacity'' ''No available capacity'' now pool1)"

section \<open>New shares\<close>

definition createPoolShare ::
  "'w FileSharePoolReconciler \<Rightarrow> 'w VPCFileClient \<Rightarrow> FileSharePool \<Rightarrow> string \<Rightarrow> time \<Rightarrow> 'w \<Rightarrow>
     error option \<times> FileSharePool \<times> 'w FileSharePoolReconciler \<times> 'w" where
  "createPoolShare r v pool tier now w =
     (case newShareInput v (rc_network r) pool tier (rc_defaultResourceGroup r) w of
        (Inl e, n, w1) \<Rightarrow> (Some e, pool, r\<lparr>rc_network := n\<rparr>, w1)
      | (Inr input, n, w1) \<Rightarrow>
          (case recordedShareIDs (rc_k8sClient r) w1 of
             Inl e \<Rightarrow> (Some e, pool, r\<lparr>rc_network := n\<rparr>, w1)
           | Inr claimed \<Rightarrow>
               (case CreateFileShare v (input\<lparr>ci_ClaimedShareIDs := claimed\<rparr>) w1 of
                  (Inl e, w2) \<Rightarrow> (Some (ErrVPC e), pool, r\<lparr>rc_network := n\<rparr>, w2)
                | (Inr shareInfo, w2) \<Rightarrow>
                    let shares = pool_shares pool @ [newPoolShareStatus shareInfo tier now]
                    in (None, pool\<lparr>fp_Status := (fp_Status pool)\<lparr>
                          pt_Shares := shares, pt_ShareCount := int (length shares),
                          pt_TotalCapacityGB := pt_TotalCapacityGB (fp_Status pool) + si_SizeGB shareInfo\<rparr>\<rparr>,
                        r\<lparr>rc_network := n\<rparr>, w2))))"

fun createPoolShares ::
  "nat \<Rightarrow> 'w FileSharePoolReconciler \<Rightarrow> 'w VPCFileClient \<Rightarrow> FileSharePool \<Rightarrow> string \<Rightarrow> time \<Rightarrow> 'w \<Rightarrow>
     error option \<times> FileSharePool \<times> 'w FileSharePoolReconciler \<times> 'w" where
  "createPoolShares 0 r v pool tier now w = (None, pool, r, w)"
| "createPoolShares (Suc n) r v pool tier now w =
     (case createPoolShare r v pool tier now w of
        (Some e, pool1, r1, w1) \<Rightarrow> (Some e, pool1, r1, w1)
      | (None, pool1, r1, w1) \<Rightarrow> createPoolShares n r1 v pool1 tier now w1)"

definition inService :: "PoolShareStatus \<Rightarrow> bool" where
  "inService s \<longleftrightarrow> sh_State s = ''creating'' \<or> sh_State s = ''stable''"

fun provisionTiers ::
  "ShareTier list \<Rightarrow> 'w FileSharePoolReconciler \<Rightarrow> 'w VPCFileClient \<Rightarrow> FileSharePool \<Rightarrow> time \<Rightarrow> 'w \<Rightarrow>
     error option \<times> FileSharePool \<times> 'w FileSharePoolReconciler \<times> 'w" where
  "provisionTiers [] r v pool now w = (None, pool, r, w)"
| "provisionTiers (tier # tiers) r v pool now w =
     (let existingCount = int (length (filter (\<lambda>s. sh_Tier s = ti_Name tier \<and> inService s) (pool_shares pool)))
      in case createPoolShares (nat (ti_InitialShares tier - existingCount)) r v pool (ti_Name tier) now w of
           (Some e, pool1, r1, w1) \<Rightarrow> (Some e, pool1, r1, w1)
         | (None, pool1, r1, w1) \<Rightarrow> provisionTiers tiers r1 v pool1 now w1)"

definition initialProvisioning ::
  "'w FileSharePoolReconciler \<Rightarrow> 'w VPCFileClient \<Rightarrow> FileSharePool \<Rightarrow> time \<Rightarrow> 'w \<Rightarrow>
     error option \<times> FileSharePool \<times> 'w FileSharePoolReconciler \<times> 'w" where
  "initialProvisioning r v pool now w =
     (if ps_Tiers (fp_Spec pool) \<noteq> [] then provisionTiers (ps_Tiers (fp_Spec pool)) r v pool now w
      else let existingCount = int (length (filter inService (pool_shares pool)))
           in createPoolShares (nat (ps_InitialShares (fp_Spec pool) - existingCount)) r v pool '''' now w)"

section \<open>Health check\<close>

text \<open>What the state of the share in VPC changes in its record.\<close>

definition backfillMountTargets :: "MountTargetInfo list \<Rightarrow> PoolShareStatus \<Rightarrow> PoolShareStatus" where
  "backfillMountTargets mts share =
     (case mts of
        [] \<Rightarrow> share
      | mt0 # _ \<Rightarrow>
          let s1 = (if sh_MountTargetIP share = ''''
                    then share\<lparr>sh_MountTargetIP := mi_IPAddress mt0, sh_MountTargetID := mi_ID mt0\<rparr> else share);
              s2 = (if sh_ExportPath s1 = '''' \<and> mi_ExportPath mt0 \<noteq> ''''
                    then s1\<lparr>sh_ExportPath := mi_ExportPath mt0\<rparr> else s1);
              existing = map mt_MountTargetID (sh_MountTargets s2);
              found = map (\<lambda>mt. \<lparr>mt_Zone = sh_Zone s2, mt_MountTargetID = mi_ID mt,
                        mt_MountTargetIP = mi_IPAddress mt, mt_ExportPath = mi_ExportPath mt\<rparr>)
                      (filter (\<lambda>mt. mi_IPAddress mt \<noteq> '''' \<and> mi_ID mt \<notin> set existing) mts)
          in s2\<lparr>sh_MountTargets := map (\<lambda>mt. if mt_ExportPath mt = '''' \<and> sh_ExportPath s2 \<noteq> ''''
                  then mt\<lparr>mt_ExportPath := sh_ExportPath s2\<rparr> else mt) (sh_MountTargets s2 @ found)\<rparr>)"

definition refreshShare :: "string list \<Rightarrow> ShareInfo \<Rightarrow> PoolShareStatus \<Rightarrow> PoolShareStatus" where
  "refreshShare drainShares info share =
     (if si_LifecycleState info = ''stable'' then
        let s1 = (if sh_State share = ''draining'' \<and> sh_ShareID share \<notin> set drainShares
                  then share\<lparr>sh_State := ''stable''\<rparr> else share);
            s2 = (if sh_State s1 = ''creating'' then s1\<lparr>sh_State := ''stable''\<rparr> else s1)
        in backfillMountTargets (si_MountTargets info) s2
      else if si_LifecycleState info = ''failed'' \<or> si_LifecycleState info = ''degraded'' then
        share\<lparr>sh_State := ''draining''\<rparr>
      else if si_LifecycleState info = ''pending'' then share\<lparr>sh_State := ''creating''\<rparr>
      else share)"

definition claimedShareIDs :: "'w FileSharePoolReconciler \<Rightarrow> 'w \<Rightarrow> string list option" where
  "claimedShareIDs r w = (case recordedShareIDs (rc_k8sClient r) w of Inl _ \<Rightarrow> None | Inr ids \<Rightarrow> Some ids)"

definition shareIsOurs :: "string \<Rightarrow> FileSharePool \<Rightarrow> ShareInfo \<Rightarrow> bool" where
  "shareIsOurs defaultResourceGroup pool c \<longleftrightarrow>
     si_Zone c = ps_Zone (fp_Spec pool) \<and>
     (let wantGroup = (if ps_ResourceGroup (fp_Spec pool) = '''' then defaultResourceGroup else ps_ResourceGroup (fp_Spec pool))
      in wantGroup = '''' \<or> si_ResourceGroupID c = wantGroup) \<and>
     list_all (\<lambda>t. t \<in> set (si_Tags c)) (ps_Tags (fp_Spec pool))"

definition singleMountTarget :: "string \<Rightarrow> MountTargetInfo \<Rightarrow> PoolShareStatus \<Rightarrow> PoolShareStatus" where
  "singleMountTarget shareID mt share =
     share\<lparr>sh_ShareID := shareID, sh_MountTargetIP := mi_IPAddress mt, sh_MountTargetID := mi_ID mt,
       sh_ExportPath := mi_ExportPath mt,
       sh_MountTargets := [\<lparr>mt_Zone = sh_Zone share, mt_MountTargetID = mi_ID mt,
         mt_MountTargetIP = mi_IPAddress mt, mt_ExportPath = mi_ExportPath mt\<rparr>]\<rparr>"

text \<open>The search over the candidates and their mount targets: the first that fits.\<close>

fun findAdoptable ::
  "string \<Rightarrow> (ShareInfo \<Rightarrow> bool) \<Rightarrow> ShareInfo list \<Rightarrow> (ShareInfo \<times> MountTargetInfo) option" where
  "findAdoptable wantName usable [] = None"
| "findAdoptable wantName usable (c # cs) =
     (if \<not> usable c then findAdoptable wantName usable cs
      else case find (\<lambda>mt. mi_Name mt = wantName \<and> mi_IPAddress mt \<noteq> '''') (si_MountTargets c) of
        Some mt \<Rightarrow> Some (c, mt)
      | None \<Rightarrow> findAdoptable wantName usable cs)"

definition adoptShareWithMountTarget ::
  "'w FileSharePoolReconciler \<Rightarrow> 'w VPCFileClient \<Rightarrow> FileSharePool \<Rightarrow> PoolShareStatus \<Rightarrow> 'w \<Rightarrow>
     PoolShareStatus option \<times> 'w" where
  "adoptShareWithMountTarget r v pool share w =
     (case ListSharesByName v (sh_ShareName share) w of
        (Inl _, w1) \<Rightarrow> (None, w1)
      | (Inr candidates, w1) \<Rightarrow>
          (case claimedShareIDs r w1 of
             None \<Rightarrow> (None, w1)
           | Some claimed \<Rightarrow>
               (case findAdoptable (sh_ShareName share @ ''-mt'')
                       (\<lambda>c. si_ID c \<noteq> sh_ShareID share \<and> shareIsOurs (rc_defaultResourceGroup r) pool c \<and> si_ID c \<notin> set claimed)
                       candidates of
                  None \<Rightarrow> (None, w1)
                | Some (c, mt) \<Rightarrow>
                    (Some (singleMountTarget (si_ID c) mt share),
                     if sh_PVCCount share = 0 then snd (DeleteFileShare v (sh_ShareID share) w1) else w1))))"

definition createMountTarget ::
  "'w VPCFileClient \<Rightarrow> FileSharePool \<Rightarrow> PoolShareStatus \<Rightarrow> ShareNetwork \<Rightarrow> 'w \<Rightarrow>
     (error + MountTargetInfo) \<times> ShareNetwork \<times> 'w" where
  "createMountTarget v pool share n w =
     (case mountTargetNetwork v pool n w of
        (Inl e, n1, w1) \<Rightarrow> (Inl e, n1, w1)
      | (Inr (subnetID, sgIDs), n1, w1) \<Rightarrow>
          (case CreateShareMountTarget v (sh_ShareID share)
                  \<lparr>cm_Name = sh_ShareName share @ ''-mt'', cm_SubnetID = subnetID, cm_SecurityGroupIDs = sgIDs,
                   cm_EncryptInTransit = ps_EncryptionInTransit (fp_Spec pool)\<rparr> w1 of
             (Inl e, w2) \<Rightarrow> (Inl (ErrVPC e), n1, w2)
           | (Inr mt, w2) \<Rightarrow> (Inr mt, n1, w2)))"

text \<open>A stable share without an address: switch to its twin, or make a mount target.\<close>

definition recoverShare ::
  "'w FileSharePoolReconciler \<Rightarrow> 'w VPCFileClient \<Rightarrow> FileSharePool \<Rightarrow> ShareInfo \<Rightarrow> PoolShareStatus \<Rightarrow> 'w \<Rightarrow>
     PoolShareStatus \<times> 'w FileSharePoolReconciler \<times> 'w" where
  "recoverShare r v pool info share w =
     (if sh_State share = ''stable'' \<and> sh_MountTargetIP share = '''' \<and> si_MountTargets info = [] then
        (case adoptShareWithMountTarget r v pool share w of
           (Some share1, w1) \<Rightarrow> (share1, r, w1)
         | (None, w1) \<Rightarrow>
             (case rc_network r of
                None \<Rightarrow> (share, r, w1)
              | Some n \<Rightarrow>
                  (case createMountTarget v pool share n w1 of
                     (Inl _, n1, w2) \<Rightarrow> (share, r\<lparr>rc_network := Some n1\<rparr>, w2)
                   | (Inr mt, n1, w2) \<Rightarrow> (singleMountTarget (sh_ShareID share) mt share, r\<lparr>rc_network := Some n1\<rparr>, w2))))
      else (share, r, w))"

text \<open>
  A share that is gone from VPC and holds no volumes is dropped. Removing it shifts the later shares down
  in the same array, so \<open>share.TotalGB\<close>, read after that through the pointer to the slot, is the size of the
  share that moved into it; only the last share of the list is still itself.
\<close>

definition dropShare :: "nat \<Rightarrow> FileSharePool \<Rightarrow> FileSharePool" where
  "dropShare i pool =
     (let st = fp_Status pool; shares = pt_Shares st;
          slot = (if Suc i < length shares then shares ! Suc i else shares ! i);
          rest = take i shares @ drop (Suc i) shares
      in pool\<lparr>fp_Status := st\<lparr>pt_Shares := rest, pt_ShareCount := int (length rest),
           pt_TotalCapacityGB := pt_TotalCapacityGB st - sh_TotalGB slot\<rparr>\<rparr>)"

definition putShare :: "nat \<Rightarrow> PoolShareStatus \<Rightarrow> FileSharePool \<Rightarrow> FileSharePool" where
  "putShare i share pool = pool\<lparr>fp_Status := (fp_Status pool)\<lparr>pt_Shares := (pool_shares pool)[i := share]\<rparr>\<rparr>"

definition checkShare ::
  "nat \<Rightarrow> 'w FileSharePoolReconciler \<Rightarrow> 'w VPCFileClient \<Rightarrow> FileSharePool \<Rightarrow> 'w \<Rightarrow>
     FileSharePool \<times> 'w FileSharePoolReconciler \<times> 'w" where
  "checkShare i r v pool w =
     (let share = pool_shares pool ! i in
      case GetFileShare v (sh_ShareID share) w of
        (Inl e, w1) \<Rightarrow>
          if e = ErrShareNotFound \<and> sh_PVCCount share = 0 then (dropShare i pool, r, w1) else (pool, r, w1)
      | (Inr info, w1) \<Rightarrow>
          let share1 = refreshShare (ps_DrainShares (fp_Spec pool)) info share;
              pool1 = putShare i share1 pool
          in case recoverShare r v pool1 info share1 w1 of
               (share2, r1, w2) \<Rightarrow> (putShare i share2 pool1, r1, w2))"

text \<open>The loop runs from the last share to the first.\<close>

fun healthCheck_loop ::
  "nat \<Rightarrow> 'w FileSharePoolReconciler \<Rightarrow> 'w VPCFileClient \<Rightarrow> FileSharePool \<Rightarrow> 'w \<Rightarrow>
     FileSharePool \<times> 'w FileSharePoolReconciler \<times> 'w" where
  "healthCheck_loop 0 r v pool w = (pool, r, w)"
| "healthCheck_loop (Suc i) r v pool w =
     (case checkShare i r v pool w of (pool1, r1, w1) \<Rightarrow> healthCheck_loop i r1 v pool1 w1)"

definition healthCheck ::
  "'w FileSharePoolReconciler \<Rightarrow> 'w VPCFileClient \<Rightarrow> FileSharePool \<Rightarrow> 'w \<Rightarrow>
     FileSharePool \<times> 'w FileSharePoolReconciler \<times> 'w" where
  "healthCheck r v pool w = healthCheck_loop (length (pool_shares pool)) r v pool w"

section \<open>Accessor zones and StorageClasses\<close>

fun addZones :: "AccessorZone list \<Rightarrow> PoolShareStatus \<Rightarrow> PoolShareStatus" where
  "addZones [] share = share"
| "addZones (az # azs) share =
     addZones azs
       (if list_ex (\<lambda>mt. mt_Zone mt = az_Zone az) (sh_MountTargets share) then share
        else share\<lparr>sh_MountTargets := sh_MountTargets share @
          [\<lparr>mt_Zone = az_Zone az, mt_MountTargetID = sh_MountTargetID share,
            mt_MountTargetIP = sh_MountTargetIP share, mt_ExportPath = sh_ExportPath share\<rparr>]\<rparr>)"

definition ensureZones :: "AccessorZone list \<Rightarrow> PoolShareStatus \<Rightarrow> PoolShareStatus" where
  "ensureZones azs share =
     (if sh_State share \<noteq> ''stable'' \<or> sh_MountTargetIP share = '''' then share
      else addZones azs
        (if sh_MountTargets share = []
         then share\<lparr>sh_MountTargets := [\<lparr>mt_Zone = sh_Zone share, mt_MountTargetID = sh_MountTargetID share,
                mt_MountTargetIP = sh_MountTargetIP share, mt_ExportPath = sh_ExportPath share\<rparr>]\<rparr>
         else share))"

definition ensureAccessorMountTargets :: "FileSharePool \<Rightarrow> FileSharePool" where
  "ensureAccessorMountTargets pool =
     (if ps_AccessorZones (fp_Spec pool) = [] then pool
      else pool\<lparr>fp_Status := (fp_Status pool)\<lparr>pt_Shares :=
             map (ensureZones (ps_AccessorZones (fp_Spec pool))) (pool_shares pool)\<rparr>\<rparr>)"

fun createClasses :: "'w Client \<Rightarrow> StorageClass list \<Rightarrow> 'w \<Rightarrow> 'w" where
  "createClasses k [] w = w"
| "createClasses k (desired # cs) w =
     (case GetStorageClass k (sc_Name desired) w of
        Inr _ \<Rightarrow> createClasses k cs w
      | Inl _ \<Rightarrow> createClasses k cs (snd (CreateStorageClass k desired w)))"

definition ensureStorageClasses :: "'w FileSharePoolReconciler \<Rightarrow> FileSharePool \<Rightarrow> 'w \<Rightarrow> 'w" where
  "ensureStorageClasses r pool w =
     (if shouldSkipStorageClass pool then w
      else createClasses (rc_k8sClient r) (storageClassesForPool pool) w)"

definition cdiAvailable :: "'w FileSharePoolReconciler \<Rightarrow> bool \<times> 'w FileSharePoolReconciler" where
  "cdiAvailable r =
     (if rc_cdiChecked r then (rc_cdiInstalled r, r)
      else case rc_restMapper r of
        None \<Rightarrow> (False, r\<lparr>rc_cdiChecked := True\<rparr>)
      | Some found \<Rightarrow> (found, r\<lparr>rc_cdiChecked := True, rc_cdiInstalled := found\<rparr>))"

definition cdiCloneStrategy :: string where
  "cdiCloneStrategy = ''csi-clone''"

definition patchStorageProfile :: "'w unstructuredClient option \<Rightarrow> string \<Rightarrow> 'w \<Rightarrow> 'w" where
  "patchStorageProfile direct name w =
     (case direct of
        None \<Rightarrow> w
      | Some c \<Rightarrow>
          (case uc_Get c name w of
             Inl _ \<Rightarrow> w
           | Inr sp \<Rightarrow>
               let setClaims = (\<not> pf_HasSpec sp \<or> pf_ClaimSets sp = ClaimSetsMissing \<or> pf_ClaimSets sp = ClaimSetsList 0);
                   setStrategy = (\<not> pf_HasSpec sp \<or> pf_CloneStrategy sp \<noteq> cdiCloneStrategy)
               in if setClaims \<or> setStrategy
                  then snd (uc_Patch c name setClaims (if setStrategy then Some cdiCloneStrategy else None) w)
                  else w))"

definition ensureStorageProfiles ::
  "'w FileSharePoolReconciler \<Rightarrow> FileSharePool \<Rightarrow> 'w \<Rightarrow> 'w FileSharePoolReconciler \<times> 'w" where
  "ensureStorageProfiles r pool w =
     (if shouldSkipStorageClass pool then (r, w)
      else case cdiAvailable r of
        (False, r1) \<Rightarrow> (r1, w)
      | (True, r1) \<Rightarrow>
          (r1, foldl (\<lambda>w sc. patchStorageProfile (rc_directClient r1) (sc_Name sc) w) w (storageClassesForPool pool)))"

section \<open>Draining\<close>

text \<open>A share whose objects cannot be listed is left out of the new drain status.\<close>

definition drainEntry ::
  "'w Client \<Rightarrow> ShareDrainStatus list \<Rightarrow> time \<Rightarrow> 'w \<Rightarrow> string \<Rightarrow> ShareDrainStatus option" where
  "drainEntry k existing now w shareID =
     (case ListSubVolumesByShare k shareID w of
        Inl _ \<Rightarrow> None
      | Inr subVolumes \<Rightarrow>
          (case ListSnapshotsByShare k shareID w of
             Inl _ \<Rightarrow> None
           | Inr snapshots \<Rightarrow>
               Some \<lparr>ds_ShareID = shareID, ds_RemainingSubVolumes = int (length subVolumes),
                 ds_RemainingSnapshots = int (length snapshots),
                 ds_Drained = (subVolumes = [] \<and> snapshots = []),
                 ds_DrainStartedAt =
                   (case find (\<lambda>d. ds_ShareID d = shareID) (rev existing) of
                      Some d \<Rightarrow> (case ds_DrainStartedAt d of Some t \<Rightarrow> Some t | None \<Rightarrow> Some now)
                    | None \<Rightarrow> Some now)\<rparr>))"

definition markDraining :: "string list \<Rightarrow> PoolShareStatus \<Rightarrow> PoolShareStatus" where
  "markDraining drainShares share =
     (if sh_ShareID share \<in> set drainShares \<and> sh_State share = ''stable''
      then share\<lparr>sh_State := ''draining''\<rparr> else share)"

definition processDrainRequests ::
  "'w FileSharePoolReconciler \<Rightarrow> FileSharePool \<Rightarrow> time \<Rightarrow> 'w \<Rightarrow> FileSharePool" where
  "processDrainRequests r pool now w =
     (let requested = ps_DrainShares (fp_Spec pool); st = fp_Status pool in
      if requested = [] then pool\<lparr>fp_Status := st\<lparr>pt_DrainStatus := []\<rparr>\<rparr>
      else
        let updated = List.map_filter (drainEntry (rc_k8sClient r) (pt_DrainStatus st) now w) requested;
            pool1 = pool\<lparr>fp_Status := st\<lparr>pt_Shares := map (markDraining requested) (pt_Shares st),
                      pt_DrainStatus := updated\<rparr>\<rparr>;
            drainedCount = length (filter ds_Drained updated);
            totalRemaining = sum_list (map ds_RemainingSubVolumes updated);
            totalSnapshots = sum_list (map ds_RemainingSnapshots updated)
        in if drainedCount = length requested
           then setCondition ''DrainComplete'' True ''AllSharesDrained''
                  (''All '' @ itoa (length requested) @ '' shares fully drained'') now pool1
           else setCondition ''DrainComplete'' False ''DrainInProgress''
                  (itoa drainedCount @ ''/'' @ itoa (length requested) @ '' shares drained, ''
                   @ itoa_int totalRemaining @ '' SubVolumes and '' @ itoa_int totalSnapshots @ '' snapshots remaining'')
                  now pool1)"

section \<open>The recount\<close>

text \<open>The maps \<open>shareAllocated\<close> and \<open>sharePVCCount\<close>, as association lists with the zero value as default.\<close>

definition tally :: "string \<Rightarrow> int \<Rightarrow> (string \<times> int) list \<Rightarrow> (string \<times> int) list" where
  "tally k x m = (k, (case map_of m k of Some y \<Rightarrow> y | None \<Rightarrow> 0) + x) # filter (\<lambda>p. fst p \<noteq> k) m"

definition tallied :: "(string \<times> int) list \<Rightarrow> string \<Rightarrow> int" where
  "tallied m k = (case map_of m k of Some y \<Rightarrow> y | None \<Rightarrow> 0)"

definition reconcileMetrics :: "'w FileSharePoolReconciler \<Rightarrow> FileSharePool \<Rightarrow> 'w \<Rightarrow> FileSharePool" where
  "reconcileMetrics r pool w =
     (case ListSubVolumes (rc_k8sClient r) (pool_name pool) w of
        Inl _ \<Rightarrow> pool
      | Inr subVolumes \<Rightarrow>
          (case ListSnapshots (rc_k8sClient r) (pool_name pool) w of
             Inl _ \<Rightarrow> pool
           | Inr snapshots \<Rightarrow>
               let allocated0 = foldl (\<lambda>m sv. tally (vs_ShareID (sv_Spec sv)) (vs_RequestedGB (sv_Spec sv)) m) [] subVolumes;
                   pvcs = foldl (\<lambda>m sv. tally (vs_ShareID (sv_Spec sv)) 1 m) [] subVolumes;
                   allocated = foldl (\<lambda>m sn. tally (ns_ShareID (sn_Spec sn)) (snapshotChargeGB sn) m) allocated0 snapshots;
                   shares = map (\<lambda>s. s\<lparr>sh_AllocatedGB := tallied allocated (sh_ShareID s),
                                       sh_PVCCount := tallied pvcs (sh_ShareID s)\<rparr>) (pool_shares pool)
               in pool\<lparr>fp_Status := (fp_Status pool)\<lparr>pt_Shares := shares,
                    pt_TotalAllocatedGB := sum_list (map sh_AllocatedGB shares),
                    pt_TotalPVCCount := sum_list (map sh_PVCCount shares),
                    pt_ShareCount := int (length shares),
                    pt_TotalCapacityGB := sum_list (map sh_TotalGB shares)\<rparr>\<rparr>))"

section \<open>Proactive expansion\<close>

text \<open>\<^verbatim>\<open>int32(allocated * 100 / capacity)\<close> with the product in 64 bits.\<close>

definition utilization :: "int \<Rightarrow> int \<Rightarrow> int" where
  "utilization allocated capacity = wrap32 (quot (wrap64 (allocated * 100)) capacity)"

definition tierNeedsShare :: "FileSharePool \<Rightarrow> ShareTier \<Rightarrow> bool" where
  "tierNeedsShare pool tier \<longleftrightarrow>
     (let shares = filter (\<lambda>s. sh_Tier s = ti_Name tier) (pool_shares pool);
          capacity = sum_list (map sh_TotalGB shares); allocated = sum_list (map sh_AllocatedGB shares)
      in int (length shares) < ti_MaxShares tier \<and> capacity \<noteq> 0 \<and>
         utilization allocated capacity > ps_ExpandThresholdPercent (fp_Spec pool))"

fun expandTiers ::
  "ShareTier list \<Rightarrow> 'w FileSharePoolReconciler \<Rightarrow> 'w VPCFileClient \<Rightarrow> FileSharePool \<Rightarrow> time \<Rightarrow> 'w \<Rightarrow>
     FileSharePool \<times> 'w FileSharePoolReconciler \<times> 'w" where
  "expandTiers [] r v pool now w = (pool, r, w)"
| "expandTiers (tier # tiers) r v pool now w =
     (if tierNeedsShare pool tier then
        (case createPoolShare r v pool (ti_Name tier) now w of
           (_, pool1, r1, w1) \<Rightarrow> expandTiers tiers r1 v pool1 now w1)
      else expandTiers tiers r v pool now w)"

definition proactiveExpansion ::
  "'w FileSharePoolReconciler \<Rightarrow> 'w VPCFileClient \<Rightarrow> FileSharePool \<Rightarrow> time \<Rightarrow> 'w \<Rightarrow>
     FileSharePool \<times> 'w FileSharePoolReconciler \<times> 'w" where
  "proactiveExpansion r v pool now w =
     (let spec = fp_Spec pool; st = fp_Status pool in
      if \<not> ps_AutoExpand spec then (pool, r, w)
      else if list_ex (\<lambda>s. sh_State s = ''creating'' \<or> sh_State s = ''stable'' \<and> \<not> shareReady s) (pt_Shares st)
      then (pool, r, w)
      else if ps_Tiers spec \<noteq> [] then expandTiers (ps_Tiers spec) r v pool now w
      else if int (length (pt_Shares st)) \<ge> ps_MaxShares spec then (pool, r, w)
      else if pt_TotalCapacityGB st = 0 then (pool, r, w)
      else if utilization (pt_TotalAllocatedGB st) (pt_TotalCapacityGB st) \<le> ps_ExpandThresholdPercent spec
      then (pool, r, w)
      else case createPoolShare r v pool '''' now w of (_, pool1, r1, w1) \<Rightarrow> (pool1, r1, w1))"

section \<open>The phase\<close>

definition determinePhase :: "FileSharePool \<Rightarrow> string" where
  "determinePhase pool =
     (let shares = pool_shares pool in
      if shares = [] then ''Initializing''
      else if list_ex (\<lambda>s. sh_State s = ''draining'' \<or> sh_State s = ''degraded'') shares then ''Degraded''
      else if list_ex (\<lambda>s. sh_State s = ''creating'') shares then ''Expanding''
      else if \<not> list_ex shareReady shares then ''Degraded''
      else if int (length shares) \<ge> ps_MaxShares (fp_Spec pool)
           \<and> \<not> list_ex (\<lambda>s. shareReady s \<and> sh_AllocatedGB s < sh_TotalGB s) shares then ''Full''
      else ''Ready'')"

section \<open>Status writes\<close>

text \<open>The five attempts are the argument. The pool that comes back carries the metadata of the last read.\<close>

fun updateStatusRetrying ::
  "nat \<Rightarrow> 'w Client \<Rightarrow> FileSharePool \<Rightarrow> 'w \<Rightarrow> kerr option \<times> FileSharePool \<times> 'w" where
  "updateStatusRetrying 0 k pool w = (None, pool, w)"
| "updateStatusRetrying (Suc n) k pool w =
     (case UpdateFileSharePoolStatus k pool w of
        (None, w1) \<Rightarrow> (None, pool, w1)
      | (Some e, w1) \<Rightarrow>
          if e \<noteq> KConflict then (Some e, pool, w1)
          else case GetFileSharePool k (pool_name pool) w1 of
            Inl e' \<Rightarrow> (Some e', pool, w1)
          | Inr fresh \<Rightarrow>
              let pool1 = fresh\<lparr>fp_Status := fp_Status pool\<rparr>
              in if n = 0 then (Some e, pool1, w1) else updateStatusRetrying n k pool1 w1)"

definition updateStatusRetryingConflict :: "'w Client \<Rightarrow> FileSharePool \<Rightarrow> 'w \<Rightarrow> kerr option \<times> FileSharePool \<times> 'w" where
  "updateStatusRetryingConflict k pool w = updateStatusRetrying 5 k pool w"

definition setPhase :: "string \<Rightarrow> time \<Rightarrow> FileSharePool \<Rightarrow> FileSharePool" where
  "setPhase phase now pool =
     pool\<lparr>fp_Status := (fp_Status pool)\<lparr>pt_Phase := phase, pt_LastReconcileTime := Some now\<rparr>\<rparr>"

definition setReconciled :: "time \<Rightarrow> FileSharePool \<Rightarrow> FileSharePool" where
  "setReconciled now pool = pool\<lparr>fp_Status := (fp_Status pool)\<lparr>pt_LastReconcileTime := Some now\<rparr>\<rparr>"

section \<open>Deletion\<close>

fun deleteShares :: "'w VPCFileClient \<Rightarrow> PoolShareStatus list \<Rightarrow> 'w \<Rightarrow> verr option \<times> 'w" where
  "deleteShares v [] w = (None, w)"
| "deleteShares v (s # ss) w =
     (case DeleteFileShare v (sh_ShareID s) w of
        (Some e, w1) \<Rightarrow> (Some e, w1)
      | (None, w1) \<Rightarrow> deleteShares v ss w1)"

text \<open>The result of a pass: an error, or the seconds until the next pass, 0 for none.\<close>

definition blockDeletion ::
  "'w Client \<Rightarrow> string \<Rightarrow> string \<Rightarrow> time \<Rightarrow> FileSharePool \<Rightarrow> 'w \<Rightarrow> (error + int) \<times> 'w" where
  "blockDeletion k reason message now pool w =
     (Inr 30, snd (UpdateFileSharePoolStatus k
        (setReconciled now (setCondition ''DeletionBlocked'' True reason message now pool)) w))"

definition handleDeletion ::
  "'w FileSharePoolReconciler \<Rightarrow> 'w VPCFileClient \<Rightarrow> FileSharePool \<Rightarrow> time \<Rightarrow> 'w \<Rightarrow> (error + int) \<times> 'w" where
  "handleDeletion r v pool now w =
     (let k = rc_k8sClient r in
      case (case rc_goldenImages r of None \<Rightarrow> (Inr True, w) | Some g \<Rightarrow> g pool w) of
        (Inl e, w1) \<Rightarrow> (Inl e, w1)
      | (Inr False, w1) \<Rightarrow> (Inr 10, w1)
      | (Inr True, w1) \<Rightarrow>
          (case ListSubVolumes k (pool_name pool) w1 of
             Inl e \<Rightarrow> (Inl (ErrK8s e), w1)
           | Inr subVolumes \<Rightarrow>
               if subVolumes \<noteq> []
               then blockDeletion k ''ActiveSubVolumes'' (itoa (length subVolumes) @ '' SubVolumes still exist'') now pool w1
               else case ListSnapshots k (pool_name pool) w1 of
                 Inl e \<Rightarrow> (Inl (ErrK8s e), w1)
               | Inr snapshots \<Rightarrow>
                   if snapshots \<noteq> []
                   then blockDeletion k ''SnapshotsExist''
                     (itoa (length snapshots) @ '' snapshots still exist; delete their VolumeSnapshots first'') now pool w1
                   else case deleteShares v (pool_shares pool) w1 of
                     (Some e, w2) \<Rightarrow> (Inl (ErrVPC e), w2)
                   | (None, w2) \<Rightarrow>
                       (case UpdateFileSharePool k (removeFinalizer pool) w2 of
                          (Some e, w3) \<Rightarrow> (Inl (ErrK8s e), w3)
                        | (None, w3) \<Rightarrow> (Inr 0, w3))))"

section \<open>A pass\<close>

text \<open>
  Step 3: provision a pool that has not been provisioned yet. The pool is read again afterwards.
  Of the text of an error, the message of the condition, only what \<open>EMsg\<close> carries is known.
\<close>

definition errorText :: "error \<Rightarrow> string" where
  "errorText e = (case e of EMsg s \<Rightarrow> s | _ \<Rightarrow> '''')"

definition provisionPool ::
  "'w FileSharePoolReconciler \<Rightarrow> 'w VPCFileClient \<Rightarrow> FileSharePool \<Rightarrow> time \<Rightarrow> 'w \<Rightarrow>
     ((error + int) + FileSharePool) \<times> 'w FileSharePoolReconciler \<times> 'w" where
  "provisionPool r v pool now w =
     (let k = rc_k8sClient r in
      if pt_Phase (fp_Status pool) \<noteq> '''' \<and> pt_Phase (fp_Status pool) \<noteq> ''Initializing'' then (Inr pool, r, w)
      else case initialProvisioning r v pool now w of
        (Some e, pool1, r1, w1) \<Rightarrow>
          (Inl (Inr 15), r1, snd (snd (updateStatusRetryingConflict k
             (setReconciled now (setCondition ''SharesReady'' False ''ProvisioningFailed'' (errorText e) now (setPhase ''Initializing'' now pool1))) w1)))
      | (None, pool1, r1, w1) \<Rightarrow>
          (case updateStatusRetryingConflict k (setPhase ''Expanding'' now pool1) w1 of
             (Some e, _, w2) \<Rightarrow> (Inl (Inl (ErrK8s e)), r1, w2)
           | (None, pool2, w2) \<Rightarrow>
               (case GetFileSharePool k (pool_name pool) w2 of
                  Inl e \<Rightarrow> (Inl (Inl (ErrK8s e)), r1, w2)
                | Inr pool3 \<Rightarrow> (Inr pool3, r1, w2))))"

text \<open>Steps 2 to 3 for a pool that is not being deleted: the finalizer, the StorageClasses and the first shares.\<close>

definition preparePool ::
  "'w FileSharePoolReconciler \<Rightarrow> 'w VPCFileClient \<Rightarrow> string \<Rightarrow> FileSharePool \<Rightarrow> time \<Rightarrow> 'w \<Rightarrow>
     ((error + int) + FileSharePool) \<times> 'w FileSharePoolReconciler \<times> 'w" where
  "preparePool r v name pool now w =
     (let k = rc_k8sClient r in
      case (if hasFinalizer pool then (Inr pool, w)
            else case UpdateFileSharePool k (addFinalizer pool) w of
              (Some e, w1) \<Rightarrow> (Inl e, w1)
            | (None, w1) \<Rightarrow> (GetFileSharePool k name w1, w1)) of
        (Inl e, w1) \<Rightarrow> (Inl (Inl (ErrK8s e)), r, w1)
      | (Inr pool1, w1) \<Rightarrow>
          (case ensureStorageProfiles r pool1 (ensureStorageClasses r pool1 w1) of
             (r2, w2) \<Rightarrow> provisionPool r2 v pool1 now w2))"

text \<open>Steps 4 to 10: the checks, the recount and the write of the new status.\<close>

definition refreshPool ::
  "'w FileSharePoolReconciler \<Rightarrow> 'w VPCFileClient \<Rightarrow> FileSharePool \<Rightarrow> time \<Rightarrow> 'w \<Rightarrow>
     FileSharePool \<times> 'w FileSharePoolReconciler \<times> 'w" where
  "refreshPool r v pool now w =
     (case healthCheck r v pool w of
        (pool1, r1, w1) \<Rightarrow>
          (case proactiveExpansion r1 v
                  (reconcileMetrics r1 (processDrainRequests r1 (ensureAccessorMountTargets pool1) now w1) w1) now w1 of
             (pool2, r2, w2) \<Rightarrow>
               let pool3 = setReconciled now (updateConditions now
                     (pool2\<lparr>fp_Status := (fp_Status pool2)\<lparr>pt_Phase := determinePhase pool2\<rparr>\<rparr>))
               in (if pt_GoldenImages (fp_Status pool3) = None
                   then (case GetFileSharePool (rc_k8sClient r2) (pool_name pool3) w2 of
                           Inr fresh \<Rightarrow> pool3\<lparr>fp_Status := (fp_Status pool3)\<lparr>pt_GoldenImages := pt_GoldenImages (fp_Status fresh)\<rparr>\<rparr>
                         | Inl _ \<Rightarrow> pool3)
                   else pool3, r2, w2)))"

definition Reconcile ::
  "'w FileSharePoolReconciler \<Rightarrow> string \<Rightarrow> time \<Rightarrow> 'w \<Rightarrow> (error + int) \<times> 'w FileSharePoolReconciler \<times> 'w" where
  "Reconcile r name now w =
     (let k = rc_k8sClient r in
      case rc_vpcClient r of
        None \<Rightarrow> (Inr 5, r, w)
      | Some v \<Rightarrow>
          (case GetFileSharePool k name w of
             Inl _ \<Rightarrow> (Inr 0, r, w)
           | Inr pool \<Rightarrow>
               if om_DeletionTimestamp (fp_Meta pool) \<noteq> None
               then (case handleDeletion r v pool now w of (res, w1) \<Rightarrow> (res, r, w1))
               else case preparePool r v name pool now w of
                 (Inl res, r1, w1) \<Rightarrow> (res, r1, w1)
               | (Inr pool1, r1, w1) \<Rightarrow>
                   (case refreshPool r1 v pool1 now w1 of
                      (pool2, r2, w2) \<Rightarrow>
                        (case UpdateFileSharePoolStatus k pool2 w2 of
                           (Some e, w3) \<Rightarrow> (Inl (ErrK8s e), r2, w3)
                         | (None, w3) \<Rightarrow> (Inr ReconcileInterval, r2, w3)))))"

end
