(* ===== verification/Share_Books.thy ===== *)
theory Share_Books
  imports Manager_Volumes
begin

text \<open>
  The books of a pool. A share records how much of it is allocated and how many volumes it holds,
  and the pool records the totals. The books balance when these numbers are the ones a recount
  of the SubVolumes and Snapshots gives, and a pool is not over-committed when no share is
  charged more than it has or its tier's shares are meant to have. The lemmas show what each bookkeeping function does to the books.
\<close>

section \<open>The recount\<close>

definition onShare :: "string \<Rightarrow> string \<Rightarrow> SubVolume \<Rightarrow> bool" where
  "onShare poolName shareID v \<longleftrightarrow>
     MatchingLabels poolLabelKey poolName (om_Labels (sv_Meta v)) \<and> vs_ShareID (sv_Spec v) = shareID"

definition snapOnShare :: "string \<Rightarrow> string \<Rightarrow> Snapshot \<Rightarrow> bool" where
  "snapOnShare poolName shareID n \<longleftrightarrow>
     MatchingLabels poolLabelKey poolName (om_Labels (sn_Meta n)) \<and> ns_ShareID (sn_Spec n) = shareID"

definition shareVolumesGB :: "string \<Rightarrow> string \<Rightarrow> SubVolume list \<Rightarrow> int" where
  "shareVolumesGB poolName shareID svs =
     sum_list (map (\<lambda>v. vs_RequestedGB (sv_Spec v)) (filter (onShare poolName shareID) svs))"

definition shareSnapshotsGB :: "string \<Rightarrow> string \<Rightarrow> Snapshot list \<Rightarrow> int" where
  "shareSnapshotsGB poolName shareID sns =
     sum_list (map snapshotChargeGB (filter (snapOnShare poolName shareID) sns))"

definition sharePVCs :: "string \<Rightarrow> string \<Rightarrow> SubVolume list \<Rightarrow> int" where
  "sharePVCs poolName shareID svs = sum_list (map (\<lambda>v. 1) (filter (onShare poolName shareID) svs))"

definition share_balanced :: "string \<Rightarrow> SubVolume list \<Rightarrow> Snapshot list \<Rightarrow> PoolShareStatus \<Rightarrow> bool" where
  "share_balanced poolName svs sns s \<longleftrightarrow>
     sh_AllocatedGB s = shareVolumesGB poolName (sh_ShareID s) svs + shareSnapshotsGB poolName (sh_ShareID s) sns \<and>
     sh_PVCCount s = sharePVCs poolName (sh_ShareID s) svs"

definition totals_balanced :: "FileSharePoolStatus \<Rightarrow> bool" where
  "totals_balanced st \<longleftrightarrow>
     pt_TotalAllocatedGB st = sum_list (map sh_AllocatedGB (pt_Shares st)) \<and>
     pt_TotalPVCCount st = sum_list (map sh_PVCCount (pt_Shares st)) \<and>
     pt_TotalCapacityGB st = sum_list (map sh_TotalGB (pt_Shares st)) \<and>
     pt_ShareCount st = int (length (pt_Shares st))"

definition balanced :: "SubVolume list \<Rightarrow> Snapshot list \<Rightarrow> FileSharePool \<Rightarrow> bool" where
  "balanced svs sns p \<longleftrightarrow>
     distinct (map sh_ShareID (pool_shares p)) \<and>
     list_all (share_balanced (pool_name p) svs sns) (pool_shares p) \<and>
     totals_balanced (fp_Status p)"

text \<open>
  The volumes and snapshots of a pool are on shares the pool records, and the pool label of an
  object is the pool its spec names.
\<close>

definition housed :: "SubVolume list \<Rightarrow> Snapshot list \<Rightarrow> FileSharePool \<Rightarrow> bool" where
  "housed svs sns p \<longleftrightarrow>
     list_all (\<lambda>v. (MatchingLabels poolLabelKey (pool_name p) (om_Labels (sv_Meta v)) \<longleftrightarrow> vs_PoolName (sv_Spec v) = pool_name p)
       \<and> (vs_PoolName (sv_Spec v) = pool_name p \<longrightarrow> vs_ShareID (sv_Spec v) \<in> sh_ShareID ` set (pool_shares p))) svs \<and>
     list_all (\<lambda>n. (MatchingLabels poolLabelKey (pool_name p) (om_Labels (sn_Meta n)) \<longleftrightarrow> ns_PoolName (sn_Spec n) = pool_name p)
       \<and> (ns_PoolName (sn_Spec n) = pool_name p \<longrightarrow> ns_ShareID (sn_Spec n) \<in> sh_ShareID ` set (pool_shares p))) sns"

definition books :: "SubVolume list \<Rightarrow> Snapshot list \<Rightarrow> FileSharePool \<Rightarrow> bool" where
  "books svs sns p \<longleftrightarrow> balanced svs sns p \<and> housed svs sns p"

text \<open>
  The size of a share for the purpose of charging it. A share that the client adopts by its name may be smaller
  than the size asked for, which is not compared; the request that made the pool grow is then charged to it
  all the same, as it fits the size the spec gives for the tier.
\<close>

definition tierShareGB :: "FileSharePoolSpec \<Rightarrow> string \<Rightarrow> int" where
  "tierShareGB spec tier = (case TierConfig spec tier of Inr (_, sizeGB, _) \<Rightarrow> sizeGB | Inl _ \<Rightarrow> 0)"

definition chargeableGB :: "FileSharePool \<Rightarrow> PoolShareStatus \<Rightarrow> int" where
  "chargeableGB p s = max (sh_TotalGB s) (tierShareGB (fp_Spec p) (sh_Tier s))"

definition withinCapacity :: "FileSharePool \<Rightarrow> bool" where
  "withinCapacity p \<longleftrightarrow> list_all (\<lambda>s. sh_AllocatedGB s \<le> chargeableGB p s) (pool_shares p)"

lemmas books_defs = books_def balanced_def housed_def share_balanced_def totals_balanced_def

section \<open>The recount under changes of the objects\<close>

lemma recount_append [simp]:
  "shareVolumesGB pn i (svs @ [v]) = shareVolumesGB pn i svs + (if onShare pn i v then vs_RequestedGB (sv_Spec v) else 0)"
  "sharePVCs pn i (svs @ [v]) = sharePVCs pn i svs + (if onShare pn i v then 1 else 0)"
  "shareSnapshotsGB pn i (sns @ [n]) = shareSnapshotsGB pn i sns + (if snapOnShare pn i n then snapshotChargeGB n else 0)"
  by (simp_all add: shareVolumesGB_def sharePVCs_def shareSnapshotsGB_def)

lemma recount_remove:
  assumes "distinct (map sv_name svs)" and "v \<in> set svs"
  shows "shareVolumesGB pn i (filter (\<lambda>u. sv_name u \<noteq> sv_name v) svs) =
      shareVolumesGB pn i svs - (if onShare pn i v then vs_RequestedGB (sv_Spec v) else 0)"
    and "sharePVCs pn i (filter (\<lambda>u. sv_name u \<noteq> sv_name v) svs) =
      sharePVCs pn i svs - (if onShare pn i v then 1 else 0)"
  using sum_list_filter_remove [OF assms, of "\<lambda>v. vs_RequestedGB (sv_Spec v)" "onShare pn i"]
    sum_list_filter_remove [OF assms, of "\<lambda>v. 1" "onShare pn i"]
  by (simp_all add: shareVolumesGB_def sharePVCs_def)

lemma recount_remove_snap:
  assumes "distinct (map sn_name sns)" and "n \<in> set sns"
  shows "shareSnapshotsGB pn i (filter (\<lambda>u. sn_name u \<noteq> sn_name n) sns) =
      shareSnapshotsGB pn i sns - (if snapOnShare pn i n then snapshotChargeGB n else 0)"
  using sum_list_filter_remove [OF assms, of snapshotChargeGB "snapOnShare pn i"]
  by (simp add: shareSnapshotsGB_def)

text \<open>Rewriting the status of objects, or their size, keeps what the recount reads otherwise.\<close>

lemma recount_cong:
  assumes "map (\<lambda>v. (om_Labels (sv_Meta v), sv_Spec v)) svs = map (\<lambda>v. (om_Labels (sv_Meta v), sv_Spec v)) svs'"
  shows "shareVolumesGB pn i svs = shareVolumesGB pn i svs'" and "sharePVCs pn i svs = sharePVCs pn i svs'"
    and "list_all (\<lambda>v. P (om_Labels (sv_Meta v)) (sv_Spec v)) svs = list_all (\<lambda>v. P (om_Labels (sv_Meta v)) (sv_Spec v)) svs'"
proof -
  have "list_all2 (\<lambda>v v'. om_Labels (sv_Meta v) = om_Labels (sv_Meta v') \<and> sv_Spec v = sv_Spec v') svs svs'"
    using assms by (auto simp: list_all2_conv_all_nth list_eq_iff_nth_eq)
  then show "shareVolumesGB pn i svs = shareVolumesGB pn i svs'" "sharePVCs pn i svs = sharePVCs pn i svs'"
    "list_all (\<lambda>v. P (om_Labels (sv_Meta v)) (sv_Spec v)) svs = list_all (\<lambda>v. P (om_Labels (sv_Meta v)) (sv_Spec v)) svs'"
    by (induction rule: list_all2_induct) (simp_all add: shareVolumesGB_def sharePVCs_def onShare_def)
qed

lemma recount_resize:
  assumes "distinct (map sv_name svs)" and "v \<in> set svs"
  shows "shareVolumesGB pn i (upd_at sv_name (sv_name v) (\<lambda>u. (v\<lparr>sv_Spec := (sv_Spec v)\<lparr>vs_RequestedGB := g\<rparr>\<rparr>)\<lparr>sv_Status := sv_Status u\<rparr>) svs)
      = shareVolumesGB pn i svs + (if onShare pn i v then g - vs_RequestedGB (sv_Spec v) else 0)"
    and "sharePVCs pn i (upd_at sv_name (sv_name v) (\<lambda>u. (v\<lparr>sv_Spec := (sv_Spec v)\<lparr>vs_RequestedGB := g\<rparr>\<rparr>)\<lparr>sv_Status := sv_Status u\<rparr>) svs)
      = sharePVCs pn i svs"
proof -
  let ?f = "\<lambda>u. (v\<lparr>sv_Spec := (sv_Spec v)\<lparr>vs_RequestedGB := g\<rparr>\<rparr>)\<lparr>sv_Status := sv_Status u\<rparr>"
  let ?h = "\<lambda>u. u\<lparr>sv_Spec := (sv_Spec u)\<lparr>vs_RequestedGB := g\<rparr>\<rparr>"
  have "?f u = ?h u" if "u \<in> set svs" "sv_name u = sv_name v" for u
  proof -
    have "u = v" using distinct_map_inj [OF assms(1) that(1) assms(2) that(2)] .
    then show ?thesis by simp
  qed
  then have "upd_at sv_name (sv_name v) ?f svs = upd_at sv_name (sv_name v) ?h svs"
    by (simp add: upd_at_def)
  moreover have "onShare pn i (?h u) = onShare pn i u" for u by (simp add: onShare_def)
  ultimately show "shareVolumesGB pn i (upd_at sv_name (sv_name v) ?f svs)
      = shareVolumesGB pn i svs + (if onShare pn i v then g - vs_RequestedGB (sv_Spec v) else 0)"
    and "sharePVCs pn i (upd_at sv_name (sv_name v) ?f svs) = sharePVCs pn i svs"
    using sum_list_filter_upd_at [OF assms refl, of "onShare pn i" ?h "\<lambda>v. vs_RequestedGB (sv_Spec v)"]
      sum_list_filter_upd_at [OF assms refl, of "onShare pn i" ?h "\<lambda>v. 1"]
    by (simp_all add: shareVolumesGB_def sharePVCs_def)
qed

section \<open>The bookkeeping functions\<close>

lemma booked_names [simp]:
  "fp_Meta (updateShareAllocation i g p) = fp_Meta p" "fp_Spec (updateShareAllocation i g p) = fp_Spec p"
  "fp_Meta (updateShareDeallocation i g p) = fp_Meta p" "fp_Spec (updateShareDeallocation i g p) = fp_Spec p"
  "fp_Meta (chargeShare i g p) = fp_Meta p" "fp_Spec (chargeShare i g p) = fp_Spec p"
  by (simp_all add: updateShareAllocation_def updateShareDeallocation_def chargeShare_def Let_def)

lemma booked_ids [simp]:
  "map sh_ShareID (pool_shares (updateShareAllocation i g p)) = map sh_ShareID (pool_shares p)"
  "map sh_ShareID (pool_shares (updateShareDeallocation i g p)) = map sh_ShareID (pool_shares p)"
  "map sh_ShareID (pool_shares (chargeShare i g p)) = map sh_ShareID (pool_shares p)"
  by (simp_all add: updateShareAllocation_def updateShareDeallocation_def chargeShare_def Let_def map_upd_first)

lemma booked_id_set [simp]:
  "sh_ShareID ` set (pool_shares (updateShareAllocation i g p)) = sh_ShareID ` set (pool_shares p)"
  "sh_ShareID ` set (pool_shares (updateShareDeallocation i g p)) = sh_ShareID ` set (pool_shares p)"
  "sh_ShareID ` set (pool_shares (chargeShare i g p)) = sh_ShareID ` set (pool_shares p)"
  using booked_ids [of i g p] by (metis list.set_map)+

text \<open>
  One rule for the three functions: adding \<open>d\<close> to the allocated space of a recorded share and
  \<open>c\<close> to its count follows a recount that changed by \<open>d\<close> and \<open>c\<close> on that share only.
\<close>

lemma balanced_book:
  assumes b: "balanced svs sns p" and i: "i \<in> sh_ShareID ` set (pool_shares p)"
    and m: "fp_Meta p' = fp_Meta p"
    and st: "fp_Status p' = (fp_Status p)\<lparr>
        pt_Shares := upd_first sh_ShareID i
          (\<lambda>s. s\<lparr>sh_AllocatedGB := sh_AllocatedGB s + d, sh_PVCCount := sh_PVCCount s + c\<rparr>) (pool_shares p),
        pt_TotalAllocatedGB := pt_TotalAllocatedGB (fp_Status p) + d,
        pt_TotalPVCCount := pt_TotalPVCCount (fp_Status p) + c\<rparr>"
    and recount: "\<And>j. shareVolumesGB (pool_name p) j svs' + shareSnapshotsGB (pool_name p) j sns' =
        shareVolumesGB (pool_name p) j svs + shareSnapshotsGB (pool_name p) j sns + (if j = i then d else 0)"
      "\<And>j. sharePVCs (pool_name p) j svs' = sharePVCs (pool_name p) j svs + (if j = i then c else 0)"
  shows "balanced svs' sns' p'"
proof -
  let ?f = "\<lambda>s. s\<lparr>sh_AllocatedGB := sh_AllocatedGB s + d, sh_PVCCount := sh_PVCCount s + c\<rparr>"
  have d: "distinct (map sh_ShareID (pool_shares p))" using b by (simp add: balanced_def)
  have sh: "pool_shares p' = upd_at sh_ShareID i ?f (pool_shares p)"
    using st upd_first_eq_upd_at [OF d] by simp
  have "list_all (share_balanced (pool_name p) svs' sns') (upd_at sh_ShareID i ?f (pool_shares p))"
    using b recount by (auto simp: list_all_iff set_upd_at balanced_def share_balanced_def)
  moreover have "totals_balanced (fp_Status p')"
    using b i st sum_list_upd_first [of sh_AllocatedGB ?f d sh_ShareID i "pool_shares p"]
      sum_list_upd_first [of sh_PVCCount ?f c sh_ShareID i "pool_shares p"]
      map_upd_first [of sh_TotalGB ?f sh_ShareID i "pool_shares p"]
    by (simp add: balanced_def totals_balanced_def)
  ultimately show ?thesis
    using d sh m map_upd_at [of sh_ShareID ?f sh_ShareID i "pool_shares p"] by (simp add: balanced_def)
qed

lemma balanced_allocate:
  assumes "balanced svs sns p" and "i \<in> sh_ShareID ` set (pool_shares p)"
    and "onShare (pool_name p) i v" and "vs_RequestedGB (sv_Spec v) = g"
  shows "balanced (svs @ [v]) sns (updateShareAllocation i g p)"
proof (rule balanced_book [OF assms(1,2)])
  show "fp_Status (updateShareAllocation i g p) = (fp_Status p)\<lparr>
        pt_Shares := upd_first sh_ShareID i
          (\<lambda>s. s\<lparr>sh_AllocatedGB := sh_AllocatedGB s + g, sh_PVCCount := sh_PVCCount s + 1\<rparr>) (pool_shares p),
        pt_TotalAllocatedGB := pt_TotalAllocatedGB (fp_Status p) + g,
        pt_TotalPVCCount := pt_TotalPVCCount (fp_Status p) + 1\<rparr>"
    by (simp add: updateShareAllocation_def Let_def)
qed (use assms(3,4) in \<open>auto simp: onShare_def\<close>)

lemma balanced_deallocate:
  assumes "balanced svs sns p" and "vs_ShareID (sv_Spec v) \<in> sh_ShareID ` set (pool_shares p)"
    and "distinct (map sv_name svs)" and "v \<in> set svs"
    and "onShare (pool_name p) (vs_ShareID (sv_Spec v)) v"
  shows "balanced (filter (\<lambda>u. sv_name u \<noteq> sv_name v) svs) sns
    (updateShareDeallocation (vs_ShareID (sv_Spec v)) (vs_RequestedGB (sv_Spec v)) p)"
proof (rule balanced_book [OF assms(1,2)])
  show "fp_Status (updateShareDeallocation (vs_ShareID (sv_Spec v)) (vs_RequestedGB (sv_Spec v)) p) = (fp_Status p)\<lparr>
        pt_Shares := upd_first sh_ShareID (vs_ShareID (sv_Spec v))
          (\<lambda>s. s\<lparr>sh_AllocatedGB := sh_AllocatedGB s + - vs_RequestedGB (sv_Spec v), sh_PVCCount := sh_PVCCount s + - 1\<rparr>) (pool_shares p),
        pt_TotalAllocatedGB := pt_TotalAllocatedGB (fp_Status p) + - vs_RequestedGB (sv_Spec v),
        pt_TotalPVCCount := pt_TotalPVCCount (fp_Status p) + - 1\<rparr>"
    by (simp add: updateShareDeallocation_def Let_def)
qed (use assms(5) recount_remove [OF assms(3,4)] in \<open>auto simp: onShare_def\<close>)

lemma balanced_charge:
  assumes "balanced svs sns p" and "i \<in> sh_ShareID ` set (pool_shares p)"
    and "\<And>j. shareVolumesGB (pool_name p) j svs' + shareSnapshotsGB (pool_name p) j sns' =
        shareVolumesGB (pool_name p) j svs + shareSnapshotsGB (pool_name p) j sns + (if j = i then d else 0)"
    and "\<And>j. sharePVCs (pool_name p) j svs' = sharePVCs (pool_name p) j svs"
  shows "balanced svs' sns' (chargeShare i d p)"
proof (rule balanced_book [OF assms(1,2)])
  show "fp_Status (chargeShare i d p) = (fp_Status p)\<lparr>
        pt_Shares := upd_first sh_ShareID i
          (\<lambda>s. s\<lparr>sh_AllocatedGB := sh_AllocatedGB s + d, sh_PVCCount := sh_PVCCount s + 0\<rparr>) (pool_shares p),
        pt_TotalAllocatedGB := pt_TotalAllocatedGB (fp_Status p) + d,
        pt_TotalPVCCount := pt_TotalPVCCount (fp_Status p) + 0\<rparr>"
    by (simp add: chargeShare_def Let_def)
qed (use assms(3,4) in auto)

text \<open>A new, empty share.\<close>

lemma recount_unhoused:
  assumes "housed svs sns p" and "i \<notin> sh_ShareID ` set (pool_shares p)"
  shows "shareVolumesGB (pool_name p) i svs = 0" "sharePVCs (pool_name p) i svs = 0"
    "shareSnapshotsGB (pool_name p) i sns = 0"
proof -
  have "filter (onShare (pool_name p) i) svs = []" "filter (snapOnShare (pool_name p) i) sns = []"
    using assms by (auto simp: housed_def list_all_iff filter_empty_conv onShare_def snapOnShare_def)
  then show "shareVolumesGB (pool_name p) i svs = 0" "sharePVCs (pool_name p) i svs = 0"
    "shareSnapshotsGB (pool_name p) i sns = 0"
    by (simp_all add: shareVolumesGB_def sharePVCs_def shareSnapshotsGB_def)
qed

definition addShare :: "PoolShareStatus \<Rightarrow> FileSharePool \<Rightarrow> FileSharePool" where
  "addShare s p = p\<lparr>fp_Status := (fp_Status p)\<lparr>pt_Shares := pool_shares p @ [s],
     pt_ShareCount := int (length (pool_shares p @ [s])),
     pt_TotalCapacityGB := pt_TotalCapacityGB (fp_Status p) + sh_TotalGB s\<rparr>\<rparr>"

lemma books_addShare:
  assumes "books svs sns p" and "sh_ShareID s \<notin> sh_ShareID ` set (pool_shares p)"
    and "sh_AllocatedGB s = 0" and "sh_PVCCount s = 0"
  shows "books svs sns (addShare s p)"
  using assms recount_unhoused [of svs sns p "sh_ShareID s"]
  by (auto simp: books_defs addShare_def list_all_iff)

section \<open>The books of the other pools\<close>

lemma books_other_volume:
  assumes "books svs sns p" and "pool_name p \<noteq> pn"
    and "MatchingLabels poolLabelKey pn (om_Labels (sv_Meta v))" and "vs_PoolName (sv_Spec v) = pn"
  shows "books (svs @ [v]) sns p"
proof -
  have "\<not> MatchingLabels poolLabelKey (pool_name p) (om_Labels (sv_Meta v))"
    using assms(2,3) by (simp add: MatchingLabels_def)
  then show ?thesis using assms by (simp add: books_defs onShare_def list_all_iff)
qed

lemma housed_subset:
  "housed svs sns p \<Longrightarrow> set svs' \<subseteq> set svs \<Longrightarrow> set sns' \<subseteq> set sns \<Longrightarrow> housed svs' sns' p"
  by (auto simp: housed_def list_all_iff)

section \<open>Capacity\<close>

lemma withinCapacity_allocate:
  assumes "withinCapacity p"
    and "\<forall>s \<in> set (pool_shares p). sh_ShareID s = i \<longrightarrow> sh_AllocatedGB s + g \<le> chargeableGB p s"
  shows "withinCapacity (updateShareAllocation i g p)" and "withinCapacity (chargeShare i g p)"
  using assms
  by (auto simp: withinCapacity_def chargeableGB_def list_all_iff updateShareAllocation_def chargeShare_def Let_def
      dest!: set_upd_first)

lemma withinCapacity_deallocate:
  "withinCapacity p \<Longrightarrow> 0 \<le> g \<Longrightarrow> withinCapacity (updateShareDeallocation i g p)"
  by (fastforce simp: withinCapacity_def chargeableGB_def list_all_iff updateShareDeallocation_def Let_def dest!: set_upd_first)

end
