(* ===== verification/Manager_Books.thy ===== *)
theory Manager_Books
  imports Share_Books
begin

text \<open>
  The volume operations keep the books. \<open>pool_env\<close> is what the manager relies on: the contract of
  the Kubernetes client, that VPC and share data calls leave the cluster's objects alone, and that
  VPC never returns a share some pool records. A write of a pool's status may fail; the code only logs it, and
  the books are off until the reconciler's recount. \<open>lost\<close> is any observation of the world that shows such
  a failure, and the lemmas on the books are for calls after which nothing was lost. With the
  parameter \<open>cap\<close> the invariant includes that no share is over-committed, for requests of sizes that are not
  negative.
\<close>

section \<open>The environment\<close>

definition env_step ::
  "('w \<Rightarrow> bool) \<Rightarrow> ('w \<Rightarrow> FileSharePool list) \<Rightarrow> ('w \<Rightarrow> SubVolume list) \<Rightarrow> ('w \<Rightarrow> Snapshot list) \<Rightarrow>
   ('w \<Rightarrow> string set) \<Rightarrow> 'w \<Rightarrow> 'w \<Rightarrow> bool" where
  "env_step ok pools subvols snaps issued w w' \<longleftrightarrow>
     (ok w \<longrightarrow> ok w') \<and> pools w' = pools w \<and> subvols w' = subvols w \<and> snaps w' = snaps w \<and> issued w \<subseteq> issued w'"

definition k8s_keeps :: "'w Client \<Rightarrow> ('w \<Rightarrow> string set) \<Rightarrow> bool" where
  "k8s_keeps k issued \<longleftrightarrow>
     (\<forall>p w. issued w \<subseteq> issued (snd (UpdateFileSharePoolStatus k p w))) \<and>
     (\<forall>p w. issued w \<subseteq> issued (snd (UpdateFileSharePool k p w))) \<and>
     (\<forall>v w. issued w \<subseteq> issued (snd (CreateSubVolume k v w))) \<and>
     (\<forall>v w. issued w \<subseteq> issued (snd (UpdateSubVolume k v w))) \<and>
     (\<forall>v w. issued w \<subseteq> issued (snd (UpdateSubVolumeStatus k v w))) \<and>
     (\<forall>n w. issued w \<subseteq> issued (snd (DeleteSubVolume k n w))) \<and>
     (\<forall>s w. issued w \<subseteq> issued (snd (CreateSnapshot k s w))) \<and>
     (\<forall>s w. issued w \<subseteq> issued (snd (UpdateSnapshot k s w))) \<and>
     (\<forall>s w. issued w \<subseteq> issued (snd (UpdateSnapshotStatus k s w))) \<and>
     (\<forall>n w. issued w \<subseteq> issued (snd (DeleteSnapshot k n w)))"

text \<open>Share data and NFS calls, when the manager has them.\<close>

definition data_keeps :: "('w \<Rightarrow> 'w \<Rightarrow> bool) \<Rightarrow> 'w ShareData option \<Rightarrow> bool" where
  "data_keeps R sd \<longleftrightarrow>
     (case sd of None \<Rightarrow> True
      | Some d \<Rightarrow> (\<forall>a b c w. R w (snd (sd_RemoveDir d a b c w)))
          \<and> (\<forall>a b c e f g w. R w (snd (sd_CopyDir d a b c e f g w)))
          \<and> (\<forall>a w. R w (snd (sd_Stop d a w))))"

definition nfs_keeps :: "('w \<Rightarrow> 'w \<Rightarrow> bool) \<Rightarrow> 'w NFSOperations option \<Rightarrow> bool" where
  "nfs_keeps R nfs \<longleftrightarrow>
     (case nfs of None \<Rightarrow> True
      | Some o' \<Rightarrow> (\<forall>a b w. R w (snd (nfs_MkdirAll o' a b w)))
          \<and> (\<forall>a b c w. R w (snd (nfs_Chown o' a b c w)))
          \<and> (\<forall>a b w. R w (snd (nfs_Chmod o' a b w))))"

definition recorded :: "FileSharePool list \<Rightarrow> string set" where
  "recorded ps = (\<Union>p \<in> set ps. sh_ShareID ` set (pool_shares p))"

text \<open>
  The books of a pool are in order and, with \<open>cap\<close>, no share is over-committed and no volume has a
  negative size.
\<close>

definition sound :: "bool \<Rightarrow> SubVolume list \<Rightarrow> Snapshot list \<Rightarrow> FileSharePool \<Rightarrow> bool" where
  "sound cap svs sns p \<longleftrightarrow>
     books svs sns p \<and> (cap \<longrightarrow> withinCapacity p \<and> list_all (\<lambda>v. 0 \<le> vs_RequestedGB (sv_Spec v)) svs)"

definition roomy :: "FileSharePool \<Rightarrow> string \<Rightarrow> int \<Rightarrow> bool" where
  "roomy p shareID g \<longleftrightarrow>
     list_all (\<lambda>s. sh_ShareID s = shareID \<longrightarrow> sh_AllocatedGB s + g \<le> chargeableGB p s) (pool_shares p)"

definition pool_inv ::
  "bool \<Rightarrow> ('w \<Rightarrow> bool) \<Rightarrow> ('w \<Rightarrow> FileSharePool list) \<Rightarrow> ('w \<Rightarrow> SubVolume list) \<Rightarrow> ('w \<Rightarrow> Snapshot list) \<Rightarrow>
   ('w \<Rightarrow> string set) \<Rightarrow> 'w \<Rightarrow> bool" where
  "pool_inv cap ok pools subvols snaps issued w \<longleftrightarrow>
     ok w \<and> recorded (pools w) \<subseteq> issued w \<and> (\<forall>p \<in> set (pools w). sound cap (subvols w) (snaps w) p)"

locale pool_env =
  k8s_api "mg_k8sClient m" ok pools subvols snaps +
  vpc: vpc_frame "mg_vpcClient m" "env_step ok pools subvols snaps issued"
  for m :: "('w, 'z) Manager_scheme" and cap :: bool and ok :: "'w \<Rightarrow> bool"
    and pools :: "'w \<Rightarrow> FileSharePool list" and subvols :: "'w \<Rightarrow> SubVolume list"
    and snaps :: "'w \<Rightarrow> Snapshot list" and issued :: "'w \<Rightarrow> string set" and lost :: "'w \<Rightarrow> bool" +
  assumes created: "CreateFileShare (mg_vpcClient m) input w = (Inr info, w') \<Longrightarrow>
      set (ci_ClaimedShareIDs input) \<subseteq> issued w \<Longrightarrow>
      si_ID info \<notin> set (ci_ClaimedShareIDs input) \<and> si_ID info \<in> issued w'"
    and writes: "k8s_keeps (mg_k8sClient m) issued"
    and data: "data_keeps (env_step ok pools subvols snaps issued) (mg_shareData m)"
    and nfs: "nfs_keeps (env_step ok pools subvols snaps issued) (mg_nfsOps m)"
    and status_lost: "ok w \<Longrightarrow> pool_name p \<in> pool_name ` set (pools w) \<Longrightarrow>
      UpdateFileSharePoolStatus (mg_k8sClient m) p w = (Some e, w') \<Longrightarrow> lost w'"

section \<open>Replacing one pool\<close>

lemma all_pools_update:
  assumes "distinct (map pool_name ps)" and "p0 \<in> set ps"
    and "fp_Meta p' = fp_Meta p0" and "fp_Spec p' = fp_Spec p0" and "P p'"
    and "\<And>p. p \<in> set ps \<Longrightarrow> pool_name p \<noteq> pool_name p0 \<Longrightarrow> P p"
    and "p \<in> set (upd_at pool_name (pool_name p0) (\<lambda>q. q\<lparr>fp_Status := fp_Status p'\<rparr>) ps)"
  shows "P p"
proof (cases "pool_name p = pool_name p0")
  case True
  then obtain q where q: "q \<in> set ps" "pool_name q = pool_name p0" "p = q\<lparr>fp_Status := fp_Status p'\<rparr>"
    using assms(7) by (auto simp: set_upd_at)
  then have "q = p0" using distinct_map_inj [OF assms(1) q(1) assms(2) q(2)] by simp
  then have "p = p'" using q(3) assms(3,4) by simp
  then show ?thesis using assms(5) by simp
next
  case False
  then have "p \<in> set ps" using assms(7) by (auto simp: set_upd_at)
  then show ?thesis using assms(6) False by blast
qed

lemma recorded_update:
  assumes "distinct (map pool_name ps)" and "p0 \<in> set ps"
    and "fp_Meta p' = fp_Meta p0" and "fp_Spec p' = fp_Spec p0"
    and "recorded ps \<subseteq> X" and "sh_ShareID ` set (pool_shares p') \<subseteq> X"
  shows "recorded (upd_at pool_name (pool_name p0) (\<lambda>q. q\<lparr>fp_Status := fp_Status p'\<rparr>) ps) \<subseteq> X"
proof -
  have "sh_ShareID ` set (pool_shares p) \<subseteq> X" if "p \<in> set ps" for p
    using that assms(5) by (auto simp: recorded_def)
  then show ?thesis
    using all_pools_update [OF assms(1-4), of "\<lambda>p. sh_ShareID ` set (pool_shares p) \<subseteq> X"] assms(6)
    by (auto simp: recorded_def)
qed

lemma books_status:
  assumes "map (\<lambda>v. (om_Labels (sv_Meta v), sv_Spec v)) svs = map (\<lambda>v. (om_Labels (sv_Meta v), sv_Spec v)) svs'"
  shows "books svs sns p = books svs' sns p"
  using recount_cong(1,2) [OF assms]
    recount_cong(3) [OF assms, of "\<lambda>l s. (MatchingLabels poolLabelKey (pool_name p) l \<longleftrightarrow> vs_PoolName s = pool_name p)
       \<and> (vs_PoolName s = pool_name p \<longrightarrow> vs_ShareID s \<in> sh_ShareID ` set (pool_shares p))"]
  by (simp add: books_def balanced_def housed_def share_balanced_def list_all_iff)

lemma sound_status:
  assumes "map (\<lambda>v. (om_Labels (sv_Meta v), sv_Spec v)) svs = map (\<lambda>v. (om_Labels (sv_Meta v), sv_Spec v)) svs'"
  shows "sound cap svs sns p = sound cap svs' sns p"
  unfolding sound_def books_status [OF assms] recount_cong(3) [OF assms, of "\<lambda>l x. 0 \<le> vs_RequestedGB x"] ..

section \<open>Steps that leave the objects alone\<close>

context pool_env
begin

abbreviation step :: "'w \<Rightarrow> 'w \<Rightarrow> bool" where
  "step \<equiv> env_step ok pools subvols snaps issued"

abbreviation inv :: "'w \<Rightarrow> bool" where
  "inv \<equiv> pool_inv cap ok pools subvols snaps issued"

lemma step_call: "f w = (r, w') \<Longrightarrow> step w (snd (f w)) \<Longrightarrow> step w w'"
  by simp

lemma inv_step: "step w w' \<Longrightarrow> inv w \<Longrightarrow> inv w'"
  by (auto simp: env_step_def pool_inv_def)

text \<open>The part of the invariant that also holds when a status write was lost.\<close>

abbreviation base :: "'w \<Rightarrow> bool" where
  "base w \<equiv> ok w \<and> recorded (pools w) \<subseteq> issued w"

lemma inv_base: "inv w \<Longrightarrow> base w"
  by (simp add: pool_inv_def)

lemma base_step: "step w w' \<Longrightarrow> base w \<Longrightarrow> base w'"
  by (auto simp: env_step_def)

lemmas newShareInput_step = vpc.newShareInput_frame

end

section \<open>Growing the pool\<close>

text \<open>What tryAutoExpand does: nothing to the pool, or one new share below the limit.\<close>

definition grown :: "FileSharePool \<Rightarrow> string \<Rightarrow> time \<Rightarrow> string set \<Rightarrow> string set \<Rightarrow> FileSharePool \<Rightarrow> ShareInfo \<Rightarrow> bool" where
  "grown pool tier now taken issued' pool' info \<longleftrightarrow>
     pool' = addShare (newPoolShareStatus info tier now) pool \<and> si_ID info \<notin> taken \<and> si_ID info \<in> issued'"

context pool_env
begin

lemma recordedShareIDs_set:
  assumes "ok w" "recordedShareIDs (mg_k8sClient m) w = Inr ids"
  shows "set ids = recorded (pools w)"
proof -
  obtain ps where "ListFileSharePools (mg_k8sClient m) w = Inr ps"
    and i: "ids = concat (map (\<lambda>p. map sh_ShareID (pool_shares p)) ps)"
    using assms(2) by (auto simp: recordedShareIDs_def split: sum.splits)
  then have "set ps = set (pools w)" using ListFileSharePools [OF assms(1)] by (metis set_mset_mset)
  then show ?thesis using i by (auto simp: recorded_def)
qed

lemma tryAutoExpand_cases:
  assumes "tryAutoExpand m pool g tier now w = (r, pool', m', w')" and "base w"
  shows "step w w' \<and> (\<exists>n. m' = m\<lparr>mg_network := n\<rparr>) \<and>
    ((\<exists>e. r = Inl e) \<and> pool' = pool \<or>
     (\<exists>info input w1. grown pool tier now (recorded (pools w)) (issued w') pool' info
        \<and> r = (if shareReady (newPoolShareStatus info tier now) then Inr (newPoolShareStatus info tier now)
               else Inl ErrPoolExpanding)
        \<and> CreateFileShare (mg_vpcClient m) input w1 = (Inr info, w') \<and> g \<le> tierShareGB (fp_Spec pool) tier))"
proof (cases "r = Inl ErrPoolExhausted \<and> pool' = pool \<and> m' = m \<and> w' = w \<or> (\<exists>e. r = Inl e) \<and> pool' = pool \<and> m' = m \<and> w' = w")
  case True
  have "m = m\<lparr>mg_network := mg_network m\<rparr>" by simp
  then show ?thesis using True vpc.refl [of w] by metis
next
  case False
  then obtain q sizeGB j q' q'' where t: "TierConfig (fp_Spec pool) tier = Inr (q, sizeGB, j, q', q'')" "g \<le> sizeGB"
    using assms(1) by (auto simp: tryAutoExpand_def split: if_splits sum.splits)
  obtain i n w1 where n: "newShareInput (mg_vpcClient m) (mg_network m) pool tier (mg_defaultResourceGroup m) w = (i, n, w1)"
    by (metis prod_cases3)
  have s1: "step w w1" using newShareInput_step [OF n] .
  note go = assms(1) [unfolded tryAutoExpand_def, simplified t(1) n, simplified]
  show ?thesis
  proof (cases i)
    case (Inl e)
    then show ?thesis using go False t s1 by (auto split: if_splits)
  next
    case (Inr input)
    have size: "tierShareGB (fp_Spec pool) tier = sizeGB" using t by (simp add: tierShareGB_def)
    show ?thesis
    proof (cases "recordedShareIDs (mg_k8sClient m) w1")
      case (Inl e)
      then show ?thesis using go False t s1 Inr by (auto split: if_splits)
    next
      case (Inr claimed)
      let ?input = "input\<lparr>ci_ClaimedShareIDs := claimed\<rparr>"
      obtain c w2 where c: "CreateFileShare (mg_vpcClient m) ?input w1 = (c, w2)" by fastforce
      have "step w1 w2" using vpc.CreateFileShare [of w1 ?input] c by simp
      then have s2: "step w w2" using vpc.trans s1 by blast
      have ok1: "base w1" using s1 assms(2) base_step by blast
      then have cl: "set claimed = recorded (pools w1)" "pools w1 = pools w"
        using recordedShareIDs_set [OF _ Inr] s1 by (auto simp: env_step_def)
      show ?thesis
      proof (cases c)
        case (Inl e)
        then show ?thesis using go False t s2 Inr \<open>i = Inr input\<close> c by (auto split: if_splits)
      next
        case (Inr info)
        have fresh: "si_ID info \<notin> recorded (pools w)" "si_ID info \<in> issued w2"
          using created [of ?input w1 info w2] c Inr cl ok1 by auto
        have "pool' = addShare (newPoolShareStatus info tier now) pool"
          "w' = w2" "m' = m\<lparr>mg_network := n\<rparr>"
          "r = (if shareReady (newPoolShareStatus info tier now) then Inr (newPoolShareStatus info tier now) else Inl ErrPoolExpanding)"
          using go False t \<open>recordedShareIDs (mg_k8sClient m) w1 = Inr claimed\<close> \<open>i = Inr input\<close> c Inr
          by (auto simp: addShare_def Let_def split: if_splits)
        then show ?thesis
          using s2 fresh c Inr size t(2)
          by (intro conjI disjI2 exI [of _ n] exI [of _ info] exI [of _ ?input] exI [of _ w1])
            (auto simp: grown_def)
      qed
    qed
  qed
qed

end

section \<open>Recording a volume\<close>

abbreviation sv_core :: "SubVolume \<Rightarrow> smap \<times> SubVolumeSpec" where
  "sv_core v \<equiv> (om_Labels (sv_Meta v), sv_Spec v)"

context pool_env
begin

lemma keeps:
  "issued w \<subseteq> issued (snd (UpdateFileSharePoolStatus (mg_k8sClient m) p w))"
  "issued w \<subseteq> issued (snd (CreateSubVolume (mg_k8sClient m) v w))"
  "issued w \<subseteq> issued (snd (UpdateSubVolume (mg_k8sClient m) v w))"
  "issued w \<subseteq> issued (snd (UpdateSubVolumeStatus (mg_k8sClient m) v w))"
  "issued w \<subseteq> issued (snd (DeleteSubVolume (mg_k8sClient m) n w))"
  using writes by (simp_all add: k8s_keeps_def)

lemma pool_status_effect:
  assumes "ok w" "UpdateFileSharePoolStatus (mg_k8sClient m) p w = (e, w')"
  shows "ok w' \<and> subvols w' = subvols w \<and> snaps w' = snaps w \<and> issued w \<subseteq> issued w' \<and>
    (pools w' = pools w \<and> e \<noteq> None \<or>
     pools w' = upd_at pool_name (pool_name p) (\<lambda>q. q\<lparr>fp_Status := fp_Status p\<rparr>) (pools w) \<and> e = None)"
  using UpdateFileSharePoolStatus [OF assms] keeps(1) [of w p] assms(2) by (auto split: option.splits)

lemma sv_status_effect:
  assumes "ok w" "UpdateSubVolumeStatus (mg_k8sClient m) v w = (e, w')"
  shows "ok w' \<and> pools w' = pools w \<and> snaps w' = snaps w \<and> issued w \<subseteq> issued w' \<and>
    map sv_core (subvols w') = map sv_core (subvols w) \<and> map sv_name (subvols w') = map sv_name (subvols w)"
  using UpdateSubVolumeStatus [OF assms] keeps(4) [of w v] assms(2)
  by (auto split: option.splits simp: upd_at_def)

lemma recordVolume_effect:
  assumes "recordVolume (mg_k8sClient m) pool sv i g w = (r, w')" and "ok w"
  shows "ok w' \<and> snaps w' = snaps w \<and> issued w \<subseteq> issued w' \<and>
    (case r of
       Some e \<Rightarrow> pools w' = pools w \<and> subvols w' = subvols w
     | None \<Rightarrow> map sv_core (subvols w') = map sv_core (subvols w @ [sv]) \<and>
         sv_name sv \<notin> sv_name ` set (subvols w) \<and> map sv_name (subvols w') = map sv_name (subvols w) @ [sv_name sv] \<and>
         (\<exists>e w2. pools w2 = pools w \<and> ok w2 \<and>
           UpdateFileSharePoolStatus (mg_k8sClient m) (updateShareAllocation i g pool) w2 = (e, w')))"
proof -
  obtain e w1 where c: "CreateSubVolume (mg_k8sClient m) sv w = (e, w1)" by fastforce
  obtain e2 w2 where s: "UpdateSubVolumeStatus (mg_k8sClient m) sv w1 = (e2, w2)" by fastforce
  obtain e3 w3 where p: "UpdateFileSharePoolStatus (mg_k8sClient m) (updateShareAllocation i g pool) w2 = (e3, w3)"
    by fastforce
  note C = CreateSubVolume [OF assms(2) c] and kc = keeps(2) [of w sv, unfolded c, simplified]
  show ?thesis
  proof (cases e)
    case None
    then obtain st where "subvols w1 = subvols w @ [sv\<lparr>sv_Status := st\<rparr>]" "sv_name sv \<notin> sv_name ` set (subvols w)"
      using C by auto
    moreover have "ok w1" "pools w1 = pools w" "snaps w1 = snaps w" using C None by auto
    moreover note sv_status_effect [OF \<open>ok w1\<close> s]
    moreover from this have "ok w2" by simp
    moreover note pool_status_effect [OF \<open>ok w2\<close> p]
    ultimately show ?thesis
      using assms(1) c s p None kc by (auto simp: recordVolume_def Let_def)
  next
    case (Some x)
    then show ?thesis using assms(1) c C kc by (auto simp: recordVolume_def)
  qed
qed

text \<open>A failed record changes nothing the invariant reads.\<close>

lemma recordVolume_failed:
  assumes "recordVolume (mg_k8sClient m) pool sv i g w = (Some e, w')" and "inv w"
  shows "inv w'" and "pools w' = pools w"
  using recordVolume_effect [OF assms(1)] assms(2) by (auto simp: pool_inv_def)

end

context pool_env
begin

lemma pool_status_written:
  assumes "ok w" "UpdateFileSharePoolStatus (mg_k8sClient m) p w = (e, w')"
    and "pool_name p \<in> pool_name ` set (pools w)" and "\<not> lost w'"
  shows "ok w' \<and> subvols w' = subvols w \<and> snaps w' = snaps w \<and> issued w \<subseteq> issued w' \<and>
    pools w' = upd_at pool_name (pool_name p) (\<lambda>q. q\<lparr>fp_Status := fp_Status p\<rparr>) (pools w)"
  using pool_status_effect [OF assms(1,2)] status_lost [OF assms(1,3)] assms(2,4) by (cases e) auto

text \<open>
  The objects changed and then the status of one pool is stored: the books are in order
  again when they are for that pool as stored and for the other pools as they were.
\<close>

lemma inv_change:
  assumes "inv w" and "pool0 \<in> set (pools w)"
    and "fp_Meta pool1 = fp_Meta pool0" "fp_Spec pool1 = fp_Spec pool0"
    and "sh_ShareID ` set (pool_shares pool1) \<subseteq> issued w2"
    and "ok w2" "pools w2 = pools w" "issued w \<subseteq> issued w2"
    and "sound cap (subvols w2) (snaps w2) pool1"
    and "\<And>p. p \<in> set (pools w) \<Longrightarrow> pool_name p \<noteq> pool_name pool0 \<Longrightarrow> sound cap (subvols w2) (snaps w2) p"
    and "UpdateFileSharePoolStatus (mg_k8sClient m) pool1 w2 = (e, w')" and "\<not> lost w'"
  shows "inv w'" and "subvols w' = subvols w2" and "snaps w' = snaps w2"
    and "pools w' = upd_at pool_name (pool_name pool0) (\<lambda>q. q\<lparr>fp_Status := fp_Status pool1\<rparr>) (pools w)"
proof -
  have dp: "distinct (map pool_name (pools w))" using pool_names assms(1) by (simp add: pool_inv_def)
  have S: "ok w' \<and> subvols w' = subvols w2 \<and> snaps w' = snaps w2 \<and> issued w2 \<subseteq> issued w' \<and>
    pools w' = upd_at pool_name (pool_name pool0) (\<lambda>q. q\<lparr>fp_Status := fp_Status pool1\<rparr>) (pools w)"
    using pool_status_written [OF assms(6,11) _ assms(12)] assms(2,3,7) by simp
  then show "subvols w' = subvols w2" "snaps w' = snaps w2"
    "pools w' = upd_at pool_name (pool_name pool0) (\<lambda>q. q\<lparr>fp_Status := fp_Status pool1\<rparr>) (pools w)"
    by blast+
  have "recorded (pools w) \<subseteq> issued w2" using assms(1,8) by (auto simp: pool_inv_def)
  then have "recorded (pools w') \<subseteq> issued w2"
    using S recorded_update [OF dp assms(2-4), of "issued w2"] assms(5) by simp
  then have "recorded (pools w') \<subseteq> issued w'" using S by blast
  moreover have "sound cap (subvols w2) (snaps w2) p" if "p \<in> set (pools w')" for p
    using all_pools_update [OF dp assms(2-4), of "sound cap (subvols w2) (snaps w2)" p] assms(9,10) S that by simp
  ultimately show "inv w'" using S by (simp add: pool_inv_def)
qed

text \<open>Storing the status of a pool whose books are in order.\<close>

lemma inv_store_pool:
  assumes "inv w" and "pool0 \<in> set (pools w)"
    and "fp_Meta pool1 = fp_Meta pool0" "fp_Spec pool1 = fp_Spec pool0"
    and "sound cap (subvols w) (snaps w) pool1" and "sh_ShareID ` set (pool_shares pool1) \<subseteq> issued w"
    and "UpdateFileSharePoolStatus (mg_k8sClient m) pool1 w = (e, w')" and "\<not> lost w'"
  shows "inv w'" and "pools w' = upd_at pool_name (pool_name pool0) (\<lambda>q. q\<lparr>fp_Status := fp_Status pool1\<rparr>) (pools w)"
  using inv_change(1,4) [OF assms(1-4,6) _ refl subset_refl assms(5) _ assms(7,8)] assms(1)
  by (auto simp: pool_inv_def)

lemma recordVolume_inv:
  assumes "recordVolume (mg_k8sClient m) pool1 sv i g w = (None, w')" and "inv w"
    and "pool0 \<in> set (pools w)" and "fp_Meta pool1 = fp_Meta pool0" "fp_Spec pool1 = fp_Spec pool0"
    and "sound cap (subvols w) (snaps w) pool1" and "sh_ShareID ` set (pool_shares pool1) \<subseteq> issued w"
    and "i \<in> sh_ShareID ` set (pool_shares pool1)"
    and "MatchingLabels poolLabelKey (pool_name pool0) (om_Labels (sv_Meta sv))"
    and "vs_PoolName (sv_Spec sv) = pool_name pool0" "vs_ShareID (sv_Spec sv) = i" "vs_RequestedGB (sv_Spec sv) = g"
    and "cap \<Longrightarrow> roomy pool1 i g \<and> 0 \<le> g" and "\<not> lost w'"
  shows "inv w'" and "pools w' = upd_at pool_name (pool_name pool0)
      (\<lambda>q. q\<lparr>fp_Status := fp_Status (updateShareAllocation i g pool1)\<rparr>) (pools w)"
proof -
  let ?p = "updateShareAllocation i g pool1"
  have ok: "ok w" using assms(2) by (simp add: pool_inv_def)
  note E = recordVolume_effect [OF assms(1) ok, simplified]
  obtain e w2 where w2: "pools w2 = pools w" "ok w2" "UpdateFileSharePoolStatus (mg_k8sClient m) ?p w2 = (e, w')"
    using E by blast
  have S: "subvols w' = subvols w2 \<and> pools w' = upd_at pool_name (pool_name pool0) (\<lambda>q. q\<lparr>fp_Status := fp_Status ?p\<rparr>) (pools w)"
    using pool_status_written [OF w2(2,3) _ assms(14)] w2(1) assms(3,4) by simp
  then show "pools w' = upd_at pool_name (pool_name pool0) (\<lambda>q. q\<lparr>fp_Status := fp_Status ?p\<rparr>) (pools w)" by blast
  have new: "sound cap (subvols w @ [sv]) (snaps w) ?p"
    using assms(4,6,8-13) balanced_allocate [of "subvols w" "snaps w" pool1 i sv g]
      withinCapacity_allocate(1) [of pool1 i g]
    by (simp add: sound_def books_def housed_def onShare_def roomy_def list_all_iff)
  have other: "sound cap (subvols w @ [sv]) (snaps w) p" if "p \<in> set (pools w)" "pool_name p \<noteq> pool_name pool0" for p
    using that books_other_volume [of "subvols w" "snaps w" p "pool_name pool0" sv] assms(2,9,10,12,13)
    by (auto simp: pool_inv_def sound_def)
  have "sound cap (subvols w') (snaps w') p" if "p \<in> set (pools w')" for p
    using all_pools_update [OF pool_names [OF ok] assms(3), of ?p "sound cap (subvols w @ [sv]) (snaps w)" p]
      new other assms(4,5) S that E sound_status [of "subvols w'" "subvols w @ [sv]" cap "snaps w"] by simp
  moreover have "recorded (pools w') \<subseteq> issued w"
    using S recorded_update [OF pool_names [OF ok] assms(3), of ?p "issued w"] assms(2,4,5,7)
    by (simp add: pool_inv_def)
  ultimately show "inv w'" using E by (auto simp: pool_inv_def)
qed

end

section \<open>The share a volume goes to\<close>

text \<open>
  \<open>picked\<close>: the pool as the code holds it when a share has been picked. It is the stored pool, or
  the stored pool with one new share; it is sound, and the share is in it and has room for \<open>g\<close> GB.
\<close>

definition picked ::
  "bool \<Rightarrow> int \<Rightarrow> SubVolume list \<Rightarrow> Snapshot list \<Rightarrow> string set \<Rightarrow> FileSharePool \<Rightarrow> FileSharePool \<Rightarrow> string \<Rightarrow> bool" where
  "picked cap g svs sns iss pool0 pool1 shareID \<longleftrightarrow>
     fp_Meta pool1 = fp_Meta pool0 \<and> fp_Spec pool1 = fp_Spec pool0 \<and> sound cap svs sns pool1 \<and>
     (cap \<longrightarrow> roomy pool1 shareID g \<and> 0 \<le> g) \<and>
     sh_ShareID ` set (pool_shares pool1) \<subseteq> iss \<and> shareID \<in> sh_ShareID ` set (pool_shares pool1)"

lemma addShare_simps [simp]:
  "fp_Meta (addShare s p) = fp_Meta p" "fp_Spec (addShare s p) = fp_Spec p"
  "pool_shares (addShare s p) = pool_shares p @ [s]"
  by (simp_all add: addShare_def)

context pool_env
begin

lemma recorded_pool: "inv w \<Longrightarrow> p \<in> set (pools w) \<Longrightarrow> sh_ShareID ` set (pool_shares p) \<subseteq> issued w"
  by (auto simp: pool_inv_def recorded_def)

lemma picked_existing:
  "inv w \<Longrightarrow> p \<in> set (pools w) \<Longrightarrow> i < length (pool_shares p) \<Longrightarrow>
     fits g t (pool_shares p ! i) \<Longrightarrow> (cap \<Longrightarrow> 0 \<le> g) \<Longrightarrow> picked cap g (subvols w) (snaps w) (issued w) p p (sh_ShareID (pool_shares p ! i))"
proof -
  assume a: "inv w" "p \<in> set (pools w)" "i < length (pool_shares p)" "fits g t (pool_shares p ! i)"
    and z: "cap \<Longrightarrow> 0 \<le> g"
  then have b: "sound cap (subvols w) (snaps w) p" by (simp add: pool_inv_def)
  then have "distinct (map sh_ShareID (pool_shares p))" by (simp add: sound_def books_def balanced_def)
  then have "s = pool_shares p ! i" if "s \<in> set (pool_shares p)" "sh_ShareID s = sh_ShareID (pool_shares p ! i)" for s
    using that a(3) distinct_map_inj [of sh_ShareID "pool_shares p" s "pool_shares p ! i"] by simp
  moreover have "sh_AllocatedGB (pool_shares p ! i) + g \<le> chargeableGB p (pool_shares p ! i)"
    using a(4) by (auto simp: fits_def freeGB_def chargeableGB_def)
  ultimately have "roomy p (sh_ShareID (pool_shares p ! i)) g"
    unfolding roomy_def list_all_iff by metis
  then show ?thesis using recorded_pool [OF a(1,2)] a(3) b z by (auto simp: picked_def)
qed

lemma grown_books:
  assumes "inv w" "p \<in> set (pools w)" "step w w'"
    and "grown p tier now (recorded (pools w)) (issued w') p' info"
    and "cap \<Longrightarrow> 0 \<le> g \<and> g \<le> tierShareGB (fp_Spec p) tier"
  shows "picked cap g (subvols w') (snaps w') (issued w') p p' (si_ID info)"
proof -
  have "si_ID info \<notin> sh_ShareID ` set (pool_shares p)"
    using assms(2,4) by (auto simp: grown_def recorded_def)
  moreover from this have "books (subvols w) (snaps w) p'"
    using assms(1,2,4) books_addShare [of "subvols w" "snaps w" p "newPoolShareStatus info tier now"]
    by (simp add: grown_def pool_inv_def sound_def)
  moreover have "sound cap (subvols w) (snaps w) p" using assms(1,2) by (simp add: pool_inv_def)
  ultimately show ?thesis
    using assms(3-5) recorded_pool [OF assms(1,2)]
    by (auto simp: picked_def env_step_def grown_def sound_def withinCapacity_def chargeableGB_def roomy_def list_all_iff image_iff)
qed

lemma tryAutoExpand_picked:
  assumes "tryAutoExpand m pool g tier now w = (r, pool', m', w')" and "inv w" "pool \<in> set (pools w)"
    and "cap \<Longrightarrow> 0 \<le> g"
  shows "inv w' \<and> pool \<in> set (pools w') \<and> (\<exists>n. m' = m\<lparr>mg_network := n\<rparr>) \<and>
    fp_Meta pool' = fp_Meta pool \<and> fp_Spec pool' = fp_Spec pool \<and>
    sound cap (subvols w') (snaps w') pool' \<and> sh_ShareID ` set (pool_shares pool') \<subseteq> issued w' \<and>
    (\<forall>s. r = Inr s \<longrightarrow> picked cap g (subvols w') (snaps w') (issued w') pool pool' (sh_ShareID s))"
proof -
  note C = tryAutoExpand_cases [OF assms(1) inv_base [OF assms(2)]]
  then have s: "step w w'" by blast
  then have i: "inv w'" and p: "pool \<in> set (pools w')"
    using inv_step assms(2,3) by (auto simp: env_step_def)
  show ?thesis
  proof (cases "pool' = pool \<and> (\<exists>e. r = Inl e)")
    case True
    then show ?thesis using C i p recorded_pool [OF i p] by (auto simp: pool_inv_def)
  next
    case False
    then obtain info input w1 where g: "grown pool tier now (recorded (pools w)) (issued w') pool' info"
      and r: "r = (if shareReady (newPoolShareStatus info tier now) then Inr (newPoolShareStatus info tier now)
               else Inl ErrPoolExpanding)"
      and "g \<le> tierShareGB (fp_Spec pool) tier"
      using C by blast
    then have "cap \<Longrightarrow> 0 \<le> g \<and> g \<le> tierShareGB (fp_Spec pool) tier" using assms(4) by simp
    then show ?thesis
      using r grown_books [OF assms(2,3) s g] C i p by (auto simp: picked_def)
  qed
qed

lemma createSubDirectory_step:
  assumes "createSubDirectory nfsOps dir sub uid gid perms w = (e, w')" and "mg_nfsOps m = Some nfsOps"
  shows "step w w'"
proof -
  have "step x (snd (nfs_MkdirAll nfsOps p q x))" "step x (snd (nfs_Chown nfsOps p u v x))"
    "step x (snd (nfs_Chmod nfsOps p q x))" for x p q u v
    using nfs assms(2) by (simp_all add: nfs_keeps_def)
  note calls = this [THEN vpc.trans [rotated]]
  have "step w (snd (createSubDirectory nfsOps dir sub uid gid perms w))"
    unfolding createSubDirectory_def Let_def by (assumption | rule vpc.refl calls frame_rules [where R = step])+
  then show ?thesis using assms(1) by simp
qed

end

context pool_env
begin

text \<open>\<open>stored_as\<close>: the pool was replaced by the one that charges the share.\<close>

lemma recordVolume_picked:
  assumes "recordVolume (mg_k8sClient m) pool1 sv i g w = (r, w')" and "inv w" and "pool0 \<in> set (pools w)"
    and "picked cap g (subvols w) (snaps w) (issued w) pool0 pool1 i"
    and "MatchingLabels poolLabelKey (pool_name pool0) (om_Labels (sv_Meta sv))"
    and "vs_PoolName (sv_Spec sv) = pool_name pool0" "vs_ShareID (sv_Spec sv) = i" "vs_RequestedGB (sv_Spec sv) = g"
    and "\<not> lost w'"
  shows "inv w'"
  using assms recordVolume_failed(1) [of pool1 sv i g w _ w'] recordVolume_inv(1) [of pool1 sv i g w w' pool0]
  by (cases r) (auto simp: picked_def)

lemma placeVolume_inv:
  assumes "placeVolume m req pool1 share now w = (r, w')" and "inv w" and "pool0 \<in> set (pools w)"
    and "picked cap (rq_RequestedGB req) (subvols w) (snaps w) (issued w) pool0 pool1 (sh_ShareID share)" and "rq_PoolName req = pool_name pool0"
    and "\<not> lost w'"
  shows "inv w'"
proof -
  obtain uid gid perms where pm: "resolvePermissions req pool1 = (uid, gid, perms)" by (metis prod_cases3)
  obtain e w1 where d: "(case mg_nfsOps m of None \<Rightarrow> (None, w)
      | Some nfsOps \<Rightarrow> createSubDirectory nfsOps (mg_stagingBasePath m) (''/pvcs/'' @ rq_PVName req) uid gid perms w) = (e, w1)"
    by fastforce
  then have s: "step w w1"
    using vpc.refl createSubDirectory_step by (auto split: option.splits)
  then have i: "inv w1" "pool0 \<in> set (pools w1)"
    and pk: "picked cap (rq_RequestedGB req) (subvols w1) (snaps w1) (issued w1) pool0 pool1 (sh_ShareID share)"
    using assms(2-4) inv_step by (auto simp: env_step_def picked_def)
  define labels where "labels = [(poolLabelKey, rq_PoolName req), (shareLabelKey, sh_ShareID share)]"
  define sv where "sv = \<lparr>sv_Meta = newMeta (rq_PVName req)
      (if rq_RestorePending req then mput RestorePendingLabel ''true'' labels else labels),
      sv_Spec = newVolumeSpec req pool1 share (''/pvcs/'' @ rq_PVName req), sv_Status = newVolumeStatus ''Bound'' now\<rparr>"
  have l: "MatchingLabels poolLabelKey (pool_name pool0) (om_Labels (sv_Meta sv))"
    "vs_PoolName (sv_Spec sv) = pool_name pool0" "vs_ShareID (sv_Spec sv) = sh_ShareID share"
    "vs_RequestedGB (sv_Spec sv) = rq_RequestedGB req"
    using assms(5) pm
    by (auto simp: sv_def labels_def newMeta_def newVolumeSpec_def MatchingLabels_def map_of_mput label_keys)
  obtain e2 w2 where rv: "recordVolume (mg_k8sClient m) pool1 sv (sh_ShareID share) (rq_RequestedGB req) w1 = (e2, w2)"
    by fastforce
  have "w' = w1 \<or> w' = w2"
    using assms(1) pm d rv [unfolded sv_def labels_def]
    by (auto simp: placeVolume_def Let_def split: option.splits)
  then show ?thesis using i recordVolume_picked [OF rv i pk l] assms(6) by blast
qed

end

section \<open>The operations\<close>

lemma network_update:
  "mg_k8sClient (m\<lparr>mg_network := n\<rparr>) = mg_k8sClient m" "mg_nfsOps (m\<lparr>mg_network := n\<rparr>) = mg_nfsOps m"
  "mg_stagingBasePath (m\<lparr>mg_network := n\<rparr>) = mg_stagingBasePath m"
  by simp_all

lemma placeVolume_network: "placeVolume (m\<lparr>mg_network := n\<rparr>) = placeVolume m"
  by (intro ext) (simp only: placeVolume_def network_update)

context pool_env
begin

lemma got_pool: "inv w \<Longrightarrow> GetFileSharePool (mg_k8sClient m) n w = Inr p \<Longrightarrow> p \<in> set (pools w) \<and> pool_name p = n"
  using GetFileSharePool [of w n p] by (auto simp: pool_inv_def)

lemma Allocate_inv:
  assumes "Allocate m req now w = (r, m', w')" and "inv w" and "cap \<Longrightarrow> 0 \<le> rq_RequestedGB req"
    and "\<not> lost w'"
  shows "inv w'"
proof (cases "w' = w")
  case True
  then show ?thesis using assms(2) by simp
next
  case False
  then obtain pool where g: "GetFileSharePool (mg_k8sClient m) (rq_PoolName req) w = Inr pool"
    and n: "\<exists>e. GetSubVolume (mg_k8sClient m) (rq_PVName req) w = Inl e"
    using assms(1) by (auto simp: Allocate_def split: sum.splits if_splits)
  have p: "pool \<in> set (pools w)" "rq_PoolName req = pool_name pool" using got_pool [OF assms(2) g] by auto
  let ?sel = "selectShare (ps_AllocationStrategy (fp_Spec pool)) (pool_shares pool) (rq_RequestedGB req) (rq_Tier req)"
  note go = assms(1) [unfolded Allocate_def, simplified g, simplified]
  show ?thesis
  proof (cases ?sel)
    case (Inr i)
    then have pk: "picked cap (rq_RequestedGB req) (subvols w) (snaps w) (issued w) pool pool (sh_ShareID (pool_shares pool ! i))"
      using picked_existing [OF assms(2) p(1)] selectShare_fits assms(3) by blast
    have "\<exists>r. placeVolume m req pool (pool_shares pool ! i) now w = (r, w')"
      using go Inr n False by (auto split: if_splits prod.splits)
    then show ?thesis using placeVolume_inv [OF _ assms(2) p(1) pk p(2) assms(4)] by blast
  next
    case (Inl e)
    obtain r1 pool1 m1 w1 where t: "tryAutoExpand m pool (rq_RequestedGB req) (rq_Tier req) now w = (r1, pool1, m1, w1)"
      by (rule prod_cases4)
    note T = tryAutoExpand_picked [OF t assms(2) p(1) assms(3)]
    then obtain nw where m1: "m1 = m\<lparr>mg_network := nw\<rparr>" by blast
    show ?thesis
    proof (cases r1)
      case (Inl e1)
      obtain e2 w2 where u: "UpdateFileSharePoolStatus (mg_k8sClient m) pool1 w1 = (e2, w2)" by fastforce
      have "w' = w2" using go \<open>?sel = Inl e\<close> n False t Inl u by (auto split: if_splits)
      then show ?thesis using inv_store_pool(1) [OF _ _ _ _ _ _ u, of pool] T assms(4) by blast
    next
      case (Inr share)
      then have "\<exists>r. placeVolume m req pool1 share now w1 = (r, w')"
        using go \<open>?sel = Inl e\<close> n False t m1 by (auto simp: placeVolume_network split: if_splits prod.splits)
      then show ?thesis using placeVolume_inv [of req pool1 share now w1 _ w' pool] T Inr p(2) assms(4) by blast
    qed
  qed
qed

lemma pickShare_picked:
  assumes "pickShare m pool sel g tier now w = (r, pool1, m1, w1)" and "inv w" "pool \<in> set (pools w)"
    and "cap \<Longrightarrow> 0 \<le> g" and "\<And>i. sel = Inr i \<Longrightarrow> i < length (pool_shares pool) \<and> fits g tier (pool_shares pool ! i)"
  shows "inv w1 \<and> pool \<in> set (pools w1) \<and> (\<exists>n. m1 = m\<lparr>mg_network := n\<rparr>) \<and>
      (\<forall>s. r = Inr s \<longrightarrow> picked cap g (subvols w1) (snaps w1) (issued w1) pool pool1 (sh_ShareID s))"
proof (cases "sel = Inl ErrPoolExhausted")
  case True
  then show ?thesis using assms(1) tryAutoExpand_picked [OF _ assms(2-4)] by (auto simp: pickShare_def)
next
  case False
  have "m = m\<lparr>mg_network := mg_network m\<rparr>" by simp
  then show ?thesis
    using False assms picked_existing [OF assms(2,3)]
    by (auto simp: pickShare_def split: sum.splits if_splits intro: exI [of _ "mg_network m"])
qed

lemma reserveRestore_inv:
  assumes "reserveRestore m snapshotName req now w = (r, m', w')" and "inv w"
    and "cap \<Longrightarrow> 0 \<le> rq_RequestedGB req" and "\<not> lost w'"
  shows "inv w'"
proof (cases "GetFileSharePool (mg_k8sClient m) (rq_PoolName req) w")
  case (Inl e)
  then show ?thesis using assms by (auto simp: reserveRestore_def)
next
  case (Inr pool)
  have p: "pool \<in> set (pools w)" "rq_PoolName req = pool_name pool" using got_pool [OF assms(2) Inr] by auto
  let ?sel = "selectShare (ps_AllocationStrategy (fp_Spec pool)) (pool_shares pool) (rq_RequestedGB req) (rq_Tier req)"
  obtain r1 pool1 m1 w1 where t: "pickShare m pool ?sel (rq_RequestedGB req) (rq_Tier req) now w = (r1, pool1, m1, w1)"
    by (rule prod_cases4)
  have T: "inv w1 \<and> pool \<in> set (pools w1) \<and>
      (\<forall>s. r1 = Inr s \<longrightarrow> picked cap (rq_RequestedGB req) (subvols w1) (snaps w1) (issued w1) pool pool1 (sh_ShareID s))"
    using pickShare_picked [OF t assms(2) p(1) assms(3)] selectShare_fits by blast
  show ?thesis
  proof (cases "w' = w1")
    case True
    then show ?thesis using T by blast
  next
    case False
    obtain share where s: "r1 = Inr share"
      using assms(1) Inr t False by (cases r1) (auto simp: reserveRestore_def)
    define sv where "sv = \<lparr>sv_Meta = newMeta (rq_PVName req)
         [(poolLabelKey, rq_PoolName req), (shareLabelKey, sh_ShareID share), (restoreSnapshotLabel, snapshotName)],
       sv_Spec = newVolumeSpec req pool1 share (''/pvcs/'' @ rq_PVName req),
       sv_Status = newVolumeStatus ''Creating'' now\<rparr>"
    obtain e2 w2 where rv: "recordVolume (mg_k8sClient m) pool1 sv (sh_ShareID share) (rq_RequestedGB req) w1 = (e2, w2)"
      by fastforce
    have "w' = w2"
      using assms(1) Inr t False s rv [unfolded sv_def]
      by (auto simp: reserveRestore_def Let_def split: if_splits option.splits)
    moreover from this have "inv w2"
      using recordVolume_picked [OF rv, of pool] T s p(2) assms(4)
      by (auto simp: sv_def newMeta_def newVolumeSpec_def MatchingLabels_def split: prod.splits)
    ultimately show ?thesis by simp
  qed
qed

end

section \<open>Clones, deletions and resizing\<close>

context pool_env
begin

lemma CloneVolume_inv:
  assumes "CloneVolume m src req now w = Some (r, m', w')" and "inv w" and "cap \<Longrightarrow> 0 \<le> rq_RequestedGB req"
    and "\<not> lost w'"
  shows "inv w'"
proof (cases "w' = w")
  case True
  then show ?thesis using assms(2) by simp
next
  case False
  obtain e where n: "GetSubVolume (mg_k8sClient m) (rq_PVName req) w = Inl e"
    using assms(1) False by (auto simp: CloneVolume_def split: sum.splits if_splits)
  obtain a b pvName where v: "parseManagerVolumeID src = Inr (a, b, pvName)"
    using assms(1) False n by (auto simp: CloneVolume_def split: sum.splits)
  obtain source where so: "GetSubVolume (mg_k8sClient m) pvName w = Inr source"
    using assms(1) False n v by (auto simp: CloneVolume_def split: sum.splits)
  obtain pool where g: "GetFileSharePool (mg_k8sClient m) (rq_PoolName req) w = Inr pool"
    using assms(1) False n v so by (auto simp: CloneVolume_def split: sum.splits if_splits)
  have p: "pool \<in> set (pools w)" "rq_PoolName req = pool_name pool" using got_pool [OF assms(2) g] by auto
  let ?sel = "selectShareForClone (ps_AllocationStrategy (fp_Spec pool)) (pool_shares pool)
     (rq_RequestedGB req) (rq_Tier req) (vs_ShareID (sv_Spec source))"
  obtain r1 pool1 m1 w1 where t: "pickShare m pool ?sel (rq_RequestedGB req) (rq_Tier req) now w = (r1, pool1, m1, w1)"
    by (rule prod_cases4)
  have T: "inv w1 \<and> pool \<in> set (pools w1) \<and>
      (\<forall>s. r1 = Inr s \<longrightarrow> picked cap (rq_RequestedGB req) (subvols w1) (snaps w1) (issued w1) pool pool1 (sh_ShareID s))"
    using pickShare_picked [OF t assms(2) p(1) assms(3)] selectShareForClone_fits by blast
  show ?thesis
  proof (cases r1)
    case (Inl e1)
    then have "w' = w1"
      using assms(1) False n v so g t by (auto simp: CloneVolume_def split: if_splits)
    then show ?thesis using T by blast
  next
    case (Inr share)
    define sv where "sv = \<lparr>sv_Meta = newMeta (rq_PVName req)
         [(poolLabelKey, rq_PoolName req), (shareLabelKey, sh_ShareID share), (cloneSourceLabelKey, pvName)],
       sv_Spec = (newVolumeSpec req pool1 share (''/pvcs/'' @ rq_PVName req))
         \<lparr>vs_SourceVolume := pvName, vs_SourceShareID := vs_ShareID (sv_Spec source)\<rparr>,
       sv_Status = (newVolumeStatus ''Cloning'' now)
         \<lparr>vt_CloneStatus := ''Pending'',
           vt_CloneProgress := Some \<lparr>cp_BytesCopied = 0,
             cp_TotalBytes = wrap64 (vs_RequestedGB (sv_Spec source) * 2 ^ 30),
             cp_StartedAt = None, cp_CompletedAt = None, cp_Error = ''''\<rparr>\<rparr>\<rparr>"
    obtain e2 w2 where rv: "recordVolume (mg_k8sClient m) pool1 sv (sh_ShareID share) (rq_RequestedGB req) w1 = (e2, w2)"
      by fastforce
    have "w' = w2"
      using assms(1) n v so g t Inr rv [unfolded sv_def] False
      by (auto simp: CloneVolume_def Let_def split: if_splits option.splits)
    moreover from this have "inv w2"
      using recordVolume_picked [OF rv, of pool] T Inr p(2) assms(4)
      by (auto simp: sv_def newMeta_def newVolumeSpec_def MatchingLabels_def split: prod.splits)
    ultimately show ?thesis by simp
  qed
qed

lemma removeVolumeFolder_step: "removeVolumeFolder m sv w = (e, w') \<Longrightarrow> step w w'"
proof -
  assume r: "removeVolumeFolder m sv w = (e, w')"
  show "step w w'"
  proof (cases "mg_shareData m")
    case None
    then show ?thesis using r vpc.refl by (simp add: removeVolumeFolder_def)
  next
    case (Some d)
    then have "step x (snd (sd_RemoveDir d a b c x))" "step x (snd (sd_Stop d a x))" for a b c x
      using data by (simp_all add: data_keeps_def)
    note calls = this [THEN vpc.trans [rotated]]
    have "step w (snd (removeVolumeFolder m sv w))"
      unfolding removeVolumeFolder_def Some option.case
      by (assumption | rule vpc.refl calls frame_rules [where R = step])+
    then show ?thesis using r by simp
  qed
qed

text \<open>A volume the API server holds: it is in the list, and its pool's books house it.\<close>

lemma got_volume:
  assumes "inv w" "GetSubVolume (mg_k8sClient m) n w = Inr sv"
    and "GetFileSharePool (mg_k8sClient m) (vs_PoolName (sv_Spec sv)) w = Inr pool"
  shows "sv \<in> set (subvols w)" "sv_name sv = n" "pool \<in> set (pools w)"
    "vs_ShareID (sv_Spec sv) \<in> sh_ShareID ` set (pool_shares pool)"
    "onShare (pool_name pool) (vs_ShareID (sv_Spec sv)) sv" "sound cap (subvols w) (snaps w) pool"
    "vs_PoolName (sv_Spec sv) = pool_name pool"
proof -
  show v: "sv \<in> set (subvols w)" "sv_name sv = n"
    using GetSubVolume [of w n sv] assms(1,2) by (auto simp: pool_inv_def)
  show p: "pool \<in> set (pools w)" and pn: "vs_PoolName (sv_Spec sv) = pool_name pool"
    using got_pool [OF assms(1,3)] by auto
  show b: "sound cap (subvols w) (snaps w) pool" using assms(1) p by (simp add: pool_inv_def)
  then show "vs_ShareID (sv_Spec sv) \<in> sh_ShareID ` set (pool_shares pool)"
    "onShare (pool_name pool) (vs_ShareID (sv_Spec sv)) sv"
    using v pn by (auto simp: sound_def books_def housed_def list_all_iff onShare_def)
qed

lemma sv_distinct: "inv w \<Longrightarrow> distinct (map sv_name (subvols w))"
  using sv_names by (simp add: pool_inv_def)

lemma Deallocate_effect:
  assumes "Deallocate m n w = (r, w')" and "inv w" and "\<not> lost w'"
  shows "inv w' \<and> (case r of Some _ \<Rightarrow> subvols w' = subvols w
     | None \<Rightarrow> subvols w' = filter (\<lambda>v. sv_name v \<noteq> n) (subvols w))"
proof (cases "\<exists>sv pool. GetSubVolume (mg_k8sClient m) n w = Inr sv \<and>
    GetFileSharePool (mg_k8sClient m) (vs_PoolName (sv_Spec sv)) w = Inr pool")
  case False
  then have "w' = w \<and> r \<noteq> None" using assms(1) by (auto simp: Deallocate_def split: sum.splits)
  then show ?thesis using assms(2) by (auto split: option.splits)
next
  case True
  then obtain sv pool where sv: "GetSubVolume (mg_k8sClient m) n w = Inr sv"
    and pool: "GetFileSharePool (mg_k8sClient m) (vs_PoolName (sv_Spec sv)) w = Inr pool" by blast
  note V = got_volume [OF assms(2) sv pool]
  obtain e1 w1 where f: "removeVolumeFolder m sv w = (e1, w1)" by fastforce
  have s1: "step w w1" by (rule removeVolumeFolder_step [OF f])
  then have i1: "inv w1" "subvols w1 = subvols w" "snaps w1 = snaps w" "pools w1 = pools w"
    using inv_step [OF s1 assms(2)] by (auto simp: env_step_def)
  obtain e2 w2 where d: "DeleteSubVolume (mg_k8sClient m) n w1 = (e2, w2)" by fastforce
  have ok1: "ok w1" using i1 by (simp add: pool_inv_def)
  note D = DeleteSubVolume [OF ok1 d]
  have k: "issued w1 \<subseteq> issued w2" using keeps(5) [of w1 n] d by simp
  let ?p = "updateShareDeallocation (vs_ShareID (sv_Spec sv)) (vs_RequestedGB (sv_Spec sv)) pool"
  obtain e3 w3 where u: "UpdateFileSharePoolStatus (mg_k8sClient m) ?p w2 = (e3, w3)" by fastforce
  show ?thesis
  proof (cases e1)
    case (Some e)
    then have "w' = w1 \<and> r = Some e" using assms(1) sv pool f by (simp add: Deallocate_def)
    then show ?thesis using i1 by simp
  next
    case e1: None
    show ?thesis
    proof (cases e2)
      case (Some e)
      then have "w' = w2 \<and> r = Some (ErrK8s e)" using assms(1) sv pool f e1 d by (simp add: Deallocate_def)
      then show ?thesis using D Some i1 k by (auto simp: pool_inv_def)
    next
      case None
      have w': "w' = w3 \<and> r = None" using assms(1) sv pool f e1 d None u by (simp add: Deallocate_def)
      let ?svs = "filter (\<lambda>v. sv_name v \<noteq> n) (subvols w)"
      have D': "ok w2" "pools w2 = pools w" "snaps w2 = snaps w" "subvols w2 = ?svs" using D None i1 by auto
      have new: "sound cap ?svs (snaps w) ?p"
        using V balanced_deallocate [of "subvols w" "snaps w" pool sv] sv_distinct [OF assms(2)]
          housed_subset [of "subvols w" "snaps w" pool ?svs "snaps w"]
          withinCapacity_deallocate [of pool "vs_RequestedGB (sv_Spec sv)" "vs_ShareID (sv_Spec sv)"]
        by (auto simp: sound_def books_def housed_def list_all_iff)
      have other: "sound cap ?svs (snaps w) p" if "p \<in> set (pools w)" "pool_name p \<noteq> pool_name pool" for p
        using that assms(2) V(2,5) recount_remove [OF sv_distinct [OF assms(2)] V(1)]
          housed_subset [of "subvols w" "snaps w" p ?svs "snaps w"]
        by (auto simp: sound_def books_def balanced_def share_balanced_def pool_inv_def list_all_iff onShare_def MatchingLabels_def)
      have "issued w \<subseteq> issued w2" using k s1 by (auto simp: env_step_def)
      moreover from this have "sh_ShareID ` set (pool_shares ?p) \<subseteq> issued w2"
        using recorded_pool [OF assms(2) V(3)] by auto
      ultimately show ?thesis
        using inv_change(1,2) [OF assms(2) V(3) _ _ _ D'(1,2) _ _ _ u] new other w' D' assms(3) by simp
    qed
  qed
qed

end

context pool_env
begin

lemma Expand_effect:
  assumes "Expand m n g w = (r, w')" and "inv w" and "\<not> lost w'"
  shows "inv w' \<and> (w' = w \<or> map sv_name (subvols w') = map sv_name (subvols w))"
proof (cases "w' = w")
  case True
  then show ?thesis using assms(2) by simp
next
  case False
  then obtain sv pool share where sv: "GetSubVolume (mg_k8sClient m) n w = Inr sv"
    and pool: "GetFileSharePool (mg_k8sClient m) (vs_PoolName (sv_Spec sv)) w = Inr pool"
    and share: "find (\<lambda>s. sh_ShareID s = vs_ShareID (sv_Spec sv)) (pool_shares pool) = Some share"
    and room: "g - vs_RequestedGB (sv_Spec sv) \<le> freeGB share" "g > vs_RequestedGB (sv_Spec sv)"
    using assms(1) by (auto simp: Expand_def Let_def split: sum.splits if_splits option.splits)
  note V = got_volume [OF assms(2) sv pool]
  let ?sv = "sv\<lparr>sv_Spec := (sv_Spec sv)\<lparr>vs_RequestedGB := g\<rparr>\<rparr>"
  let ?i = "vs_ShareID (sv_Spec sv)" and ?d = "g - vs_RequestedGB (sv_Spec sv)"
  let ?p = "chargeShare ?i ?d pool"
  obtain e1 w1 where u: "UpdateSubVolume (mg_k8sClient m) ?sv w = (e1, w1)" by fastforce
  have ok: "ok w" using assms(2) by (simp add: pool_inv_def)
  note U = UpdateSubVolume [OF ok u] and k = keeps(3) [of w ?sv, unfolded u, simplified]
  obtain e2 w2 where s: "UpdateFileSharePoolStatus (mg_k8sClient m) ?p w1 = (e2, w2)" by fastforce
  show ?thesis
  proof (cases e1)
    case (Some e)
    then have "w' = w1" using assms(1) sv pool share room u by (simp add: Expand_def Let_def)
    then show ?thesis using U Some assms(2) k by (auto simp: pool_inv_def)
  next
    case None
    then have w': "w' = w2" using assms(1) sv pool share room u s by (simp add: Expand_def Let_def)
    let ?svs = "upd_at sv_name (sv_name sv) (\<lambda>u. ?sv\<lparr>sv_Status := sv_Status u\<rparr>) (subvols w)"
    have D: "ok w1" "pools w1 = pools w" "snaps w1 = snaps w" "subvols w1 = ?svs" using U None by auto
    note R = recount_resize [OF sv_distinct [OF assms(2)] V(1), of _ _ g]
    have nm: "map sv_name ?svs = map sv_name (subvols w)" by (auto simp: upd_at_def)
    have house: "housed ?svs (snaps w) p" if "housed (subvols w) (snaps w) p" for p
      using that V(1) by (fastforce simp: housed_def list_all_iff set_upd_at)
    have bal: "balanced ?svs (snaps w) ?p"
      using balanced_charge [of "subvols w" "snaps w" pool ?i ?svs "snaps w" ?d] V(4,5,6) R
      by (auto simp: sound_def books_def onShare_def)
    have "share \<in> set (pool_shares pool)" "sh_ShareID share = ?i" using find_SomeD [OF share] by auto
    moreover have "distinct (map sh_ShareID (pool_shares pool))" using V(6) by (simp add: sound_def books_def balanced_def)
    ultimately have "\<forall>s \<in> set (pool_shares pool). sh_ShareID s = ?i \<longrightarrow> sh_AllocatedGB s + ?d \<le> chargeableGB pool s"
      using room(1) distinct_map_inj [of sh_ShareID "pool_shares pool" _ share]
      by (fastforce simp: freeGB_def chargeableGB_def le_max_iff_disj)
    then have fit: "cap \<Longrightarrow> withinCapacity ?p"
      using V(6) withinCapacity_allocate(2) [of pool ?i ?d] by (simp add: sound_def)
    have size: "cap \<Longrightarrow> list_all (\<lambda>v. 0 \<le> vs_RequestedGB (sv_Spec v)) ?svs"
      using V(1,6) room(2) by (fastforce simp: sound_def list_all_iff set_upd_at)
    have new: "sound cap ?svs (snaps w) ?p"
      using bal house [of pool] V(6) fit size by (auto simp: sound_def books_def housed_def)
    have other: "sound cap ?svs (snaps w) p" if "p \<in> set (pools w)" "pool_name p \<noteq> pool_name pool" for p
    proof -
      have "\<not> onShare (pool_name p) j sv" for j
        using V(5) that(2) by (auto simp: onShare_def MatchingLabels_def)
      moreover have "sound cap (subvols w) (snaps w) p" using assms(2) that(1) by (simp add: pool_inv_def)
      ultimately show ?thesis
        using R house [of p] size by (simp add: sound_def books_def balanced_def share_balanced_def list_all_iff)
    qed
    have "sh_ShareID ` set (pool_shares ?p) \<subseteq> issued w1"
      using recorded_pool [OF assms(2) V(3)] k by auto
    then show ?thesis
      using inv_change(1,2) [OF assms(2) V(3) _ _ _ D(1,2) k _ _ s] new other w' D nm assms(3) by simp
  qed
qed

end

section \<open>The environment in memory\<close>

text \<open>
  The API server and the VPC client in memory, with share data calls that succeed at once. Any
  write to the API server may fail, and the server notes the status writes that do.
\<close>

definition mem_data :: "('a fakevpc_scheme) ShareData" where
  "mem_data = \<lparr>sd_RemoveDir = (\<lambda>key share path w. (Inr True, w)),
     sd_CopyDir = (\<lambda>key src srcPath dst dstPath owner w. (Inr True, w)),
     sd_Stop = (\<lambda>key w. (Inr True, w))\<rparr>"

definition mem_manager :: "ShareNetwork option \<Rightarrow> ('a fakevpc_scheme) Manager" where
  "mem_manager network = SetShareNetwork network (SetShareData (Some mem_data)
     (NewManager (realClient mem_cr) FakeVPCClient None ''/var/lib/pool''))"

lemma mem_manager_simps [simp]:
  "mg_k8sClient (mem_manager n) = realClient mem_cr" "mg_vpcClient (mem_manager n) = FakeVPCClient"
  "mg_nfsOps (mem_manager n) = None" "mg_shareData (mem_manager n) = Some mem_data"
  "mg_network (mem_manager n) = n" "mg_defaultResourceGroup (mem_manager n) = ''''"
  by (simp_all add: mem_manager_def SetShareNetwork_def SetShareData_def NewManager_def)

lemma fake_issued_store [simp]:
  "fake_issued (w\<lparr>st_pools := ps\<rparr>) = fake_issued w" "fake_issued (w\<lparr>st_subvols := vs\<rparr>) = fake_issued w"
  "fake_issued (w\<lparr>st_snaps := ns\<rparr>) = fake_issued w" "fake_issued (w\<lparr>st_faults := fs\<rparr>) = fake_issued w"
  "fake_issued (w\<lparr>st_lost := b\<rparr>) = fake_issued w"
  by (simp_all add: fake_issued_def)

lemma mem_write_keeps:
  assumes "\<And>xs w. f (put xs w) = f w" "\<And>fs w. f (w\<lparr>st_faults := fs\<rparr>) = f w"
  shows "f (snd (mem_write get put g w)) = f w"
  using assms by (auto simp: mem_write_def Let_def split: list.splits option.splits prod.splits)

lemma mem_keeps: "k8s_keeps (realClient mem_cr) fake_issued"
proof -
  have k: "fake_issued (snd (mem_write st_pools (\<lambda>xs w. w\<lparr>st_pools := xs\<rparr>) f w)) = fake_issued w"
    "fake_issued (snd (mem_write st_subvols (\<lambda>xs w. w\<lparr>st_subvols := xs\<rparr>) g w)) = fake_issued w"
    "fake_issued (snd (mem_write st_snaps (\<lambda>xs w. w\<lparr>st_snaps := xs\<rparr>) h w)) = fake_issued w"
    for f g h and w :: "'b fakevpc_scheme"
    by (rule mem_write_keeps; simp)+
  have l: "fake_issued (snd (note_lost x)) = fake_issued (snd x)" for x :: "kerr option \<times> 'b fakevpc_scheme"
    by (cases x) (simp add: note_lost_def)
  show ?thesis
    by (auto simp: l k8s_keeps_def realClient_def realClient_DeleteSubVolume_def realClient_DeleteSnapshot_def
        mem_cr_def mem_kind_def Let_def k split: sum.splits)
qed

interpretation mem_env: pool_env "mem_manager n" cap "store_ok strict" st_pools st_subvols st_snaps fake_issued st_lost
  for n cap strict
proof (intro pool_env.intro pool_env_axioms.intro, unfold mem_manager_simps)
  show "k8s_api (realClient mem_cr) (store_ok strict) st_pools st_subvols st_snaps" by unfold_locales
  show "vpc_frame FakeVPCClient (env_step (store_ok strict) st_pools st_subvols st_snaps fake_issued)"
    by (unfold_locales)
      (auto simp: env_step_def store_ok_def fake_issued_def fake_ops Let_def split: option.splits)
  show "k8s_keeps (realClient mem_cr) fake_issued" by (rule mem_keeps)
  show "data_keeps (env_step (store_ok strict) st_pools st_subvols st_snaps fake_issued) (Some mem_data)"
    by (simp add: data_keeps_def mem_data_def env_step_def)
  show "nfs_keeps (env_step (store_ok strict) st_pools st_subvols st_snaps fake_issued) None"
    by (simp add: nfs_keeps_def)
  show "si_ID info \<notin> set (ci_ClaimedShareIDs input) \<and> si_ID info \<in> fake_issued w'"
    if "CreateFileShare FakeVPCClient input w = (Inr info, w')" "set (ci_ClaimedShareIDs input) \<subseteq> fake_issued w"
    for input w info w'
    using fake_shares.created [OF that] by blast
  show "st_lost w'" if "UpdateFileSharePoolStatus (realClient mem_cr) p w = (Some e, w')" for p w e w'
    using that by (auto simp: realClient_def mem_cr_def mem_kind_def Let_def note_lost_def split: prod.splits)
qed

end
