(* ===== verification/Manager_Properties.thy ===== *)
theory Manager_Properties
  imports Manager_Books
begin

text \<open>
  What the manager's volume operations guarantee. \<open>volume_op\<close> is one critical section of the
  manager, with any request and any state of the network cache; the invariant of
  \<^theory_text>\<open>Manager_Books\<close> holds along every sequence of them in which no status write is lost. The other properties say what a successful
  call leaves behind, that a repeated call returns the volume of the first, and how the pool grows.
\<close>

section \<open>Sequences of operations\<close>


lemma pool_env_network:
  "pool_env m ok pools subvols snaps issued lost \<Longrightarrow> pool_env (SetShareNetwork n m) ok pools subvols snaps issued lost"
  by (simp add: pool_env_def pool_env_axioms_def SetShareNetwork_def)


section \<open>What a new volume is\<close>

text \<open>
  \<open>placed\<close>: the share of a new volume is one of the request's pool, or a new one that no pool had; the
  pool is stored with the share charged, unless that write was lost.
\<close>

definition charged :: "int \<Rightarrow> PoolShareStatus \<Rightarrow> PoolShareStatus" where
  "charged g s = s\<lparr>sh_AllocatedGB := sh_AllocatedGB s + g, sh_PVCCount := sh_PVCCount s + 1\<rparr>"

definition placed :: "('w \<Rightarrow> FileSharePool list) \<Rightarrow> ('w \<Rightarrow> bool) \<Rightarrow> AllocationRequest \<Rightarrow> 'w \<Rightarrow> 'w \<Rightarrow> PoolShareStatus \<Rightarrow> bool" where
  "placed pools lost req w w' share \<longleftrightarrow>
     (\<exists>pool0 pool. pool0 \<in> set (pools w) \<and> pool_name pool0 = rq_PoolName req
       \<and> (pool = pool0 \<and> share \<in> set (pool_shares pool0) \<or> pool = addShare share pool0 \<and> sh_ShareID share \<notin> recorded (pools w))
       \<and> (lost w' \<and> pools w' = pools w \<or>
          pools w' = upd_at pool_name (pool_name pool0)
            (\<lambda>q. q\<lparr>fp_Status := fp_Status (updateShareAllocation (sh_ShareID share) (rq_RequestedGB req) pool)\<rparr>) (pools w)))"

lemma updateShareAllocation_charges:
  assumes "distinct (map sh_ShareID (pool_shares p))" "s \<in> set (pool_shares p)"
  shows "charged g s \<in> set (pool_shares (updateShareAllocation (sh_ShareID s) g p))"
  using assms by (auto simp: updateShareAllocation_def Let_def upd_first_eq_upd_at set_upd_at charged_def)

lemma placed_charged:
  assumes "placed pools lost req w w' share" "\<not> lost w'"
    and "distinct (map pool_name (pools w))" "\<forall>p \<in> set (pools w). distinct (map sh_ShareID (pool_shares p))"
  shows "\<exists>p \<in> set (pools w'). pool_name p = rq_PoolName req \<and> charged (rq_RequestedGB req) share \<in> set (pool_shares p)"
proof -
  obtain pool0 pool where p: "pool0 \<in> set (pools w)" "pool_name pool0 = rq_PoolName req"
    "pool = pool0 \<and> share \<in> set (pool_shares pool0) \<or> pool = addShare share pool0 \<and> sh_ShareID share \<notin> recorded (pools w)"
    and new: "pools w' = upd_at pool_name (pool_name pool0)
      (\<lambda>q. q\<lparr>fp_Status := fp_Status (updateShareAllocation (sh_ShareID share) (rq_RequestedGB req) pool)\<rparr>) (pools w)"
    using assms(1,2) unfolding placed_def by blast
  let ?p = "updateShareAllocation (sh_ShareID share) (rq_RequestedGB req) pool"
  have "share \<in> set (pool_shares pool)" "distinct (map sh_ShareID (pool_shares pool))"
    using p assms(4) by (auto simp: recorded_def)
  then have "charged (rq_RequestedGB req) share \<in> set (pool_shares ?p)" by (rule updateShareAllocation_charges [rotated])
  moreover have "pool0\<lparr>fp_Status := fp_Status ?p\<rparr> \<in> set (pools w')"
    unfolding new using p(1) by (auto simp: upd_at_def)
  ultimately show ?thesis using p(2) by (intro bexI [of _ "pool0\<lparr>fp_Status := fp_Status ?p\<rparr>"]) simp_all
qed

context pool_env
begin

lemma placeVolume_result:
  assumes "placeVolume m req pool share now w = (Inr r, w')" and "ok w"
  shows "\<exists>sv. sv_name sv = rq_PVName req \<and> sv_Spec sv = newVolumeSpec req pool share (''/pvcs/'' @ rq_PVName req)
    \<and> r\<lparr>ar_MountTargets := [], ar_AccessibleZones := []\<rparr> = subVolumeAllocationResult sv
    \<and> sv_name sv \<notin> sv_name ` set (subvols w)
    \<and> map sv_core (subvols w') = map sv_core (subvols w @ [sv])
    \<and> map sv_name (subvols w') = map sv_name (subvols w @ [sv]) \<and> ok w' \<and> issued w \<subseteq> issued w'
    \<and> (\<exists>e w2. pools w2 = pools w \<and> ok w2 \<and> UpdateFileSharePoolStatus (mg_k8sClient m)
        (updateShareAllocation (sh_ShareID share) (rq_RequestedGB req) pool) w2 = (e, w'))"
proof -
  obtain uid gid perms where pm: "resolvePermissions req pool = (uid, gid, perms)" by (metis prod_cases3)
  obtain e w1 where d: "(case mg_nfsOps m of None \<Rightarrow> (None, w)
      | Some nfsOps \<Rightarrow> createSubDirectory nfsOps (mg_stagingBasePath m) (''/pvcs/'' @ rq_PVName req) uid gid perms w) = (e, w1)"
    by fastforce
  then have s: "step w w1"
    using vpc.refl createSubDirectory_step by (auto split: option.splits)
  define labels where "labels = [(poolLabelKey, rq_PoolName req), (shareLabelKey, sh_ShareID share)]"
  define sv where "sv = \<lparr>sv_Meta = newMeta (rq_PVName req)
      (if rq_RestorePending req then mput RestorePendingLabel ''true'' labels else labels),
      sv_Spec = newVolumeSpec req pool share (''/pvcs/'' @ rq_PVName req), sv_Status = newVolumeStatus ''Bound'' now\<rparr>"
  obtain e2 w2 where rv: "recordVolume (mg_k8sClient m) pool sv (sh_ShareID share) (rq_RequestedGB req) w1 = (e2, w2)"
    by fastforce
  have "e = None" "e2 = None" "w' = w2" "r\<lparr>ar_MountTargets := [], ar_AccessibleZones := []\<rparr> = subVolumeAllocationResult sv"
    using assms(1) pm d rv [unfolded sv_def labels_def]
    by (auto simp: placeVolume_def Let_def sv_def subVolumeAllocationResult_def newVolumeSpec_def split: option.splits)
  moreover have w1: "ok w1" "subvols w1 = subvols w" "pools w1 = pools w" "issued w \<subseteq> issued w1"
    using s assms(2) by (auto simp: env_step_def)
  moreover have "sv_name sv = rq_PVName req" by (simp add: sv_def newMeta_def)
  moreover have "sv_Spec sv = newVolumeSpec req pool share (''/pvcs/'' @ rq_PVName req)" by (simp add: sv_def)
  moreover note recordVolume_effect [OF rv w1(1)]
  ultimately show ?thesis by (intro exI [of _ sv]) auto
qed

text \<open>Storing the charged pool, which may be lost.\<close>

lemma placed_stored:
  assumes "base w" "pools w2 = pools w" "ok w2" "issued w \<subseteq> issued w'"
    and p: "pool0 \<in> set (pools w)" "pool_name pool0 = rq_PoolName req"
    and share: "pool = pool0 \<and> share \<in> set (pool_shares pool0) \<or> pool = addShare share pool0 \<and> sh_ShareID share \<notin> recorded (pools w)"
    and "sh_ShareID share \<in> issued w'"
    and u: "UpdateFileSharePoolStatus (mg_k8sClient m)
      (updateShareAllocation (sh_ShareID share) (rq_RequestedGB req) pool) w2 = (e, w')"
  shows "placed pools lost req w w' share" and "base w'"
proof -
  let ?p = "updateShareAllocation (sh_ShareID share) (rq_RequestedGB req) pool"
  have n: "fp_Meta ?p = fp_Meta pool0" "fp_Spec ?p = fp_Spec pool0"
    "sh_ShareID ` set (pool_shares ?p) = sh_ShareID ` set (pool_shares pool)"
    using share by auto
  have e: "lost w' \<and> pools w' = pools w \<or>
      pools w' = upd_at pool_name (pool_name pool0) (\<lambda>q. q\<lparr>fp_Status := fp_Status ?p\<rparr>) (pools w)"
    using pool_status_effect [OF assms(3) u] status_lost [OF assms(3), of ?p] u assms(2) n(1) p(1) by (cases e) auto
  then show "placed pools lost req w w' share" unfolding placed_def using p share by blast
  have "sh_ShareID ` set (pool_shares pool0) \<subseteq> issued w'" using assms(1,4) p(1) by (fastforce simp: recorded_def)
  then have "sh_ShareID ` set (pool_shares ?p) \<subseteq> issued w'" unfolding n(3) using share assms(8) by (auto simp: image_subset_iff)
  moreover have "recorded (pools w) \<subseteq> issued w'" using assms(1,4) by blast
  ultimately have "recorded (pools w') \<subseteq> issued w'"
    using e recorded_update [OF pool_names p(1) n(1,2), of "issued w'"] assms(1) by auto
  then show "base w'" using pool_status_effect [OF assms(3) u] by blast
qed

lemma Allocate_result:
  assumes "Allocate m req now w = (Inr r, m', w')" and "base w"
    and new: "\<forall>v. GetSubVolume (mg_k8sClient m) (rq_PVName req) w \<noteq> Inr v"
  shows "\<exists>sv pool share. sv_name sv = rq_PVName req
    \<and> sv_Spec sv = newVolumeSpec req pool share (''/pvcs/'' @ rq_PVName req)
    \<and> shareReady share \<and> sh_Tier share = rq_Tier req \<and> placed pools lost req w w' share
    \<and> (sh_ShareID share \<in> recorded (pools w) \<or> (\<exists>info input w1 w2.
        CreateFileShare (mg_vpcClient m) input w1 = (Inr info, w2) \<and> share = newPoolShareStatus info (rq_Tier req) now))
    \<and> r\<lparr>ar_MountTargets := [], ar_AccessibleZones := []\<rparr> = subVolumeAllocationResult sv
    \<and> sv_name sv \<notin> sv_name ` set (subvols w)
    \<and> map sv_core (subvols w') = map sv_core (subvols w @ [sv])
    \<and> map sv_name (subvols w') = map sv_name (subvols w @ [sv]) \<and> base w'"
proof -
  obtain pool where g: "GetFileSharePool (mg_k8sClient m) (rq_PoolName req) w = Inr pool"
    using assms(1) by (auto simp: Allocate_def split: sum.splits)
  obtain ex where n: "GetSubVolume (mg_k8sClient m) (rq_PVName req) w = Inl ex"
    using new by (cases "GetSubVolume (mg_k8sClient m) (rq_PVName req) w") auto
  have p: "pool \<in> set (pools w)" "pool_name pool = rq_PoolName req" using GetFileSharePool [OF _ g] assms(2) by auto
  let ?sel = "selectShare (ps_AllocationStrategy (fp_Spec pool)) (pool_shares pool) (rq_RequestedGB req) (rq_Tier req)"
  note go = assms(1) [unfolded Allocate_def, simplified g n, simplified]
  show ?thesis
  proof (cases ?sel)
    case (Inr i)
    let ?s = "pool_shares pool ! i"
    have f: "shareReady ?s \<and> sh_Tier ?s = rq_Tier req" and m: "?s \<in> set (pool_shares pool)"
      using Inr selectShare_fits by (auto simp: fits_def)
    have pv: "placeVolume m req pool ?s now w = (Inr r, w')"
      using go Inr by (auto split: if_splits prod.splits)
    have "sh_ShareID ?s \<in> recorded (pools w)" using m p(1) by (auto simp: recorded_def)
    moreover from this have "sh_ShareID ?s \<in> issued w" using assms(2) by blast
    ultimately show ?thesis using placeVolume_result [OF pv] f placed_stored [OF assms(2) _ _ _ p, of _ w' pool ?s] m assms(2) by blast
  next
    case (Inl e)
    obtain r1 pool1 m1 w1 where t: "tryAutoExpand m pool (rq_RequestedGB req) (rq_Tier req) now w = (r1, pool1, m1, w1)"
      by (rule prod_cases4)
    note C = tryAutoExpand_cases [OF t assms(2)]
    then obtain nw where m1: "m1 = m\<lparr>mg_network := nw\<rparr>" by blast
    obtain share where s: "r1 = Inr share" using go Inl t by (cases r1) (auto split: if_splits)
    then have f: "shareReady share" "sh_Tier share = rq_Tier req" "pool1 = addShare share pool"
      "sh_ShareID share \<notin> recorded (pools w)" "sh_ShareID share \<in> issued w1"
      "\<exists>info input w1 w2. CreateFileShare (mg_vpcClient m) input w1 = (Inr info, w2) \<and> share = newPoolShareStatus info (rq_Tier req) now"
      using C by (auto simp: grown_def split: if_splits)
    have pv: "placeVolume m req pool1 share now w1 = (Inr r, w')"
      using go Inl t m1 s by (auto simp: placeVolume_network split: if_splits prod.splits)
    have w1: "base w1" "pools w1 = pools w" "subvols w1 = subvols w" "issued w \<subseteq> issued w1"
      using C assms(2) by (auto simp: env_step_def)
    obtain sv e2 w2 where R: "sv_name sv = rq_PVName req" "sv_Spec sv = newVolumeSpec req pool1 share (''/pvcs/'' @ rq_PVName req)"
      "r\<lparr>ar_MountTargets := [], ar_AccessibleZones := []\<rparr> = subVolumeAllocationResult sv"
      "sv_name sv \<notin> sv_name ` set (subvols w)" "map sv_core (subvols w') = map sv_core (subvols w @ [sv])"
      "map sv_name (subvols w') = map sv_name (subvols w @ [sv])"
      and i: "issued w1 \<subseteq> issued w'" and w2: "pools w2 = pools w" "ok w2" "UpdateFileSharePoolStatus (mg_k8sClient m)
        (updateShareAllocation (sh_ShareID share) (rq_RequestedGB req) pool1) w2 = (e2, w')"
      using placeVolume_result [OF pv conjunct1 [OF w1(1)], unfolded w1(2,3)] by blast
    have "placed pools lost req w w' share" "base w'"
      by (rule placed_stored [OF assms(2) w2(1,2) _ p _ _ w2(3)]; use f i w1(4) in blast)+
    then show ?thesis using R f by blast
  qed
qed

lemma new_volume:
  assumes "map sv_core (subvols w') = map sv_core (subvols w @ [sv])"
    and "map sv_name (subvols w') = map sv_name (subvols w @ [sv])"
    and "ok w'" "v \<in> set (subvols w')" "sv_name v = sv_name sv"
  shows "sv_Spec v = sv_Spec sv"
proof -
  obtain xs y where xs: "subvols w' = xs @ [y]"
    using assms(1) by (cases "subvols w'" rule: rev_cases) auto
  then have "sv_Spec y = sv_Spec sv" "sv_name y = sv_name sv" using assms(1,2) by auto
  then show ?thesis
    using distinct_map_inj [OF sv_names [OF assms(3)] assms(4), of y] xs assms(5) by simp
qed

text \<open>A second call with the same request, whatever manager it runs on.\<close>

lemma Allocate_again:
  assumes "Allocate m2 req now2 w' = (Inr r2, m2', w'')" and "mg_k8sClient m2 = mg_k8sClient m"
    and "rq_PVName req \<in> sv_name ` set (subvols w')"
    and "pool_env m2 ok pools subvols snaps issued lost" "base w'"
  shows "\<exists>v \<in> set (subvols w'). sv_name v = rq_PVName req \<and> r2 = subVolumeAllocationResult v \<and> w'' = w'"
proof (cases "GetSubVolume (mg_k8sClient m2) (rq_PVName req) w'")
  case (Inr v)
  then show ?thesis
    using assms(1,2,5) GetSubVolume [of w' "rq_PVName req" v] by (auto simp: Allocate_def split: sum.splits if_splits)
next
  case (Inl e)
  then show ?thesis
    using pool_env.Allocate_result [OF assms(4,1,5)] assms(3) by auto
qed

end

section \<open>A pool in memory\<close>

definition exampleSpec :: FileSharePoolSpec where
  "exampleSpec = \<lparr>ps_Zone = ''us-south-1'', ps_Profile = ''dp2'', ps_ShareSizeGB = 100, ps_IOPS = None, ps_MaxShares = 2,
     ps_InitialShares = 1, ps_AutoExpand = True, ps_ExpandThresholdPercent = 80, ps_AllocationStrategy = ''spread'',
     ps_EncryptionInTransit = False, ps_DefaultPermissions = ''0755'', ps_DefaultUID = None, ps_DefaultGID = None,
     ps_ResourceGroup = '''', ps_Tags = [], ps_SecurityGroupIDs = [''sg''], ps_MountOptions = [],
     ps_AccessorZones = [], ps_Tiers = [], ps_DrainShares = [], ps_GoldenImages = None\<rparr>"

definition examplePool :: FileSharePool where
  "examplePool = \<lparr>fp_Meta = newMeta ''p'' [], fp_Spec = exampleSpec,
     fp_Status = no_pool_status\<lparr>pt_Phase := ''Ready'',
       pt_Shares := [(exampleShare (fake_id 1) 0)\<lparr>sh_Tier := ''''\<rparr>], pt_ShareCount := 1, pt_TotalCapacityGB := 100\<rparr>\<rparr>"

definition exampleWorld :: fakevpc where
  "exampleWorld = \<lparr>st_pools = [examplePool], st_subvols = [], st_snaps = [], st_policies = [], st_restores = [],
     st_nodes = [], st_classes = [], st_faults = [], st_lost = False,
     fv_shares = [], fv_nextID = 1, fv_subnetZones = [(''subnet'', ''us-south-1'')], fv_securityGroups = [],
     fv_CreateErr = None, fv_GetErr = None, fv_ExpandErr = None, fv_DeleteErr = None, fv_CreateMountTargetErr = None,
     fv_failCreateAfter = 0, fv_failCreateAfterErr = None, fv_CreateCalls = 0, fv_GetCalls = 0, fv_ExpandCalls = 0,
     fv_DeleteCalls = 0, fv_CreateMountTargetCalls = 0, fv_GetSubnetZoneCalls = 0, fv_FindSecurityGroupCalls = 0,
     fv_LastCreateInput = None, fv_LastMountTargetInput = None, fv_now = 0\<rparr>"

definition exampleRequest :: "string \<Rightarrow> int \<Rightarrow> AllocationRequest" where
  "exampleRequest pvName sizeGB = \<lparr>rq_PVName = pvName, rq_PVCName = ''claim'', rq_PVCNamespace = ''default'',
     rq_PoolName = ''p'', rq_RequestedGB = sizeGB, rq_Zone = '''', rq_Tier = '''', rq_UID = None, rq_GID = None,
     rq_Permissions = '''', rq_RestorePending = False\<rparr>"

abbreviation exampleManager :: "fakevpc Manager" where
  "exampleManager \<equiv> mem_manager (Some (NewShareNetwork ''vpc'' [''subnet''] ''cluster''))"

lemma example_inv: "pool_inv True (store_ok strict) st_pools st_subvols st_snaps fake_issued exampleWorld"
  by (auto simp: pool_inv_def exampleWorld_def store_ok_def recorded_def examplePool_def exampleShare_def fake_issued_def
      sound_def books_defs withinCapacity_def chargeableGB_def shareVolumesGB_def shareSnapshotsGB_def sharePVCs_def no_pool_status_def)

lemma example_allocate:
  "(case Allocate exampleManager (exampleRequest ''v1'' 40) 7 exampleWorld of
      (Inr r, m', w') \<Rightarrow> ar_ShareID r = fake_id 1 \<and> map sv_name (st_subvols w') = [''v1'']
        \<and> map sh_AllocatedGB (pool_shares (hd (st_pools w'))) = [40] \<and> \<not> st_lost w' | _ \<Rightarrow> False)"
  by code_simp

lemma example_allocate_again:
  "(case Allocate exampleManager (exampleRequest ''v1'' 40) 7 exampleWorld of
      (Inr r, m', w') \<Rightarrow>
        (case Allocate exampleManager (exampleRequest ''v1'' 40) 8 w' of (Inr r2, _, _) \<Rightarrow> True | _ \<Rightarrow> False)
    | _ \<Rightarrow> False)"
  by code_simp

lemma example_new: "\<forall>v. GetSubVolume (mg_k8sClient exampleManager) (rq_PVName (exampleRequest ''v1'' 40)) exampleWorld \<noteq> Inr v"
  by (simp add: realClient_def mem_defs exampleWorld_def)

lemma example_manager: "SetShareNetwork (mg_network exampleManager) exampleManager = exampleManager"
  by (simp add: SetShareNetwork_def)

section \<open>Properties\<close>



text \<open>
  C2: a successful allocation of a volume that did not exist makes exactly one volume. It has the
  request's name, size and pool and lies at \<open>/pvcs/<name>\<close> on a share that is stable, has a mount target and is of
  the requested tier; the result describes it. The share is one of the pool that is asked for, or one that the
  VPC client has just created or adopted and no pool had, and the stored pool has it with the volume charged to it, unless the write of the pool's status
  was lost.
\<close>

theorem Allocate_new_volume:
  assumes "pool_env m ok pools subvols snaps issued lost" "pool_inv cap ok pools subvols snaps issued w"
    and "Allocate m req now w = (Inr r, m', w')" and "\<forall>v. GetSubVolume (mg_k8sClient m) (rq_PVName req) w \<noteq> Inr v"
  shows "\<exists>sv share. map sv_name (subvols w') = map sv_name (subvols w) @ [rq_PVName req]
    \<and> map sv_Spec (subvols w') = map sv_Spec (subvols w) @ [sv]
    \<and> vs_PoolName sv = rq_PoolName req \<and> vs_RequestedGB sv = rq_RequestedGB req
    \<and> vs_ShareID sv = sh_ShareID share \<and> shareReady share \<and> sh_Tier share = rq_Tier req
    \<and> ar_ShareID r = sh_ShareID share \<and> ar_MountTargetIP r = sh_MountTargetIP share
    \<and> vs_SubPath sv = ''/pvcs/'' @ rq_PVName req \<and> ar_SubPath r = vs_SubPath sv
    \<and> ((\<exists>p \<in> set (pools w). pool_name p = rq_PoolName req \<and> share \<in> set (pool_shares p))
       \<or> sh_ShareID share \<notin> recorded (pools w) \<and> (\<exists>info input w1 w2.
           CreateFileShare (mg_vpcClient m) input w1 = (Inr info, w2) \<and> share = newPoolShareStatus info (rq_Tier req) now))
    \<and> (lost w' \<or> (\<exists>p \<in> set (pools w'). pool_name p = rq_PoolName req \<and> charged (rq_RequestedGB req) share \<in> set (pool_shares p)))"
proof -
  have base: "ok w \<and> recorded (pools w) \<subseteq> issued w" using assms(2) by (simp add: pool_inv_def)
  obtain sv pool share where s: "sv_Spec sv = newVolumeSpec req pool share (''/pvcs/'' @ rq_PVName req)"
    "sv_name sv = rq_PVName req" "shareReady share" "sh_Tier share = rq_Tier req"
    "r\<lparr>ar_MountTargets := [], ar_AccessibleZones := []\<rparr> = subVolumeAllocationResult sv"
    "map sv_core (subvols w') = map sv_core (subvols w @ [sv])" "map sv_name (subvols w') = map sv_name (subvols w @ [sv])"
    and pl: "placed pools lost req w w' share" and mk: "sh_ShareID share \<in> recorded (pools w) \<or> (\<exists>info input w1 w2.
        CreateFileShare (mg_vpcClient m) input w1 = (Inr info, w2) \<and> share = newPoolShareStatus info (rq_Tier req) now)"
    using pool_env.Allocate_result [OF assms(1,3) base assms(4)] by blast
  have "map sv_Spec (subvols w') = map sv_Spec (subvols w) @ [sv_Spec sv]"
    using arg_cong [OF s(6), of "map snd"] by (simp add: comp_def)
  moreover have "ar_ShareID r = vs_ShareID (sv_Spec sv)" "ar_MountTargetIP r = vs_ShareMountTargetIP (sv_Spec sv)"
    "ar_SubPath r = vs_SubPath (sv_Spec sv)"
    using arg_cong [OF s(5), of ar_ShareID] arg_cong [OF s(5), of ar_MountTargetIP] arg_cong [OF s(5), of ar_SubPath]
    by (simp_all add: subVolumeAllocationResult_def)
  moreover have "(\<exists>p \<in> set (pools w). pool_name p = rq_PoolName req \<and> share \<in> set (pool_shares p)) \<or> sh_ShareID share \<notin> recorded (pools w)
      \<and> (\<exists>info input w1 w2. CreateFileShare (mg_vpcClient m) input w1 = (Inr info, w2) \<and> share = newPoolShareStatus info (rq_Tier req) now)"
    using pl mk unfolding placed_def by blast
  moreover have "distinct (map pool_name (pools w))"
    using k8s_api.pool_names [of "mg_k8sClient m" ok pools subvols snaps w] assms(1) base by (simp add: pool_env_def)
  then have "lost w' \<or> (\<exists>p \<in> set (pools w'). pool_name p = rq_PoolName req \<and> charged (rq_RequestedGB req) share \<in> set (pool_shares p))"
    using placed_charged [OF pl] assms(2) by (auto simp: pool_inv_def sound_def books_def balanced_def)
  ultimately show ?thesis
    using s(1-4,7) by (intro exI [of _ "sv_Spec sv"] exI [of _ share]) (auto simp: newVolumeSpec_def split: prod.splits)
qed

theorem Allocate_new_volume_witness:
  "\<exists>r m' w' p share. Allocate exampleManager (exampleRequest ''v1'' 40) 7 exampleWorld = (Inr r, m', w') \<and>
     map sv_name (st_subvols w') = [''v1''] \<and> ar_SubPath r = ''/pvcs/v1'' \<and>
     p \<in> set (st_pools w') \<and> charged 40 share \<in> set (pool_shares p) \<and> shareReady share"
proof -
  obtain r m' w' where a: "Allocate exampleManager (exampleRequest ''v1'' 40) 7 exampleWorld = (Inr r, m', w')" "\<not> st_lost w'"
    using example_allocate by (auto split: prod.splits sum.splits)
  from Allocate_new_volume [OF mem_env.pool_env_axioms example_inv a(1) example_new]
  obtain share p where "map sv_name (st_subvols w') = [''v1'']" "ar_SubPath r = ''/pvcs/v1''" "shareReady share"
    "p \<in> set (st_pools w')" "charged 40 share \<in> set (pool_shares p)"
    using a(2) by (auto simp: exampleWorld_def exampleRequest_def)
  then show ?thesis using a(1) by (intro exI conjI)
qed

text \<open>
  C3: allocation is idempotent up to the zones. When the same request succeeds a second time,
  the objects are left as they were and the result names the same share, address, path and owner; only the
  per-zone mount targets and the accessible zones of the first result are missing from it.
\<close>

theorem Allocate_idempotent:
  assumes "pool_env m ok pools subvols snaps issued lost" "pool_inv cap ok pools subvols snaps issued w"
    and "Allocate m req now w = (Inr r, m', w')" and "\<forall>v. GetSubVolume (mg_k8sClient m) (rq_PVName req) w \<noteq> Inr v"
    and "Allocate (SetShareNetwork n m) req now2 w' = (Inr r2, m2', w'')"
  shows "w'' = w' \<and> r2 = r\<lparr>ar_MountTargets := [], ar_AccessibleZones := []\<rparr>"
proof -
  have base: "ok w \<and> recorded (pools w) \<subseteq> issued w" using assms(2) by (simp add: pool_inv_def)
  obtain sv where s: "sv_name sv = rq_PVName req"
    "r\<lparr>ar_MountTargets := [], ar_AccessibleZones := []\<rparr> = subVolumeAllocationResult sv"
    "map sv_core (subvols w') = map sv_core (subvols w @ [sv])" "map sv_name (subvols w') = map sv_name (subvols w @ [sv])"
    and b: "ok w' \<and> recorded (pools w') \<subseteq> issued w'"
    using pool_env.Allocate_result [OF assms(1,3) base assms(4)] by blast
  have "rq_PVName req \<in> sv_name ` set (subvols w')" using arg_cong [OF s(4), of set] s(1) by auto
  then obtain v where v: "v \<in> set (subvols w')" "sv_name v = rq_PVName req" "r2 = subVolumeAllocationResult v" "w'' = w'"
    using pool_env.Allocate_again [OF assms(1,5) _ _ pool_env_network [OF assms(1)] b] by (auto simp: SetShareNetwork_def)
  have "sv_Spec v = sv_Spec sv"
    using pool_env.new_volume [OF assms(1) s(3,4) conjunct1 [OF b] v(1)] v(2) s(1) by simp
  then show ?thesis using v s(2) by (simp add: subVolumeAllocationResult_def)
qed

theorem Allocate_idempotent_witness:
  "\<exists>r r2 m' m2' w' w''. Allocate exampleManager (exampleRequest ''v1'' 40) 7 exampleWorld = (Inr r, m', w') \<and>
     Allocate exampleManager (exampleRequest ''v1'' 40) 8 w' = (Inr r2, m2', w'') \<and> w'' = w' \<and> ar_ShareID r2 = ar_ShareID r"
proof -
  obtain r m' w' where a: "Allocate exampleManager (exampleRequest ''v1'' 40) 7 exampleWorld = (Inr r, m', w')"
    using example_allocate by (auto split: prod.splits sum.splits)
  obtain r2 m2' w'' where b: "Allocate exampleManager (exampleRequest ''v1'' 40) 8 w' = (Inr r2, m2', w'')"
    using example_allocate_again a by (auto split: prod.splits sum.splits)
  from Allocate_idempotent [OF mem_env.pool_env_axioms example_inv a example_new,
      of "mg_network exampleManager" 8 r2 m2' w'']
  have "w'' = w'" "r2 = r\<lparr>ar_MountTargets := [], ar_AccessibleZones := []\<rparr>" using b by (simp_all only: example_manager simp_thms)
  then show ?thesis
    using a b by (intro exI [of _ r] exI [of _ r2] exI [of _ m'] exI [of _ m2'] exI [of _ w'] exI [of _ w'']) simp
qed

end
