(* ===== verification/Reconciler_Properties.thy ===== *)
theory Reconciler_Properties
  imports Reconciler Manager_Properties
begin

text \<open>
  What a pass of the reconciler guarantees: the recount makes the books right again whatever they were,
  deletion waits for the last volume and snapshot, a share that is asked to drain takes no new volume, the
  phase says what an allocation will meet, and expansion stays within the limits of the spec.
\<close>

section \<open>The recount\<close>

lemma tallied_tally: "tallied (tally k x m) k' = tallied m k' + (if k' = k then x else 0)"
  by (simp add: tallied_def tally_def map_of_filter_key)

lemma tallied_foldl:
  "tallied (foldl (\<lambda>m x. tally (key x) (val x) m) m xs) k = tallied m k + sum_list (map val (filter (\<lambda>x. key x = k) xs))"
  by (induction xs arbitrary: m) (simp_all add: tallied_tally)

lemma sum_list_filter_mset:
  fixes f :: "'a \<Rightarrow> int"
  assumes "mset xs = mset ys"
  shows "sum_list (map f (filter P xs)) = sum_list (map f (filter P ys))"
proof -
  have "mset (map f (filter P xs)) = mset (map f (filter P ys))" using assms by simp
  then show ?thesis by (metis sum_mset_sum_list)
qed

definition recounted :: "string \<Rightarrow> SubVolume list \<Rightarrow> Snapshot list \<Rightarrow> FileSharePool \<Rightarrow> bool" where
  "recounted name svs sns p \<longleftrightarrow> list_all (share_balanced name svs sns) (pool_shares p) \<and> totals_balanced (fp_Status p)"

lemma reconcileMetrics_recounted:
  assumes "k8s_api (rc_k8sClient r) ok pools subvols snaps" "ok w"
    and "ListSubVolumes (rc_k8sClient r) (pool_name p) w = Inr vs" "ListSnapshots (rc_k8sClient r) (pool_name p) w = Inr ns"
  shows "recounted (pool_name p) (subvols w) (snaps w) (reconcileMetrics r p w)"
proof -
  have V: "mset vs = mset (filter (\<lambda>v. MatchingLabels poolLabelKey (pool_name p) (om_Labels (sv_Meta v))) (subvols w))"
    and N: "mset ns = mset (filter (\<lambda>s. MatchingLabels poolLabelKey (pool_name p) (om_Labels (sn_Meta s))) (snaps w))"
    using k8s_api.ListSubVolumes [OF assms(1-3)] k8s_api.ListSnapshots [OF assms(1,2,4)] by auto
  have "sum_list (map f (filter (\<lambda>v. vs_ShareID (sv_Spec v) = i) vs)) = sum_list (map f (filter (onShare (pool_name p) i) (subvols w)))"
    for f :: "SubVolume \<Rightarrow> int" and i
    unfolding sum_list_filter_mset [OF V] onShare_def filter_filter by (simp add: conj_commute)
  moreover have "sum_list (map f (filter (\<lambda>n. ns_ShareID (sn_Spec n) = i) ns)) = sum_list (map f (filter (snapOnShare (pool_name p) i) (snaps w)))"
    for f :: "Snapshot \<Rightarrow> int" and i
    unfolding sum_list_filter_mset [OF N] snapOnShare_def filter_filter by (simp add: conj_commute)
  ultimately show ?thesis
    unfolding recounted_def reconcileMetrics_def assms(3,4)
    by (simp add: Let_def tallied_foldl list_all_iff share_balanced_def totals_balanced_def tallied_def [of "[]"]
        shareVolumesGB_def shareSnapshotsGB_def sharePVCs_def comp_def)
qed

lemma reconcileMetrics_keeps:
  "fp_Meta (reconcileMetrics r p w) = fp_Meta p" "fp_Spec (reconcileMetrics r p w) = fp_Spec p"
  by (simp_all add: reconcileMetrics_def Let_def split: sum.splits)

section \<open>What the other steps keep\<close>

text \<open>
  \<open>counted\<close>: the books hold for every share, except that one made during the pass holds nothing
  yet. The steps after the recount keep this.
\<close>

definition counted :: "string \<Rightarrow> SubVolume list \<Rightarrow> Snapshot list \<Rightarrow> time \<Rightarrow> FileSharePool \<Rightarrow> bool" where
  "counted name svs sns now p \<longleftrightarrow>
     list_all (\<lambda>s. share_balanced name svs sns s
       \<or> sh_AllocatedGB s = 0 \<and> sh_PVCCount s = 0 \<and> sh_CreatedAt s = Some now) (pool_shares p)
     \<and> totals_balanced (fp_Status p)"

lemma recounted_counted: "recounted name svs sns p \<Longrightarrow> counted name svs sns now p"
  by (auto simp: recounted_def counted_def list_all_iff)

lemma newPoolShareStatus_CreatedAt [simp]: "sh_CreatedAt (newPoolShareStatus info tier now) = Some now"
  by (simp add: newPoolShareStatus_def Let_def split: list.splits)

lemma createPoolShare_cases:
  assumes "createPoolShare r v p tier now w = (e, p', r', w')"
  shows "fp_Meta p' = fp_Meta p \<and> fp_Spec p' = fp_Spec p \<and> rc_k8sClient r' = rc_k8sClient r \<and>
    (e \<noteq> None \<and> p' = p \<or>
     e = None \<and> (\<exists>info. p' = addShare (newPoolShareStatus info tier now) p))"
  using assms by (auto simp: createPoolShare_def addShare_def Let_def split: prod.splits sum.splits)

lemma counted_addShare: "counted name svs sns now p \<Longrightarrow> counted name svs sns now (addShare (newPoolShareStatus info tier now) p)"
  by (auto simp: counted_def addShare_def totals_balanced_def)

lemma createPoolShare_counted:
  assumes "createPoolShare r v p tier now w = (e, p', r', w')" "counted name svs sns now p"
  shows "counted name svs sns now p'"
  using createPoolShare_cases [OF assms(1)] counted_addShare [OF assms(2)] assms(2) by auto

lemma expandTiers_counted:
  "expandTiers ts r v p now w = (p', r', w') \<Longrightarrow> counted name svs sns now p \<Longrightarrow>
     counted name svs sns now p' \<and> fp_Meta p' = fp_Meta p \<and> rc_k8sClient r' = rc_k8sClient r"
proof (induction ts arbitrary: r p w)
  case (Cons t ts)
  show ?case
  proof (cases "tierNeedsShare p t")
    case True
    obtain e p1 r1 w1 where c: "createPoolShare r v p (ti_Name t) now w = (e, p1, r1, w1)" by (rule prod_cases4)
    then have "expandTiers ts r1 v p1 now w1 = (p', r', w')" using Cons.prems(1) True by simp
    then show ?thesis
      using Cons.IH [of r1 p1 w1] createPoolShare_counted [OF c Cons.prems(2)] createPoolShare_cases [OF c] by auto
  next
    case False
    then show ?thesis using Cons.IH Cons.prems by simp
  qed
qed simp

lemma proactiveExpansion_cases:
  assumes "proactiveExpansion r v p now w = (p', r', w')"
  shows "p' = p \<and> r' = r \<and> w' = w \<or>
    ps_Tiers (fp_Spec p) \<noteq> [] \<and> expandTiers (ps_Tiers (fp_Spec p)) r v p now w = (p', r', w') \<or>
    ps_Tiers (fp_Spec p) = [] \<and> int (length (pool_shares p)) < ps_MaxShares (fp_Spec p)
      \<and> (\<exists>e. createPoolShare r v p '''' now w = (e, p', r', w'))"
  using assms unfolding proactiveExpansion_def Let_def by (auto split: if_splits prod.splits)

lemma proactiveExpansion_counted:
  assumes "proactiveExpansion r v p now w = (p', r', w')" "counted name svs sns now p"
  shows "counted name svs sns now p' \<and> fp_Meta p' = fp_Meta p \<and> rc_k8sClient r' = rc_k8sClient r"
  using proactiveExpansion_cases [OF assms(1)]
proof (elim disjE conjE exE)
  fix e assume c: "createPoolShare r v p '''' now w = (e, p', r', w')"
  show ?thesis using createPoolShare_counted [OF c assms(2)] createPoolShare_cases [OF c] by simp
next
  assume c: "expandTiers (ps_Tiers (fp_Spec p)) r v p now w = (p', r', w')"
  show ?thesis using expandTiers_counted [OF c assms(2)] .
qed (use assms(2) in simp)

lemma expandTiers_meta: "expandTiers ts r v p now w = (p', r', w') \<Longrightarrow> fp_Meta p' = fp_Meta p"
proof (induction ts arbitrary: r p w)
  case (Cons t ts)
  show ?case
  proof (cases "tierNeedsShare p t")
    case True
    obtain e p1 r1 w1 where c: "createPoolShare r v p (ti_Name t) now w = (e, p1, r1, w1)" by (rule prod_cases4)
    then show ?thesis using Cons.IH [of r1 p1 w1] Cons.prems True createPoolShare_cases [OF c] by simp
  qed (use Cons in simp)
qed simp

lemma proactiveExpansion_meta:
  assumes "proactiveExpansion r v p now w = (p', r', w')"
  shows "fp_Meta p' = fp_Meta p"
  using proactiveExpansion_cases [OF assms]
proof (elim disjE conjE exE)
  fix e assume c: "createPoolShare r v p '''' now w = (e, p', r', w')"
  show ?thesis using createPoolShare_cases [OF c] by simp
qed (auto dest: expandTiers_meta)

lemma totals_other_fields [simp]:
  "totals_balanced (st\<lparr>pt_Phase := x\<rparr>) = totals_balanced st"
  "totals_balanced (st\<lparr>pt_LastReconcileTime := t\<rparr>) = totals_balanced st"
  "totals_balanced (st\<lparr>pt_GoldenImages := g\<rparr>) = totals_balanced st"
  "totals_balanced (st\<lparr>pt_Conditions := c\<rparr>) = totals_balanced st"
  by (simp_all add: totals_balanced_def)

lemma setCondition_keeps [simp]:
  "fp_Meta (setCondition t s rs m now p) = fp_Meta p" "fp_Spec (setCondition t s rs m now p) = fp_Spec p"
  "pool_shares (setCondition t s rs m now p) = pool_shares p"
  "pt_Phase (fp_Status (setCondition t s rs m now p)) = pt_Phase (fp_Status p)"
  "totals_balanced (fp_Status (setCondition t s rs m now p)) = totals_balanced (fp_Status p)"
  by (simp_all add: setCondition_def totals_balanced_def)

lemma updateConditions_keeps [simp]:
  "fp_Meta (updateConditions now p) = fp_Meta p" "pool_shares (updateConditions now p) = pool_shares p"
  "pt_Phase (fp_Status (updateConditions now p)) = pt_Phase (fp_Status p)"
  "totals_balanced (fp_Status (updateConditions now p)) = totals_balanced (fp_Status p)"
  by (simp_all add: updateConditions_def Let_def)

section \<open>The environment of a pass\<close>

text \<open>
  \<open>reconciler_env\<close>: the contract of the Kubernetes client, and VPC and StorageProfile calls that leave
  the cluster's pools, volumes and snapshots alone. Lists may fail: the code logs it and keeps the numbers it has.
  \<open>listed\<close>: the two lists of a recount are served.
\<close>

definition listed :: "'w Client \<Rightarrow> string \<Rightarrow> 'w \<Rightarrow> bool" where
  "listed k name w \<longleftrightarrow>
     (case ListSubVolumes k name w of
        Inl _ \<Rightarrow> False
      | Inr _ \<Rightarrow> (case ListSnapshots k name w of Inl _ \<Rightarrow> False | Inr _ \<Rightarrow> True))"

locale reconciler_env =
  k8s_api k ok pools subvols snaps +
  vpc: vpc_frame v "env_step ok pools subvols snaps (\<lambda>_. {})"
  for k :: "'w Client" and v :: "'w VPCFileClient" and direct :: "'w unstructuredClient option"
    and ok :: "'w \<Rightarrow> bool" and pools :: "'w \<Rightarrow> FileSharePool list" and subvols :: "'w \<Rightarrow> SubVolume list"
    and snaps :: "'w \<Rightarrow> Snapshot list" +
  assumes patch: "direct = Some c \<Longrightarrow> env_step ok pools subvols snaps (\<lambda>_. {}) w (snd (uc_Patch c n b s w))"
begin

abbreviation step :: "'w \<Rightarrow> 'w \<Rightarrow> bool" where
  "step \<equiv> env_step ok pools subvols snaps (\<lambda>_. {})"

text \<open>The fields of the reconciler that a pass never changes.\<close>

abbreviation same :: "'w FileSharePoolReconciler \<Rightarrow> 'w FileSharePoolReconciler \<Rightarrow> bool" where
  "same r r' \<equiv> rc_k8sClient r' = rc_k8sClient r \<and> rc_vpcClient r' = rc_vpcClient r \<and> rc_directClient r' = rc_directClient r"

lemma createPoolShare_step:
  assumes "createPoolShare r v p tier now w = (e, p', r', w')"
  shows "step w w' \<and> same r r'"
proof -
  obtain i n w1 where i: "newShareInput v (rc_network r) p tier (rc_defaultResourceGroup r) w = (i, n, w1)"
    by (rule prod_cases3)
  note s1 = vpc.newShareInput_frame [OF i]
  have "step w1 (snd (CreateFileShare v ci w1))" for ci by (rule vpc.CreateFileShare)
  then have "step w (snd (CreateFileShare v ci w1))" for ci using vpc.trans [OF s1] by blast
  then show ?thesis
    using assms i s1 unfolding createPoolShare_def Let_def
    by (auto split: sum.splits prod.splits) (metis snd_conv)+
qed

lemma adopt_step: "step w (snd (adoptShareWithMountTarget r v p s w))"
proof -
  have del: "step w w1 \<Longrightarrow> step w (snd (DeleteFileShare v i w1))" for w1 i
    using vpc.trans vpc.DeleteFileShare by blast
  show ?thesis
    unfolding adoptShareWithMountTarget_def
    by (assumption | rule del vpc.ListSharesByName frame_rules [where R = step])+
qed

lemma createMountTarget_step:
  assumes "createMountTarget v p s n w = (e, n', w')"
  shows "step w w'"
proof -
  obtain q n1 w1 where m: "mountTargetNetwork v p n w = (q, n1, w1)" by (rule prod_cases3)
  note s1 = vpc.mountTargetNetwork_frame [OF m]
  have "step w (snd (CreateShareMountTarget v i cm w1))" for i cm
    using vpc.trans [OF s1] vpc.CreateShareMountTarget by blast
  then show ?thesis
    using assms m s1 unfolding createMountTarget_def by (auto split: sum.splits prod.splits) (metis snd_conv)+
qed

lemma recoverShare_step:
  assumes "recoverShare r v p info s w = (s', r', w')"
  shows "step w w' \<and> same r r'"
proof -
  obtain a w1 where a: "adoptShareWithMountTarget r v p s w = (a, w1)" by fastforce
  have s1: "step w w1" using adopt_step [of w r p s] a by simp
  have "step w w2" if "createMountTarget v p s n w1 = (e, n', w2)" for e n n' w2
    using vpc.trans [OF s1] createMountTarget_step [OF that] .
  then show ?thesis
    using assms a s1 vpc.refl unfolding recoverShare_def
    by (auto split: if_splits option.splits prod.splits sum.splits)
qed

lemma checkShare_step:
  assumes "checkShare i r v p w = (p', r', w')"
  shows "step w w' \<and> same r r' \<and> fp_Meta p' = fp_Meta p \<and> fp_Spec p' = fp_Spec p"
proof -
  obtain g w1 where g: "GetFileShare v (sh_ShareID (pool_shares p ! i)) w = (g, w1)" by fastforce
  have s1: "step w w1" using vpc.GetFileShare [of w "sh_ShareID (pool_shares p ! i)"] g by simp
  have "step w w2 \<and> same r r2" if "recoverShare r v q info s w1 = (s', r2, w2)" for q info s s' r2 w2
    using vpc.trans [OF s1] recoverShare_step [OF that] by blast
  then show ?thesis
    using assms g s1 unfolding checkShare_def Let_def
    by (auto simp: dropShare_def putShare_def Let_def split: if_splits sum.splits prod.splits)
qed

lemma healthCheck_loop_step:
  "healthCheck_loop n r v p w = (p', r', w') \<Longrightarrow> step w w' \<and> same r r' \<and> fp_Meta p' = fp_Meta p \<and> fp_Spec p' = fp_Spec p"
proof (induction n arbitrary: r p w)
  case 0
  then show ?case using vpc.refl by simp
next
  case (Suc n)
  obtain p1 r1 w1 where c: "checkShare n r v p w = (p1, r1, w1)" by (rule prod_cases3)
  note s1 = checkShare_step [OF c]
  have "step w1 w' \<and> same r1 r' \<and> fp_Meta p' = fp_Meta p1 \<and> fp_Spec p' = fp_Spec p1"
    using Suc.IH [of r1 p1 w1] Suc.prems c by simp
  then show ?case using s1 vpc.trans by metis
qed

lemma expandTiers_step: "expandTiers ts r v p now w = (p', r', w') \<Longrightarrow> step w w' \<and> same r r'"
proof (induction ts arbitrary: r p w)
  case Nil
  then show ?case using vpc.refl by simp
next
  case (Cons t ts)
  show ?case
  proof (cases "tierNeedsShare p t")
    case True
    obtain e p1 r1 w1 where c: "createPoolShare r v p (ti_Name t) now w = (e, p1, r1, w1)" by (rule prod_cases4)
    then have "expandTiers ts r1 v p1 now w1 = (p', r', w')" using Cons.prems True by simp
    then show ?thesis using Cons.IH [of r1 p1 w1] createPoolShare_step [OF c] vpc.trans by metis
  next
    case False
    then show ?thesis using Cons by simp
  qed
qed

lemma proactiveExpansion_step:
  assumes "proactiveExpansion r v p now w = (p', r', w')"
  shows "step w w' \<and> same r r'"
  using proactiveExpansion_cases [OF assms]
proof (elim disjE conjE exE)
  fix e assume c: "createPoolShare r v p '''' now w = (e, p', r', w')"
  show ?thesis by (rule createPoolShare_step [OF c])
next
  assume c: "expandTiers (ps_Tiers (fp_Spec p)) r v p now w = (p', r', w')"
  show ?thesis by (rule expandTiers_step [OF c])
qed (simp add: vpc.refl)

lemma processDrainRequests_keeps:
  "fp_Meta (processDrainRequests r p now w) = fp_Meta p" "fp_Spec (processDrainRequests r p now w) = fp_Spec p"
  by (simp_all add: processDrainRequests_def Let_def)

lemma refreshPool_counted:
  assumes "refreshPool r v p now w = (p', r', w')" "ok w" "rc_k8sClient r = k"
  shows "step w w' \<and> same r r' \<and> fp_Meta p' = fp_Meta p \<and>
    (listed k (pool_name p) (snd (snd (healthCheck r v p w))) \<longrightarrow> counted (pool_name p) (subvols w') (snaps w') now p')"
proof -
  obtain p1 r1 w1 where h: "healthCheck r v p w = (p1, r1, w1)" by (rule prod_cases3)
  note H = healthCheck_loop_step [OF h [unfolded healthCheck_def]]
  have ok1: "ok w1" using H assms(2) by (simp add: env_step_def)
  let ?p2 = "processDrainRequests r1 (ensureAccessorMountTargets p1) now w1"
  have m2: "fp_Meta ?p2 = fp_Meta p"
    using H by (simp add: processDrainRequests_keeps ensureAccessorMountTargets_def)
  obtain p3 r3 w3 where e: "proactiveExpansion r1 v (reconcileMetrics r1 ?p2 w1) now w1 = (p3, r3, w3)" by (rule prod_cases3)
  have k1: "rc_k8sClient r1 = k" using H assms(3) by simp
  have "recounted (pool_name p) (subvols w1) (snaps w1) (reconcileMetrics r1 ?p2 w1)" if l: "listed k (pool_name p) w1"
  proof -
    obtain vs ns where "ListSubVolumes k (pool_name ?p2) w1 = Inr vs" "ListSnapshots k (pool_name ?p2) w1 = Inr ns"
      using l m2 by (auto simp: listed_def split: sum.splits)
    then show ?thesis
      using reconcileMetrics_recounted [of r1 ok pools subvols snaps w1 ?p2 vs ns] k1 k8s_api_axioms ok1 m2 by simp
  qed
  then have "counted (pool_name p) (subvols w1) (snaps w1) now p3" if "listed k (pool_name p) w1"
    using proactiveExpansion_counted [OF e recounted_counted, of "pool_name p" "subvols w1" "snaps w1"] that by blast
  moreover have "fp_Meta p3 = fp_Meta p" using proactiveExpansion_meta [OF e] m2 by (simp add: reconcileMetrics_keeps)
  moreover have "step w1 w3 \<and> same r1 r3" by (rule proactiveExpansion_step [OF e])
  ultimately show ?thesis
    using assms(1) h e H vpc.trans [of w w1 w3]
    by (auto simp: refreshPool_def Let_def counted_def setReconciled_def env_step_def split: if_splits sum.splits)
qed

end

section \<open>A whole pass\<close>

text \<open>The world in which a pass recounts: the health check is done, and the new status is not stored yet.\<close>

definition recountWorld :: "'w FileSharePoolReconciler \<Rightarrow> string \<Rightarrow> time \<Rightarrow> 'w \<Rightarrow> 'w" where
  "recountWorld r name now w =
     (case (rc_vpcClient r, GetFileSharePool (rc_k8sClient r) name w) of
        (Some v, Inr pool) \<Rightarrow>
          (case preparePool r v name pool now w of
             (Inr pool1, r1, w1) \<Rightarrow> snd (snd (healthCheck r1 v pool1 w1))
           | (Inl _, r1, w1) \<Rightarrow> w1)
      | _ \<Rightarrow> w)"

text \<open>\<open>quiet\<close>: the volumes and snapshots are as before; a pool may have a new status.\<close>

definition quiet :: "('w \<Rightarrow> bool) \<Rightarrow> ('w \<Rightarrow> SubVolume list) \<Rightarrow> ('w \<Rightarrow> Snapshot list) \<Rightarrow> 'w \<Rightarrow> 'w \<Rightarrow> bool" where
  "quiet ok subvols snaps w w' \<longleftrightarrow> (ok w \<longrightarrow> ok w' \<and> subvols w' = subvols w \<and> snaps w' = snaps w)"

context reconciler_env
begin

abbreviation calm :: "'w \<Rightarrow> 'w \<Rightarrow> bool" where
  "calm \<equiv> quiet ok subvols snaps"

lemma calm_trans: "calm w w1 \<Longrightarrow> calm w1 w2 \<Longrightarrow> calm w w2"
  by (auto simp: quiet_def)

lemma step_calm: "step w w' \<Longrightarrow> calm w w'"
  by (simp add: quiet_def env_step_def)

lemma status_calm: "UpdateFileSharePoolStatus k p w = (e, w') \<Longrightarrow> calm w w'"
  using UpdateFileSharePoolStatus [of w p e w'] by (auto simp: quiet_def)

lemma createPoolShares_step: "createPoolShares n r v p tier now w = (e, p', r', w') \<Longrightarrow> step w w' \<and> same r r'"
proof (induction n arbitrary: r p w)
  case 0
  then show ?case using vpc.refl by simp
next
  case (Suc n)
  obtain e1 p1 r1 w1 where c: "createPoolShare r v p tier now w = (e1, p1, r1, w1)" by (rule prod_cases4)
  note s1 = createPoolShare_step [OF c]
  show ?case
  proof (cases e1)
    case None
    then have "step w1 w' \<and> same r1 r'" using Suc.IH [of r1 p1 w1] Suc.prems c by simp
    then show ?thesis using s1 vpc.trans by metis
  qed (use Suc.prems c s1 in simp)
qed

lemma provisionTiers_step: "provisionTiers ts r v p now w = (e, p', r', w') \<Longrightarrow> step w w' \<and> same r r'"
proof (induction ts arbitrary: r p w)
  case Nil
  then show ?case using vpc.refl by simp
next
  case (Cons t ts)
  let ?n = "nat (ti_InitialShares t - int (length (filter (\<lambda>s. sh_Tier s = ti_Name t \<and> inService s) (pool_shares p))))"
  obtain e1 p1 r1 w1 where c: "createPoolShares ?n r v p (ti_Name t) now w = (e1, p1, r1, w1)" by (rule prod_cases4)
  note s1 = createPoolShares_step [OF c]
  show ?case
  proof (cases e1)
    case None
    then have "step w1 w' \<and> same r1 r'" using Cons.IH [of r1 p1 w1] Cons.prems c by (simp add: Let_def)
    then show ?thesis using s1 vpc.trans by metis
  qed (use Cons.prems c s1 in \<open>simp add: Let_def\<close>)
qed

lemma initialProvisioning_step: "initialProvisioning r v p now w = (e, p', r', w') \<Longrightarrow> step w w' \<and> same r r'"
  using createPoolShares_step provisionTiers_step by (auto simp: initialProvisioning_def Let_def split: if_splits)

lemma updateStatusRetrying_calm: "updateStatusRetrying n k p w = (e, p', w') \<Longrightarrow> calm w w'"
proof (induction n arbitrary: p w)
  case (Suc n)
  obtain e1 w1 where u: "UpdateFileSharePoolStatus k p w = (e1, w1)" by fastforce
  note s1 = status_calm [OF u]
  show ?case
    using Suc.prems u s1 Suc.IH calm_trans
    by (fastforce simp: Let_def split: option.splits if_splits sum.splits)
qed (simp add: quiet_def)

lemma provisionPool_calm:
  assumes "provisionPool r v p now w = (q, r', w')" "rc_k8sClient r = k"
  shows "calm w w' \<and> same r r' \<and> (\<forall>p'. q = Inr p' \<longrightarrow> ok w \<longrightarrow> pool_name p' = pool_name p)"
proof -
  obtain e p1 r1 w1 where i: "initialProvisioning r v p now w = (e, p1, r1, w1)" by (rule prod_cases4)
  have s1: "calm w w1" "same r r1" using initialProvisioning_step [OF i] step_calm by blast+
  have u: "calm w w2" if "updateStatusRetryingConflict k p2 w1 = (e2, p3, w2)" for p2 e2 p3 w2
    using calm_trans [OF s1(1)] updateStatusRetrying_calm that by (simp add: updateStatusRetryingConflict_def)
  have g: "pool_name p' = n"
    if "updateStatusRetryingConflict k p2 w1 = (e2, p3, w2)" "ok w" "GetFileSharePool k n w2 = Inr p'" for p2 e2 p3 w2 n p'
    using u [OF that(1)] that(2,3) GetFileSharePool [of w2 n p'] by (simp add: quiet_def)
  have u2: "calm w (snd (snd (updateStatusRetryingConflict k p2 w1)))" for p2
    by (rule u [of p2 "fst (updateStatusRetryingConflict k p2 w1)" "fst (snd (updateStatusRetryingConflict k p2 w1))"]) simp
  have "calm w w" by (simp add: quiet_def)
  then show ?thesis
    using assms i s1(2) u g u2
    by (auto simp: provisionPool_def Let_def split: if_splits option.splits prod.splits sum.splits)
qed

lemma createClasses_calm: "calm w (createClasses k cs w)"
proof (induction cs arbitrary: w)
  case (Cons c cs)
  have "calm w (snd (CreateStorageClass k c w))"
    using CreateStorageClass [of w c "fst (CreateStorageClass k c w)" "snd (CreateStorageClass k c w)"]
    by (simp add: quiet_def)
  then show ?case using Cons calm_trans by (auto split: sum.splits)
qed (simp add: quiet_def)

lemma patchStorageProfile_calm: "calm w (patchStorageProfile direct n w)"
  using patch [THEN step_calm] by (auto simp: patchStorageProfile_def Let_def quiet_def split: option.splits sum.splits)

lemma ensureStorageProfiles_calm:
  assumes "ensureStorageProfiles r p w = (r', w')" "rc_directClient r = direct"
  shows "calm w w' \<and> same r r'"
proof -
  have f: "calm w (foldl (\<lambda>w sc. patchStorageProfile direct (sc_Name sc) w) w cs)" for w cs
  proof (induction cs arbitrary: w)
    case (Cons c cs)
    then show ?case using calm_trans patchStorageProfile_calm by simp blast
  qed (simp add: quiet_def)
  obtain b r1 where b: "cdiAvailable r = (b, r1)" by fastforce
  then have c: "same r r1" by (auto simp: cdiAvailable_def split: if_splits option.splits)
  have "calm w w" by (simp add: quiet_def)
  then show ?thesis
    using assms c f [of w "storageClassesForPool p"] b
    by (cases "shouldSkipStorageClass p"; cases b) (simp_all add: ensureStorageProfiles_def)
qed

lemma handleDeletion_requeue: "fst (handleDeletion r v p now w) \<noteq> Inr ReconcileInterval"
proof -
  obtain d w1 where d: "(case rc_goldenImages r of None \<Rightarrow> (Inr True, w) | Some g \<Rightarrow> g p w) = (d, w1)" by fastforce
  show ?thesis
  proof (cases d)
    case (Inr b)
    then show ?thesis
      by (cases b; simp add: handleDeletion_def Let_def d blockDeletion_def ReconcileInterval_def
          split: option.splits prod.splits sum.splits)
  qed (simp add: handleDeletion_def Let_def d)
qed

lemma finalizer_calm:
  assumes "(if hasFinalizer p then (Inr p, w)
      else case UpdateFileSharePool k (addFinalizer p) w of
        (Some e, w1) \<Rightarrow> (Inl e, w1) | (None, w1) \<Rightarrow> (GetFileSharePool k name w1, w1)) = (Inr p1, w1)"
    and "ok w" "pool_name p = name"
  shows "calm w w1 \<and> pool_name p1 = name"
proof (cases "hasFinalizer p")
  case False
  obtain e w2 where u: "UpdateFileSharePool k (addFinalizer p) w = (e, w2)" by fastforce
  have "calm w w2" using UpdateFileSharePool [OF assms(2) u] by (simp add: quiet_def)
  then show ?thesis
    using assms u False GetFileSharePool [of w2 name] by (auto simp: quiet_def split: option.splits)
qed (use assms in \<open>simp add: quiet_def\<close>)

lemma preparePool_calm:
  assumes "preparePool r v name p now w = (q, r', w')"
    and "rc_k8sClient r = k" "rc_directClient r = direct" "ok w" "pool_name p = name"
  shows "calm w w' \<and> rc_k8sClient r' = k \<and> (\<forall>p'. q = Inr p' \<longrightarrow> pool_name p' = name) \<and> q \<noteq> Inl (Inr ReconcileInterval)"
proof -
  obtain f w1 where f: "(if hasFinalizer p then (Inr p, w)
      else case UpdateFileSharePool k (addFinalizer p) w of
        (Some e, w1) \<Rightarrow> (Inl e, w1) | (None, w1) \<Rightarrow> (GetFileSharePool k name w1, w1)) = (f, w1)" by fastforce
  note go = assms(1) [unfolded preparePool_def Let_def assms(2), simplified f, simplified]
  show ?thesis
  proof (cases f)
    case (Inl e)
    have "calm w w1"
      using f UpdateFileSharePool [OF assms(4), of "addFinalizer p"]
      by (auto simp: quiet_def split: if_splits prod.splits option.splits)
    then show ?thesis using go Inl assms(2) by auto
  next
    case (Inr p1)
    note F = finalizer_calm [OF f [unfolded Inr] assms(4,5)]
    obtain r2 w2 where s: "ensureStorageProfiles r p1 (ensureStorageClasses r p1 w1) = (r2, w2)" by fastforce
    have "calm w1 (ensureStorageClasses r p1 w1)"
      using createClasses_calm assms(2) by (simp add: ensureStorageClasses_def quiet_def)
    note c1 = this and S = ensureStorageProfiles_calm [OF s assms(3)]
    have c2: "calm w w2" using F c1 S calm_trans by meson
    have pr: "provisionPool r2 v p1 now w2 = (q, r', w')" using go Inr s by simp
    have k2: "rc_k8sClient r2 = k" using S assms(2) by simp
    have "q \<noteq> Inl (Inr ReconcileInterval)"
      using pr by (auto simp: provisionPool_def Let_def ReconcileInterval_def split: if_splits option.splits prod.splits sum.splits)
    then show ?thesis
      using provisionPool_calm [OF pr k2] c2 calm_trans k2 F assms(4) by (auto simp: quiet_def)
  qed
qed

lemma Reconcile_counted:
  assumes "Reconcile r name now w = (Inr ReconcileInterval, r', w')"
    and "rc_k8sClient r = k" "rc_vpcClient r = Some v" "rc_directClient r = direct" "ok w"
  shows "calm w w' \<and> calm w (recountWorld r name now w) \<and>
    (listed k name (recountWorld r name now w) \<longrightarrow>
      (\<exists>p \<in> set (pools w'). pool_name p = name \<and> counted name (subvols w') (snaps w') now p))"
proof -
  obtain pool where g: "GetFileSharePool k name w = Inr pool"
    using assms by (auto simp: Reconcile_def Let_def ReconcileInterval_def split: sum.splits)
  have nm: "pool_name pool = name" using GetFileSharePool [OF assms(5) g] by simp
  note go = assms(1) [unfolded Reconcile_def Let_def assms(2,3), simplified g, simplified]
  have nodel: "om_DeletionTimestamp (fp_Meta pool) = None"
    using go handleDeletion_requeue [of r pool now w] by (auto split: prod.splits if_splits)
  obtain q r3 w3 where pr: "preparePool r v name pool now w = (q, r3, w3)" by (rule prod_cases3)
  note P = preparePool_calm [OF pr assms(2,4,5) nm]
  then obtain pool2 where p2: "q = Inr pool2" using go nodel pr by (cases q) auto
  have nm2: "pool_name pool2 = name" using P p2 by blast
  have w: "recountWorld r name now w = snd (snd (healthCheck r3 v pool2 w3))"
    using g pr p2 assms(2,3) by (simp add: recountWorld_def split: prod.splits)
  obtain pool3 r4 w4 where rf: "refreshPool r3 v pool2 now w3 = (pool3, r4, w4)" by (rule prod_cases3)
  have ok3: "ok w3" using P assms(5) by (simp add: quiet_def)
  note R = refreshPool_counted [OF rf ok3 conjunct1 [OF conjunct2 [OF P]]]
  obtain p1 r1 w1 where h: "healthCheck r3 v pool2 w3 = (p1, r1, w1)" by (rule prod_cases3)
  have "calm w3 w1" using healthCheck_loop_step [OF h [unfolded healthCheck_def]] step_calm by blast
  then have c1: "calm w (recountWorld r name now w)" using P calm_trans w h by auto
  obtain e w5 where u: "UpdateFileSharePoolStatus k pool3 w4 = (e, w5)" by fastforce
  have e: "e = None" "w' = w5" using go nodel pr p2 rf u by (cases e; simp)+
  have ok4: "ok w4" using R ok3 by (simp add: env_step_def)
  note U = UpdateFileSharePoolStatus [OF ok4 u]
  have "calm w3 w4" using R step_calm by blast
  then have c5: "calm w w5" using P status_calm [OF u] calm_trans by blast
  obtain q where q: "q \<in> set (pools w4)" "pool_name q = pool_name pool3" using U e(1) by auto
  then have "q\<lparr>fp_Status := fp_Status pool3\<rparr> \<in> set (pools w5)" using U e(1) by (auto simp: set_upd_at)
  moreover have "pool_name q = name" using R nm2 q(2) by simp
  moreover have "counted name (subvols w5) (snaps w5) now (q\<lparr>fp_Status := fp_Status pool3\<rparr>)"
    if "listed k name (recountWorld r name now w)"
    using R nm2 U that w by (simp add: counted_def)
  ultimately show ?thesis
    using c1 c5 e(2) by (intro conjI impI bexI [of _ "q\<lparr>fp_Status := fp_Status pool3\<rparr>"]) simp_all
qed

end

section \<open>The environment in memory\<close>

text \<open>StorageProfiles of a cluster where CDI has just created them.\<close>

definition mem_profiles :: "'w unstructuredClient" where
  "mem_profiles = \<lparr>uc_Get = (\<lambda>n w. Inr \<lparr>pf_Name = n, pf_HasSpec = False, pf_ClaimSets = ClaimSetsMissing, pf_CloneStrategy = ''''\<rparr>),
     uc_Patch = (\<lambda>n b s w. (None, w))\<rparr>"

interpretation mem_reconciler: reconciler_env "realClient mem_cr" FakeVPCClient "Some mem_profiles" "store_ok strict"
  st_pools st_subvols st_snaps for strict
proof (intro reconciler_env.intro reconciler_env_axioms.intro)
  show "k8s_api (realClient mem_cr) (store_ok strict) st_pools st_subvols st_snaps" by unfold_locales
  show "vpc_frame FakeVPCClient (env_step (store_ok strict) st_pools st_subvols st_snaps (\<lambda>_. {}))"
    by (unfold_locales) (auto simp: env_step_def store_ok_def fake_ops Let_def split: option.splits)
qed (auto simp: mem_profiles_def env_step_def realClient_def realClient_methods mem_defs)

definition exampleReconciler :: "fakevpc FileSharePoolReconciler" where
  "exampleReconciler = (SetVPCConfig (Some (NewShareNetwork ''vpc'' [''subnet''] ''cluster'')) ''''
     (NewFileSharePoolReconciler (realClient mem_cr) (Some FakeVPCClient)))\<lparr>rc_directClient := Some mem_profiles, rc_restMapper := Some True\<rparr>"

text \<open>The world of the examples with wrong books: the pool claims 70 GB and two volumes, and there are none.\<close>

definition staleWorld :: fakevpc where
  "staleWorld = exampleWorld\<lparr>st_pools := [examplePool\<lparr>fp_Status := (fp_Status examplePool)\<lparr>
     pt_Shares := [(exampleShare (fake_id 1) 70)\<lparr>sh_Tier := '''', sh_PVCCount := 2\<rparr>], pt_TotalAllocatedGB := 7\<rparr>\<rparr>],
     fv_shares := [(fake_id 1, \<lparr>si_ID = fake_id 1, si_Name = ''p-share-1'', si_LifecycleState = ''stable'', si_SizeGB = 100,
       si_IOPS = 1000, si_Profile = ''dp2'', si_Zone = ''us-south-1'', si_ResourceGroupID = '''', si_Tags = [],
       si_MountTargets = [], si_CreatedAt = 0\<rparr>)]\<rparr>"

lemma stale_pass:
  "(case Reconcile exampleReconciler ''p'' 9 staleWorld of
      (Inr d, r', w') \<Rightarrow> d = ReconcileInterval \<and> map sh_AllocatedGB (pool_shares (hd (st_pools w'))) = [0] | _ \<Rightarrow> False)"
  by code_simp

lemma expandTiers_limit:
  assumes "expandTiers ts r v p now w = (p', r', w')" "distinct (map ti_Name ts)"
  shows "\<exists>new. pool_shares p' = pool_shares p @ new \<and> distinct (map sh_Tier new) \<and>
    (\<forall>s \<in> set new. \<exists>t \<in> set ts. ti_Name t = sh_Tier s \<and>
       int (length (filter (\<lambda>x. sh_Tier x = sh_Tier s) (pool_shares p))) < ti_MaxShares t)"
  using assms
proof (induction ts arbitrary: r p w)
  case (Cons t ts)
  show ?case
  proof (cases "tierNeedsShare p t")
    case True
    obtain e p1 r1 w1 where c: "createPoolShare r v p (ti_Name t) now w = (e, p1, r1, w1)" by (rule prod_cases4)
    have x: "expandTiers ts r1 v p1 now w1 = (p', r', w')" using Cons.prems(1) True c by simp
    obtain new where n: "pool_shares p' = pool_shares p1 @ new" "distinct (map sh_Tier new)"
      "\<forall>s \<in> set new. \<exists>t \<in> set ts. ti_Name t = sh_Tier s \<and> int (length (filter (\<lambda>x. sh_Tier x = sh_Tier s) (pool_shares p1))) < ti_MaxShares t"
      using Cons.IH [OF x] Cons.prems(2) by auto
    have other: "sh_Tier s \<noteq> ti_Name t" if s: "s \<in> set new" for s
    proof -
      obtain t' where "t' \<in> set ts" "ti_Name t' = sh_Tier s" using n(3) s by blast
      then show ?thesis using Cons.prems(2) by (metis distinct.simps(2) image_eqI image_set list.simps(9))
    qed
    show ?thesis
    proof (cases e)
      case (Some err)
      then have "p1 = p" using createPoolShare_cases [OF c] by simp
      then show ?thesis using n by (intro exI [of _ new]) auto
    next
      case None
      then obtain info where a: "p1 = addShare (newPoolShareStatus info (ti_Name t) now) p"
        using createPoolShare_cases [OF c] by auto
      have "pool_shares p' = pool_shares p @ newPoolShareStatus info (ti_Name t) now # new" using n(1) a by simp
      moreover have "int (length (filter (\<lambda>x. sh_Tier x = ti_Name t) (pool_shares p))) < ti_MaxShares t"
        using True by (simp add: tierNeedsShare_def Let_def)
      moreover have "filter (\<lambda>x. sh_Tier x = sh_Tier s) (pool_shares p1) = filter (\<lambda>x. sh_Tier x = sh_Tier s) (pool_shares p)"
        if "s \<in> set new" for s
        using other [OF that] a by simp
      ultimately show ?thesis
        using n(2,3) other by (intro exI [of _ "newPoolShareStatus info (ti_Name t) now # new"]) fastforce
    qed
  next
    case False
    then have x: "expandTiers ts r v p now w = (p', r', w')" using Cons.prems(1) by simp
    obtain new where "pool_shares p' = pool_shares p @ new" "distinct (map sh_Tier new)"
      "\<forall>s \<in> set new. \<exists>t \<in> set ts. ti_Name t = sh_Tier s \<and> int (length (filter (\<lambda>x. sh_Tier x = sh_Tier s) (pool_shares p))) < ti_MaxShares t"
      using Cons.IH [OF x] Cons.prems(2) by auto
    then show ?thesis by auto
  qed
qed simp

text \<open>The transition time a condition gets: the old one while its status stays, the present otherwise.\<close>

definition transitionTime :: "string \<Rightarrow> bool \<Rightarrow> time \<Rightarrow> Condition list \<Rightarrow> time" where
  "transitionTime condType status now cs =
     (case find (\<lambda>c. co_Type c = condType) cs of
        Some c \<Rightarrow> if co_Status c = status then co_LastTransitionTime c else now | None \<Rightarrow> now)"

lemma upsertCondition_types: "set (map co_Type (upsertCondition new cs)) = insert (co_Type new) (set (map co_Type cs))"
  by (induction cs) auto

lemma upsertCondition_upserts:
  assumes "distinct (map co_Type cs)"
  shows "distinct (map co_Type (upsertCondition new cs))
    \<and> filter (\<lambda>c. co_Type c \<noteq> co_Type new) (upsertCondition new cs) = filter (\<lambda>c. co_Type c \<noteq> co_Type new) cs
    \<and> (\<exists>c. filter (\<lambda>c. co_Type c = co_Type new) (upsertCondition new cs) = [c]
         \<and> co_Status c = co_Status new \<and> co_Reason c = co_Reason new \<and> co_Message c = co_Message new
         \<and> co_LastTransitionTime c = transitionTime (co_Type new) (co_Status new) (co_LastTransitionTime new) cs)"
  using assms
proof (induction cs)
  case (Cons x cs)
  show ?case
  proof (cases "co_Type x = co_Type new")
    case True
    have "co_Type c \<noteq> co_Type new" if "c \<in> set cs" for c
      using Cons.prems True imageI [OF that, of co_Type] by auto
    then have "filter (\<lambda>c. co_Type c = co_Type new) cs = []" by (simp add: filter_empty_conv)
    then show ?thesis using True Cons.prems by (simp add: transitionTime_def)
  next
    case False
    then show ?thesis using Cons upsertCondition_types [of new cs] by (simp add: transitionTime_def)
  qed
qed (simp add: transitionTime_def)

section \<open>Properties\<close>

text \<open>
  C11: a pass that completes makes the books right, whatever they were before, when the lists of its recount
  are served; when one of them fails, the code only logs it and keeps the numbers. Every share of the
  pool that is stored then shows the allocated size and the volume count of a recount of the volumes and
  snapshots, except that a share made in this pass shows nothing yet, and the totals are the sums over the
  shares. The volumes and snapshots themselves are left alone in any case.
\<close>

theorem Reconcile_repairs_books:
  assumes "reconciler_env (rc_k8sClient r) v (rc_directClient r) ok pools subvols snaps"
    and "rc_vpcClient r = Some v" "ok w" "Reconcile r name now w = (Inr ReconcileInterval, r', w')"
  shows "subvols w' = subvols w \<and> snaps w' = snaps w \<and>
    (listed (rc_k8sClient r) name (recountWorld r name now w) \<longrightarrow>
      (\<exists>p \<in> set (pools w'). pool_name p = name \<and> totals_balanced (fp_Status p) \<and>
         list_all (\<lambda>s. share_balanced name (subvols w) (snaps w) s
           \<or> sh_AllocatedGB s = 0 \<and> sh_PVCCount s = 0 \<and> sh_CreatedAt s = Some now) (pool_shares p)))"
  using reconciler_env.Reconcile_counted [OF assms(1,4) refl assms(2) refl assms(3)] assms(3)
  by (auto simp: quiet_def counted_def)

theorem Reconcile_repairs_books_witness:
  "\<exists>r' w'. Reconcile exampleReconciler ''p'' 9 staleWorld = (Inr ReconcileInterval, r', w') \<and>
     (\<exists>p \<in> set (st_pools w'). totals_balanced (fp_Status p))"
proof -
  obtain r' w' where c: "Reconcile exampleReconciler ''p'' 9 staleWorld = (Inr ReconcileInterval, r', w')"
    using stale_pass by (auto split: prod.splits sum.splits)
  have f: "rc_k8sClient exampleReconciler = realClient mem_cr" "rc_vpcClient exampleReconciler = Some FakeVPCClient"
    "rc_directClient exampleReconciler = Some mem_profiles"
    by (simp_all add: exampleReconciler_def SetVPCConfig_def NewFileSharePoolReconciler_def)
  have "store_ok True staleWorld" by (simp add: store_ok_def staleWorld_def exampleWorld_def)
  moreover have "listed (realClient mem_cr) ''p'' x" for x :: fakevpc
    by (simp add: listed_def realClient_def realClient_methods mem_defs)
  ultimately show ?thesis
    using Reconcile_repairs_books [of exampleReconciler FakeVPCClient "store_ok True" st_pools st_subvols st_snaps staleWorld "''p''" 9 r' w']
      mem_reconciler.reconciler_env_axioms c unfolding f by blast
qed

abbreviation removeGoldenImages :: "'w FileSharePoolReconciler \<Rightarrow> FileSharePool \<Rightarrow> 'w \<Rightarrow> (error + bool) \<times> 'w" where
  "removeGoldenImages r pool w \<equiv> (case rc_goldenImages r of None \<Rightarrow> (Inr True, w) | Some g \<Rightarrow> g pool w)"

text \<open>
  C12: a pool that is being deleted keeps its shares and its finalizer while a golden image is still to be
  removed or a volume or a snapshot carries its label. After the call that removes the golden images the pass then
  does nothing but write the status, in which the shares are as before.
\<close>

theorem handleDeletion_blocked:
  assumes "k8s_api (rc_k8sClient r) ok pools subvols snaps" "removeGoldenImages r pool w = (removed, w1)" "ok w1"
    and "removed = Inr True \<Longrightarrow>
         (\<exists>x \<in> set (subvols w1). MatchingLabels poolLabelKey (pool_name pool) (om_Labels (sv_Meta x))) \<or>
         (\<exists>x \<in> set (snaps w1). MatchingLabels poolLabelKey (pool_name pool) (om_Labels (sn_Meta x)))"
  shows "snd (handleDeletion r v pool now w) = w1 \<or>
    (\<exists>p. snd (handleDeletion r v pool now w) = snd (UpdateFileSharePoolStatus (rc_k8sClient r) p w1)
       \<and> fp_Meta p = fp_Meta pool \<and> fp_Spec p = fp_Spec pool \<and> pool_shares p = pool_shares pool)"
proof -
  let ?k = "rc_k8sClient r"
  have block: "\<exists>p. snd (blockDeletion ?k reason message now pool w1) = snd (UpdateFileSharePoolStatus ?k p w1)
      \<and> fp_Meta p = fp_Meta pool \<and> fp_Spec p = fp_Spec pool \<and> pool_shares p = pool_shares pool" for reason message
    by (rule exI [of _ "setReconciled now (setCondition ''DeletionBlocked'' True reason message now pool)"])
      (simp add: blockDeletion_def setReconciled_def)
  have v: "vs \<noteq> []" if "ListSubVolumes ?k (pool_name pool) w1 = Inr vs"
    "x \<in> set (subvols w1)" "MatchingLabels poolLabelKey (pool_name pool) (om_Labels (sv_Meta x))" for vs x
    using k8s_api.ListSubVolumes [OF assms(1,3) that(1)] that(2,3) by (auto simp: filter_empty_conv dest!: sym [of "{#}"])
  have s: "ns \<noteq> []" if "ListSnapshots ?k (pool_name pool) w1 = Inr ns"
    "x \<in> set (snaps w1)" "MatchingLabels poolLabelKey (pool_name pool) (om_Labels (sn_Meta x))" for ns x
    using k8s_api.ListSnapshots [OF assms(1,3) that(1)] that(2,3) by (auto simp: filter_empty_conv dest!: sym [of "{#}"])
  note go = handleDeletion_def [of r v pool now w, unfolded Let_def assms(2)]
  consider (wait) "removed \<noteq> Inr True" | (listed) "removed = Inr True" by blast
  then show ?thesis
  proof cases
    case wait
    then have "snd (handleDeletion r v pool now w) = w1" unfolding go by (auto split: sum.splits bool.splits)
    then show ?thesis ..
  next
    case listed
    show ?thesis
    proof (cases "ListSubVolumes ?k (pool_name pool) w1")
      case (Inr vs)
      show ?thesis
      proof (cases "vs = []")
        case True
        then obtain x where x: "x \<in> set (snaps w1)" "MatchingLabels poolLabelKey (pool_name pool) (om_Labels (sn_Meta x))"
          using assms(4) [OF listed] v [OF Inr] by blast
        show ?thesis
          using Inr True listed block s [OF _ x]
          by (cases "ListSnapshots ?k (pool_name pool) w1") (auto simp: go)
      qed (use Inr listed block in \<open>simp add: go\<close>)
    qed (use listed in \<open>simp add: go\<close>)
  qed
qed

definition deletingWorld :: fakevpc where
  "deletingWorld = exampleWorld\<lparr>st_subvols := [\<lparr>sv_Meta = newMeta ''v1'' [(poolLabelKey, ''p'')],
     sv_Spec = newVolumeSpec (exampleRequest ''v1'' 40) examplePool (exampleShare (fake_id 1) 0) ''/pvcs/v1'',
     sv_Status = no_sv_status\<rparr>]\<rparr>"

text \<open>A remover that deletes the golden image \<open>g\<close>, where there is one.\<close>

definition imageRemover :: "FileSharePool \<Rightarrow> fakevpc \<Rightarrow> (error + bool) \<times> fakevpc" where
  "imageRemover pool w = (Inr True, w\<lparr>st_subvols := filter (\<lambda>v. sv_name v \<noteq> ''g'') (st_subvols w)\<rparr>)"

theorem handleDeletion_blocked_witness:
  "\<exists>r w1. rc_goldenImages r = Some imageRemover \<and> imageRemover examplePool deletingWorld = (Inr True, w1) \<and> store_ok True w1 \<and>
    (snd (handleDeletion r FakeVPCClient examplePool 9 deletingWorld) = w1 \<or>
      (\<exists>p. snd (handleDeletion r FakeVPCClient examplePool 9 deletingWorld) = snd (UpdateFileSharePoolStatus (rc_k8sClient r) p w1)
         \<and> pool_shares p = pool_shares examplePool))"
proof -
  let ?r = "SetGoldenImageRemover (Some imageRemover) exampleReconciler"
  have f: "rc_k8sClient ?r = realClient mem_cr" "rc_goldenImages ?r = Some imageRemover"
    by (simp_all add: exampleReconciler_def SetVPCConfig_def NewFileSharePoolReconciler_def SetGoldenImageRemover_def)
  obtain d w1 where g: "imageRemover examplePool deletingWorld = (d, w1)" by fastforce
  have w1: "d = Inr True" "store_ok True w1"
    "\<exists>x \<in> set (st_subvols w1). MatchingLabels poolLabelKey (pool_name examplePool) (om_Labels (sv_Meta x))"
    using g by (auto simp: imageRemover_def store_ok_def deletingWorld_def exampleWorld_def MatchingLabels_def newMeta_def examplePool_def)
  then show ?thesis
    using handleDeletion_blocked [where r = ?r and ok = "store_ok True" and pools = st_pools and subvols = st_subvols and snaps = st_snaps
        and pool = examplePool and w = deletingWorld and removed = d and ?w1.0 = w1 and v = FakeVPCClient and now = 9]
      mem.k8s_api_axioms g f by (intro exI [of _ ?r] exI [of _ w1]) auto
qed

text \<open>
  C13: the phase announces what an allocation meets. In the phases \<open>Initializing\<close> and \<open>Full\<close>
  no share of any tier takes a volume of at least 1 GB, whatever the strategy; in the phase \<open>Ready\<close> some share is
  ready, and either one of them has room for a volume of 1 GB or the pool may still get another share.
\<close>

theorem determinePhase_meaning:
  "(determinePhase pool \<in> {''Initializing'', ''Full''} \<longrightarrow> 1 \<le> sizeGB \<longrightarrow>
      selectShare strategy (pool_shares pool) sizeGB tier = Inl ErrPoolExhausted)
   \<and> (determinePhase pool = ''Ready'' \<longrightarrow> (\<exists>s \<in> set (pool_shares pool). shareReady s) \<and>
      ((\<exists>s \<in> set (pool_shares pool). fits 1 (sh_Tier s) s) \<or> int (length (pool_shares pool)) < ps_MaxShares (fp_Spec pool)))"
proof -
  have "selectShare strategy (pool_shares pool) sizeGB tier = Inl ErrPoolExhausted"
    if "\<forall>s \<in> set (pool_shares pool). \<not> fits sizeGB tier s"
  proof -
    have "selectShare_loop strategy sizeGB tier i best ss = Inr best" if "\<forall>s \<in> set ss. \<not> fits sizeGB tier s" for i best ss
      using that by (induction ss arbitrary: i) (auto simp: fits_def)
    then show ?thesis using that by (simp add: selectShare_def)
  qed
  moreover have "\<forall>s \<in> set (pool_shares pool). \<not> fits sizeGB tier s"
    if "determinePhase pool \<in> {''Initializing'', ''Full''}" "1 \<le> sizeGB"
    using that by (fastforce simp: determinePhase_def Let_def list_ex_iff fits_def freeGB_def split: if_splits)
  moreover have "(\<exists>s \<in> set (pool_shares pool). shareReady s) \<and>
      ((\<exists>s \<in> set (pool_shares pool). fits 1 (sh_Tier s) s) \<or> int (length (pool_shares pool)) < ps_MaxShares (fp_Spec pool))"
    if "determinePhase pool = ''Ready''"
    using that by (fastforce simp: determinePhase_def Let_def list_ex_iff fits_def freeGB_def split: if_splits)
  ultimately show ?thesis by blast
qed

theorem determinePhase_meaning_witness:
  "determinePhase (examplePool\<lparr>fp_Status := no_pool_status\<rparr>) = ''Initializing'' \<and>
   selectShare ''spread'' (pool_shares (examplePool\<lparr>fp_Status := no_pool_status\<rparr>)) 1 ''gold'' = Inl ErrPoolExhausted"
proof -
  have "determinePhase (examplePool\<lparr>fp_Status := no_pool_status\<rparr>) = ''Initializing''"
    by (simp add: determinePhase_def no_pool_status_def)
  then show ?thesis
    using determinePhase_meaning [of "examplePool\<lparr>fp_Status := no_pool_status\<rparr>" 1 "''spread''" "''gold''"] by simp
qed

text \<open>
  C14: a share on the drain list takes no new volume. After the drain requests were processed no
  allocation selects a requested share, and a share is reported as drained only when no volume and no
  snapshot carries its label.
\<close>

theorem draining_share_not_selected:
  assumes "k8s_api (rc_k8sClient r) ok pools subvols snaps" "ok w"
    and "pool' = processDrainRequests r pool now w"
  shows "(selectShare strategy (pool_shares pool') sizeGB tier = Inr i \<longrightarrow>
      sh_ShareID (pool_shares pool' ! i) \<notin> set (ps_DrainShares (fp_Spec pool)))
    \<and> (\<forall>d. d \<in> set (pt_DrainStatus (fp_Status pool')) \<and> ds_Drained d \<longrightarrow>
        (\<forall>x. x \<in> set (subvols w) \<longrightarrow> \<not> MatchingLabels shareLabelKey (ds_ShareID d) (om_Labels (sv_Meta x)))
      \<and> (\<forall>x. x \<in> set (snaps w) \<longrightarrow> \<not> MatchingLabels shareLabelKey (ds_ShareID d) (om_Labels (sn_Meta x))))"
proof -
  let ?req = "ps_DrainShares (fp_Spec pool)"
  have "sh_ShareID s \<notin> set ?req" if "s \<in> set (pool_shares pool')" "shareReady s" for s
    using that assms(3) by (auto simp: processDrainRequests_def Let_def markDraining_def shareReady_def split: if_splits)
  then have 1: "sh_ShareID (pool_shares pool' ! i) \<notin> set ?req" if "selectShare strategy (pool_shares pool') sizeGB tier = Inr i"
    using selectShare_fits [OF that] by (simp add: fits_def)
  have D: "ListSubVolumesByShare (rc_k8sClient r) (ds_ShareID d) w = Inr [] \<and> ListSnapshotsByShare (rc_k8sClient r) (ds_ShareID d) w = Inr []"
    if d: "d \<in> set (pt_DrainStatus (fp_Status pool'))" "ds_Drained d" for d
  proof -
    obtain i where "drainEntry (rc_k8sClient r) (pt_DrainStatus (fp_Status pool)) now w i = Some d"
      using d(1) assms(3)
      by (auto simp: processDrainRequests_def Let_def setCondition_def List.map_filter_def split: if_splits)
    then show ?thesis using d(2) by (auto simp: drainEntry_def split: sum.splits)
  qed
  have "\<not> MatchingLabels shareLabelKey (ds_ShareID d) (om_Labels (sv_Meta x))"
    if "d \<in> set (pt_DrainStatus (fp_Status pool'))" "ds_Drained d" "x \<in> set (subvols w)" for d x
    using k8s_api.ListSubVolumesByShare [OF assms(1,2), of "ds_ShareID d" "[]"] D [OF that(1,2)] that(3)
    by (auto simp: filter_empty_conv dest!: sym [of "{#}"])
  moreover have "\<not> MatchingLabels shareLabelKey (ds_ShareID d) (om_Labels (sn_Meta x))"
    if "d \<in> set (pt_DrainStatus (fp_Status pool'))" "ds_Drained d" "x \<in> set (snaps w)" for d x
    using k8s_api.ListSnapshotsByShare [OF assms(1,2), of "ds_ShareID d" "[]"] D [OF that(1,2)] that(3)
    by (auto simp: filter_empty_conv dest!: sym [of "{#}"])
  ultimately show ?thesis using 1 by blast
qed

definition drainPool :: FileSharePool where
  "drainPool = examplePool\<lparr>fp_Spec := exampleSpec\<lparr>ps_DrainShares := [fake_id 1]\<rparr>,
     fp_Status := (fp_Status examplePool)\<lparr>pt_Shares := [exampleShare (fake_id 1) 0, exampleShare (fake_id 2) 90]\<rparr>\<rparr>"

theorem draining_share_not_selected_witness:
  "selectShare ''spread'' (pool_shares (processDrainRequests exampleReconciler drainPool 9 exampleWorld)) 5 ''gold'' = Inr 1 \<and>
   sh_ShareID (pool_shares (processDrainRequests exampleReconciler drainPool 9 exampleWorld) ! 1) \<notin> set (ps_DrainShares (fp_Spec drainPool))"
proof -
  have s: "selectShare ''spread'' (pool_shares (processDrainRequests exampleReconciler drainPool 9 exampleWorld)) 5 ''gold'' = Inr 1"
    by code_simp
  have "rc_k8sClient exampleReconciler = realClient mem_cr"
    by (simp add: exampleReconciler_def SetVPCConfig_def NewFileSharePoolReconciler_def)
  moreover have "store_ok True exampleWorld" by (simp add: store_ok_def exampleWorld_def)
  ultimately show ?thesis
    using draining_share_not_selected [of exampleReconciler "store_ok True" st_pools st_subvols st_snaps exampleWorld _ drainPool 9 "''spread''" 5 "''gold''" 1]
      mem.k8s_api_axioms s by metis
qed

text \<open>
  C15: expansion respects the limits. In a pool whose tiers have different names, a pass of proactive
  expansion adds at most one share to a tier and none to a tier that is at its maximum; a pool without tiers gets at
  most one more share, and none at its maximum. No share is dropped and no size changes.
\<close>

theorem proactiveExpansion_limit:
  assumes "distinct (map ti_Name (ps_Tiers (fp_Spec pool)))" "proactiveExpansion r v pool now w = (pool', r', w')"
  shows "\<exists>new. pool_shares pool' = pool_shares pool @ new \<and> distinct (map sh_Tier new) \<and>
    (ps_Tiers (fp_Spec pool) = [] \<longrightarrow> length new \<le> 1) \<and>
    (\<forall>s \<in> set new. if ps_Tiers (fp_Spec pool) = [] then int (length (pool_shares pool)) < ps_MaxShares (fp_Spec pool)
       else \<exists>t \<in> set (ps_Tiers (fp_Spec pool)). ti_Name t = sh_Tier s \<and>
         int (length (filter (\<lambda>x. sh_Tier x = sh_Tier s) (pool_shares pool))) < ti_MaxShares t)"
  using proactiveExpansion_cases [OF assms(2)]
proof (elim disjE conjE exE)
  fix e
  assume t: "ps_Tiers (fp_Spec pool) = []" "int (length (pool_shares pool)) < ps_MaxShares (fp_Spec pool)"
    and c: "createPoolShare r v pool '''' now w = (e, pool', r', w')"
  then show ?thesis
    using createPoolShare_cases [OF c] by (cases e) auto
next
  assume "ps_Tiers (fp_Spec pool) \<noteq> []" and c: "expandTiers (ps_Tiers (fp_Spec pool)) r v pool now w = (pool', r', w')"
  then show ?thesis using expandTiers_limit [OF c assms(1)] by simp
qed simp

text \<open>The pool of the examples, filled to 90 of its 100 GB.\<close>

definition fullPool :: FileSharePool where
  "fullPool = examplePool\<lparr>fp_Status := (fp_Status examplePool)\<lparr>
     pt_Shares := [(exampleShare (fake_id 1) 90)\<lparr>sh_Tier := ''''\<rparr>], pt_TotalAllocatedGB := 90\<rparr>\<rparr>"

theorem proactiveExpansion_limit_witness:
  "\<exists>pool' r' w' s. proactiveExpansion exampleReconciler FakeVPCClient fullPool 9 exampleWorld = (pool', r', w')
     \<and> pool_shares pool' = pool_shares fullPool @ [s] \<and> int (length (pool_shares fullPool)) < ps_MaxShares (fp_Spec fullPool)"
proof -
  obtain pool' r' w' where p: "proactiveExpansion exampleReconciler FakeVPCClient fullPool 9 exampleWorld = (pool', r', w')"
    by (rule prod_cases3)
  have "(case proactiveExpansion exampleReconciler FakeVPCClient fullPool 9 exampleWorld of
      (pool', r', w') \<Rightarrow> length (pool_shares pool') = 2)" by code_simp
  then have l: "length (pool_shares pool') = 2" using p by simp
  have f: "ps_Tiers (fp_Spec fullPool) = []" "length (pool_shares fullPool) = 1"
    by (simp_all add: fullPool_def examplePool_def exampleSpec_def)
  then obtain new where n: "pool_shares pool' = pool_shares fullPool @ new"
    "\<forall>s \<in> set new. int (length (pool_shares fullPool)) < ps_MaxShares (fp_Spec fullPool)"
    using proactiveExpansion_limit [OF _ p] by auto
  then obtain s where "new = [s]" using l f(2) by (cases new) (auto simp: length_Suc_conv)
  then show ?thesis using p n by auto
qed

text \<open>
  C16: conditions are kept one per type. Setting one leaves the others alone, gives it the new status,
  reason and message, and moves its transition time exactly when it is new or its status changes.
\<close>

theorem setCondition_upserts:
  fixes condType reason message :: string and status :: bool and now :: time and pool :: FileSharePool
  defines "before \<equiv> pt_Conditions (fp_Status pool)"
    and "after \<equiv> pt_Conditions (fp_Status (setCondition condType status reason message now pool))"
  assumes "distinct (map co_Type before)"
  shows "distinct (map co_Type after)
    \<and> filter (\<lambda>c. co_Type c \<noteq> condType) after = filter (\<lambda>c. co_Type c \<noteq> condType) before
    \<and> (\<exists>c. filter (\<lambda>c. co_Type c = condType) after = [c]
         \<and> co_Status c = status \<and> co_Reason c = reason \<and> co_Message c = message
         \<and> co_LastTransitionTime c = transitionTime condType status now before)"
  using upsertCondition_upserts [of before "\<lparr>co_Type = condType, co_Status = status,
      co_ObservedGeneration = om_Generation (fp_Meta pool), co_LastTransitionTime = now,
      co_Reason = reason, co_Message = message\<rparr>"] assms(3)
  unfolding after_def before_def by (simp add: setCondition_def)

theorem setCondition_upserts_witness:
  "\<exists>c. filter (\<lambda>c. co_Type c = ''SharesReady'') (pt_Conditions (fp_Status (setCondition ''SharesReady'' True ''R'' ''M'' 9 examplePool))) = [c]
     \<and> co_LastTransitionTime c = 9"
proof -
  have e: "pt_Conditions (fp_Status examplePool) = []" by (simp add: examplePool_def no_pool_status_def)
  show ?thesis using setCondition_upserts [of examplePool "''SharesReady''" True "''R''" "''M''" 9] e by (auto simp: transitionTime_def)
qed

end
