(* ===== verification/Volume_Locks.thy ===== *)
theory Volume_Locks
  imports Prelude
begin

text \<open>
  \<^verbatim>\<open>pkg/pool/volume_locks.go\<close>: one lock per volume, made on first use and dropped with its last
  user. Several goroutines run the code at once. A program counter stands for one call of \<open>lock\<close> with
  the call of its unlock function, a step is its move between two operations on a mutex, and a
  goroutine that holds two locks, as \<^verbatim>\<open>RestoreSnapshot\<close> does, has two program counters. The table
  of locks is a map from volumes to addresses of lock objects, because an object can outlive its entry.
  The invariant over all interleavings gives mutual exclusion per volume and that the table is empty when
  nobody uses it; callers that nest locks in one order are never stuck.
\<close>

section \<open>The locks and the threads\<close>

record volumeLock =
  vl_holder :: "nat option"
  vl_refs :: int

text \<open>\<open>Wait\<close>: the entry is counted and the caller is in \<^verbatim>\<open>l.mu.Lock()\<close>. \<open>Held\<close>: \<open>lock\<close> has returned.\<close>

datatype pc =
    Idle
  | LockStart string
  | LockTable string
  | Wait string nat
  | Held string nat
  | UnlockStart string nat
  | UnlockTable string nat

record volumeLocks =
  ls_mu :: "nat option"
  ls_locks :: "(string \<times> nat) list"
  ls_heap :: "volumeLock list"
  ls_pcs :: "pc list"

definition goto :: "nat \<Rightarrow> pc \<Rightarrow> volumeLocks \<Rightarrow> volumeLocks" where
  "goto i p s = s\<lparr>ls_pcs := (ls_pcs s)[i := p]\<rparr>"

text \<open>The part of \<open>lock\<close> under \<^verbatim>\<open>v.mu\<close>: find or make the volume's lock and count the caller.\<close>

definition enter :: "string \<Rightarrow> volumeLocks \<Rightarrow> nat \<times> volumeLocks" where
  "enter volume s =
     (case map_of (ls_locks s) volume of
        Some l \<Rightarrow> (l, s\<lparr>ls_heap := (ls_heap s)[l := (ls_heap s ! l)\<lparr>vl_refs := vl_refs (ls_heap s ! l) + 1\<rparr>]\<rparr>)
      | None \<Rightarrow>
          let l = length (ls_heap s)
          in (l, s\<lparr>ls_locks := (volume, l) # ls_locks s,
                   ls_heap := ls_heap s @ [\<lparr>vl_holder = None, vl_refs = 1\<rparr>]\<rparr>))"

text \<open>The part of the unlock function under \<^verbatim>\<open>v.mu\<close>: the last user removes the entry.\<close>

definition leave :: "string \<Rightarrow> nat \<Rightarrow> volumeLocks \<Rightarrow> volumeLocks" where
  "leave volume l s =
     (let refs = vl_refs (ls_heap s ! l) - 1;
          s1 = s\<lparr>ls_heap := (ls_heap s)[l := (ls_heap s ! l)\<lparr>vl_refs := refs\<rparr>]\<rparr>
      in if refs = 0 then s1\<lparr>ls_locks := filter (\<lambda>p. fst p \<noteq> volume) (ls_locks s1)\<rparr> else s1)"

definition set_holder :: "nat \<Rightarrow> nat option \<Rightarrow> volumeLocks \<Rightarrow> volumeLocks" where
  "set_holder l h s = s\<lparr>ls_heap := (ls_heap s)[l := (ls_heap s ! l)\<lparr>vl_holder := h\<rparr>]\<rparr>"

text \<open>The next move of caller \<open>i\<close>; \<open>None\<close> when it has none, because it is idle or a mutex is taken.\<close>

definition run :: "nat \<Rightarrow> volumeLocks \<Rightarrow> volumeLocks option" where
  "run i s =
     (if i \<ge> length (ls_pcs s) then None
      else case ls_pcs s ! i of
        Idle \<Rightarrow> None
      | LockStart v \<Rightarrow> if ls_mu s = None then Some (goto i (LockTable v) (s\<lparr>ls_mu := Some i\<rparr>)) else None
      | LockTable v \<Rightarrow> (case enter v s of (l, s1) \<Rightarrow> Some (goto i (Wait v l) (s1\<lparr>ls_mu := None\<rparr>)))
      | Wait v l \<Rightarrow>
          if vl_holder (ls_heap s ! l) = None then Some (goto i (Held v l) (set_holder l (Some i) s)) else None
      | Held v l \<Rightarrow> Some (goto i (UnlockStart v l) (set_holder l None s))
      | UnlockStart v l \<Rightarrow> if ls_mu s = None then Some (goto i (UnlockTable v l) (s\<lparr>ls_mu := Some i\<rparr>)) else None
      | UnlockTable v l \<Rightarrow> Some (goto i Idle ((leave v l s)\<lparr>ls_mu := None\<rparr>)))"

text \<open>A caller that is idle calls \<open>lock\<close>.\<close>

definition call :: "nat \<Rightarrow> string \<Rightarrow> volumeLocks \<Rightarrow> volumeLocks option" where
  "call i volume s =
     (if i < length (ls_pcs s) \<and> ls_pcs s ! i = Idle then Some (goto i (LockStart volume) s) else None)"

definition start :: "nat \<Rightarrow> volumeLocks" where
  "start n = \<lparr>ls_mu = None, ls_locks = [], ls_heap = [], ls_pcs = replicate n Idle\<rparr>"

inductive reachable :: "nat \<Rightarrow> volumeLocks \<Rightarrow> bool" for n where
  start: "reachable n (start n)"
| call: "reachable n s \<Longrightarrow> call i volume s = Some s' \<Longrightarrow> reachable n s'"
| run: "reachable n s \<Longrightarrow> run i s = Some s' \<Longrightarrow> reachable n s'"

text \<open>
  Nested locks. \<open>outer i = Some k\<close>: caller \<open>i\<close> belongs to the goroutine of caller \<open>k\<close>, calls \<open>lock\<close> while
  \<open>k\<close> holds its lock, and is deferred after it, so that \<open>k\<close> unlocks only when \<open>i\<close> is through.
  \<^verbatim>\<open>RestoreSnapshot\<close> holds the lock of the volume it makes when \<^verbatim>\<open>copyRestoreLocked\<close> takes the lock of
  the volume the snapshot is of. The second one is the older volume: \<open>age\<close> is its place in the order of
  creation, and a caller inside another one asks for a lock of smaller \<open>age\<close>.
\<close>

definition open_inner :: "(nat \<Rightarrow> nat option) \<Rightarrow> nat \<Rightarrow> volumeLocks \<Rightarrow> bool" where
  "open_inner outer i s \<longleftrightarrow> list_ex (\<lambda>j. outer j = Some i \<and> ls_pcs s ! j \<noteq> Idle) [0..<length (ls_pcs s)]"

definition nested_run :: "(nat \<Rightarrow> nat option) \<Rightarrow> nat \<Rightarrow> volumeLocks \<Rightarrow> volumeLocks option" where
  "nested_run outer i s = (if open_inner outer i s then None else run i s)"

definition nested_call ::
  "(nat \<Rightarrow> nat option) \<Rightarrow> (string \<Rightarrow> nat) \<Rightarrow> nat \<Rightarrow> string \<Rightarrow> volumeLocks \<Rightarrow> volumeLocks option" where
  "nested_call outer age i volume s =
     (case outer i of
        None \<Rightarrow> call i volume s
      | Some k \<Rightarrow>
          if k < length (ls_pcs s)
            \<and> (case ls_pcs s ! k of Held u l \<Rightarrow> age volume < age u | _ \<Rightarrow> False)
          then call i volume s else None)"

inductive nested_reachable :: "(nat \<Rightarrow> nat option) \<Rightarrow> (string \<Rightarrow> nat) \<Rightarrow> nat \<Rightarrow> volumeLocks \<Rightarrow> bool"
  for outer age n where
  start: "nested_reachable outer age n (start n)"
| call: "nested_reachable outer age n s \<Longrightarrow> nested_call outer age i volume s = Some s' \<Longrightarrow>
    nested_reachable outer age n s'"
| run: "nested_reachable outer age n s \<Longrightarrow> nested_run outer i s = Some s' \<Longrightarrow>
    nested_reachable outer age n s'"

section \<open>The invariant\<close>

text \<open>The lock a thread counts for, and the threads inside \<^verbatim>\<open>v.mu\<close>.\<close>

fun uses :: "pc \<Rightarrow> (string \<times> nat) option" where
  "uses (Wait v l) = Some (v, l)"
| "uses (Held v l) = Some (v, l)"
| "uses (UnlockStart v l) = Some (v, l)"
| "uses (UnlockTable v l) = Some (v, l)"
| "uses _ = None"

fun in_table :: "pc \<Rightarrow> bool" where
  "in_table (LockTable v) \<longleftrightarrow> True"
| "in_table (UnlockTable v l) \<longleftrightarrow> True"
| "in_table _ \<longleftrightarrow> False"

fun holds :: "pc \<Rightarrow> nat option" where
  "holds (Held v l) = Some l"
| "holds _ = None"

definition users :: "nat \<Rightarrow> pc list \<Rightarrow> nat" where
  "users l pcs = length (filter (\<lambda>p. map_option snd (uses p) = Some l) pcs)"

definition mu_ok :: "volumeLocks \<Rightarrow> bool" where
  "mu_ok s \<longleftrightarrow> (\<forall>i < length (ls_pcs s). in_table (ls_pcs s ! i) \<longleftrightarrow> ls_mu s = Some i) \<and>
     (\<forall>i. ls_mu s = Some i \<longrightarrow> i < length (ls_pcs s))"

definition refs_ok :: "volumeLocks \<Rightarrow> bool" where
  "refs_ok s \<longleftrightarrow> (\<forall>l < length (ls_heap s). vl_refs (ls_heap s ! l) = int (users l (ls_pcs s)))"

definition entries_ok :: "volumeLocks \<Rightarrow> bool" where
  "entries_ok s \<longleftrightarrow>
     (\<forall>i < length (ls_pcs s). \<forall>v l. uses (ls_pcs s ! i) = Some (v, l) \<longrightarrow> map_of (ls_locks s) v = Some l) \<and>
     (\<forall>v l. map_of (ls_locks s) v = Some l \<longrightarrow> l < length (ls_heap s) \<and> 0 < users l (ls_pcs s)) \<and>
     (\<forall>v v' l. map_of (ls_locks s) v = Some l \<and> map_of (ls_locks s) v' = Some l \<longrightarrow> v = v')"

definition holders_ok :: "volumeLocks \<Rightarrow> bool" where
  "holders_ok s \<longleftrightarrow>
     (\<forall>l < length (ls_heap s). \<forall>i. vl_holder (ls_heap s ! l) = Some i \<longleftrightarrow>
        i < length (ls_pcs s) \<and> holds (ls_pcs s ! i) = Some l)"

definition lock_inv :: "volumeLocks \<Rightarrow> bool" where
  "lock_inv s \<longleftrightarrow> mu_ok s \<and> refs_ok s \<and> entries_ok s \<and> holders_ok s"

lemmas lock_inv_defs = lock_inv_def mu_ok_def refs_ok_def entries_ok_def holders_ok_def

definition counts :: "nat \<Rightarrow> pc \<Rightarrow> nat" where
  "counts l p = (if map_option snd (uses p) = Some l then 1 else 0)"

lemma users_split: "users l (xs @ p # ys) = users l xs + counts l p + users l ys"
  by (simp add: users_def counts_def)

lemma users_update:
  assumes "i < length pcs"
  shows "users l (pcs[i := p]) + counts l (pcs ! i) = users l pcs + counts l p"
proof -
  have "pcs = take i pcs @ pcs ! i # drop (Suc i) pcs" using assms by (rule id_take_nth_drop)
  then have "users l pcs = users l (take i pcs) + counts l (pcs ! i) + users l (drop (Suc i) pcs)"
    using users_split [of l "take i pcs" "pcs ! i" "drop (Suc i) pcs"] by simp
  moreover have "users l (pcs[i := p]) = users l (take i pcs) + counts l p + users l (drop (Suc i) pcs)"
    using assms users_split by (simp add: upd_conv_take_nth_drop)
  ultimately show ?thesis by simp
qed

lemma users_pos: "i < length pcs \<Longrightarrow> uses (pcs ! i) = Some (v, l) \<Longrightarrow> 0 < users l pcs"
  by (auto simp: users_def filter_empty_conv intro!: bexI [of _ "pcs ! i"])

lemma users_same: "i < length pcs \<Longrightarrow> uses p = uses (pcs ! i) \<Longrightarrow> users l (pcs[i := p]) = users l pcs"
  using users_update [of i pcs l p] by (simp add: counts_def)

lemma holds_uses: "holds p = Some l \<Longrightarrow> \<exists>v. uses p = Some (v, l)"
  by (cases p) auto

lemma inv_uses:
  assumes "lock_inv s" "i < length (ls_pcs s)" "uses (ls_pcs s ! i) = Some (v, l)"
  shows "map_of (ls_locks s) v = Some l" and "l < length (ls_heap s)"
  using assms unfolding lock_inv_def entries_ok_def by blast+

lemma lock_inv_start: "lock_inv (start n)"
  by (simp add: lock_inv_defs start_def users_def)

text \<open>A view of the program counters that a move leaves alone.\<close>

lemma same_view: "i < length pcs \<Longrightarrow> f p = f (pcs ! i) \<Longrightarrow> f (pcs[i := p] ! j) = f (pcs ! j)"
  by (cases "i = j") simp_all

lemma call_inv:
  assumes "lock_inv s" "call i volume s = Some s'"
  shows "lock_inv s'"
proof -
  have i: "i < length (ls_pcs s)" "ls_pcs s ! i = Idle" and s': "s' = goto i (LockStart volume) s"
    using assms(2) by (auto simp: call_def split: if_splits)
  have v: "uses ((ls_pcs s)[i := LockStart volume] ! j) = uses (ls_pcs s ! j)"
    "in_table ((ls_pcs s)[i := LockStart volume] ! j) = in_table (ls_pcs s ! j)"
    "holds ((ls_pcs s)[i := LockStart volume] ! j) = holds (ls_pcs s ! j)" for j
    by (rule same_view [OF i(1)], simp add: i(2))+
  have "lock_inv s' = lock_inv s"
    unfolding lock_inv_defs s' by (simp add: goto_def v users_same i)
  then show ?thesis using assms(1) by simp
qed

lemma take_mu_inv:
  assumes "lock_inv s" "i < length (ls_pcs s)" "ls_mu s = None"
    and "uses p = uses (ls_pcs s ! i)" "in_table p" "holds p = holds (ls_pcs s ! i)"
  shows "lock_inv (goto i p (s\<lparr>ls_mu := Some i\<rparr>))"
proof -
  have v: "uses ((ls_pcs s)[i := p] ! j) = uses (ls_pcs s ! j)" "holds ((ls_pcs s)[i := p] ! j) = holds (ls_pcs s ! j)" for j
    by (rule same_view [OF assms(2)], simp add: assms(4,6))+
  let ?s = "goto i p (s\<lparr>ls_mu := Some i\<rparr>)"
  have "refs_ok ?s = refs_ok s" "entries_ok ?s = entries_ok s" "holders_ok ?s = holders_ok s"
    unfolding lock_inv_defs by (simp_all add: goto_def v users_same assms)
  moreover have "mu_ok ?s"
  proof -
    have "\<not> in_table (ls_pcs s ! j)" if "j < length (ls_pcs s)" for j
      using assms(1,3) that by (simp add: lock_inv_def mu_ok_def)
    then show ?thesis using assms(2,5) by (auto simp: mu_ok_def goto_def nth_list_update)
  qed
  ultimately show ?thesis using assms(1) by (simp add: lock_inv_def)
qed

lemma set_holder_inv:
  assumes "lock_inv s" "i < length (ls_pcs s)" "uses (ls_pcs s ! i) = Some (v, l)" "uses p = Some (v, l)"
    and "in_table p = in_table (ls_pcs s ! i)"
    and "holds (ls_pcs s ! i) = None \<and> vl_holder (ls_heap s ! l) = None \<and> holds p = Some l \<and> h = Some i
       \<or> holds (ls_pcs s ! i) = Some l \<and> holds p = None \<and> h = None"
  shows "lock_inv (goto i p (set_holder l h s))"
proof -
  note l = inv_uses(2) [OF assms(1-3)]
  have vw: "uses ((ls_pcs s)[i := p] ! j) = uses (ls_pcs s ! j)" "in_table ((ls_pcs s)[i := p] ! j) = in_table (ls_pcs s ! j)" for j
    by (rule same_view [OF assms(2)], simp add: assms(3-5))+
  have "vl_refs ((ls_heap s)[l := (ls_heap s ! l)\<lparr>vl_holder := h\<rparr>] ! k) = vl_refs (ls_heap s ! k)" for k
    using l by (cases "k = l") simp_all
  then have "mu_ok (goto i p (set_holder l h s)) = mu_ok s" "refs_ok (goto i p (set_holder l h s)) = refs_ok s"
    "entries_ok (goto i p (set_holder l h s)) = entries_ok s"
    unfolding lock_inv_defs by (simp_all add: goto_def set_holder_def vw users_same assms(2-4))
  moreover have "holders_ok (goto i p (set_holder l h s))"
  proof -
    have P: "holds ((ls_pcs s)[i := p] ! j) = (if j = i then holds p else holds (ls_pcs s ! j))" for j
      using assms(2) by (cases "j = i") simp_all
    have Q: "vl_holder ((ls_heap s)[l := (ls_heap s ! l)\<lparr>vl_holder := h\<rparr>] ! k) = (if k = l then h else vl_holder (ls_heap s ! k))" for k
      using l by (cases "k = l") simp_all
    have E: "vl_holder (ls_heap s ! k) = Some j \<longleftrightarrow> j < length (ls_pcs s) \<and> holds (ls_pcs s ! j) = Some k"
      if "k < length (ls_heap s)" for k j
      using assms(1) that unfolding lock_inv_def holders_ok_def by blast
    have others: "holds (ls_pcs s ! j) \<noteq> Some l" if "j < length (ls_pcs s)" "j \<noteq> i" for j
      using E [OF l, of j] E [OF l, of i] assms(2,6) that by auto
    have "(if k = l then h else vl_holder (ls_heap s ! k)) = Some j \<longleftrightarrow>
        j < length (ls_pcs s) \<and> (if j = i then holds p else holds (ls_pcs s ! j)) = Some k"
      if "k < length (ls_heap s)" for k j
      using assms(2,6) E [OF that, of j] others [of j] by (cases "k = l"; cases "j = i") auto
    then show ?thesis unfolding holders_ok_def goto_def set_holder_def by (simp add: P Q)
  qed

  ultimately show ?thesis using assms(1) by (simp add: lock_inv_def)
qed

text \<open>The two moves under \<^verbatim>\<open>v.mu\<close> free it, and no other thread is in the table then.\<close>

lemma free_mu:
  assumes "mu_ok s" "i < length (ls_pcs s)" "in_table (ls_pcs s ! i)" "\<not> in_table p"
    and "ls_pcs s' = (ls_pcs s)[i := p]" "ls_mu s' = None"
  shows "mu_ok s'"
proof -
  have "ls_mu s = Some i" using assms(1-3) by (simp add: mu_ok_def)
  then have "\<not> in_table (ls_pcs s ! j)" if "j < length (ls_pcs s)" "j \<noteq> i" for j
    using assms(1) that by (simp add: mu_ok_def)
  then show ?thesis using assms(2,4-6) by (auto simp: mu_ok_def nth_list_update)
qed

lemma users_new:
  assumes "entries_ok s"
  shows "users (length (ls_heap s)) (ls_pcs s) = 0"
proof (rule ccontr)
  assume "users (length (ls_heap s)) (ls_pcs s) \<noteq> 0"
  then obtain p where "p \<in> set (ls_pcs s)" "map_option snd (uses p) = Some (length (ls_heap s))"
    unfolding users_def by (auto simp: filter_empty_conv)
  then obtain j u where "j < length (ls_pcs s)" "uses (ls_pcs s ! j) = Some (u, length (ls_heap s))"
    by (auto simp: in_set_conv_nth)
  then have "length (ls_heap s) < length (ls_heap s)" using assms unfolding entries_ok_def by blast
  then show False by simp
qed

lemma holders_frame:
  assumes "holders_ok s" "i < length (ls_pcs s)" "holds (ls_pcs s ! i) = None" "holds p = None"
    and "ls_pcs s' = (ls_pcs s)[i := p]" "length (ls_heap s') = length (ls_heap s)"
    and "\<And>k. k < length (ls_heap s) \<Longrightarrow> vl_holder (ls_heap s' ! k) = vl_holder (ls_heap s ! k)"
  shows "holders_ok s'"
proof -
  have "holds ((ls_pcs s)[i := p] ! j) = holds (ls_pcs s ! j)" for j
    by (rule same_view [OF assms(2)]) (simp add: assms(3,4))
  then show ?thesis using assms(1,5,6,7) by (simp add: holders_ok_def)
qed

lemma enter_old_inv:
  assumes "lock_inv s" "i < length (ls_pcs s)" "ls_pcs s ! i = LockTable v" "map_of (ls_locks s) v = Some l"
  shows "lock_inv (goto i (Wait v l) ((s\<lparr>ls_heap := (ls_heap s)[l := (ls_heap s ! l)\<lparr>vl_refs := vl_refs (ls_heap s ! l) + 1\<rparr>]\<rparr>)\<lparr>ls_mu := None\<rparr>))"
    (is "lock_inv ?s")
proof -
  have inv: "mu_ok s" "refs_ok s" "entries_ok s" "holders_ok s" using assms(1) by (simp_all add: lock_inv_def)
  have l: "l < length (ls_heap s)" using inv(3) assms(4) unfolding entries_ok_def by blast
  have U: "users k ((ls_pcs s)[i := Wait v l]) = users k (ls_pcs s) + (if k = l then 1 else 0)" for k
    using users_update [OF assms(2), of k "Wait v l"] assms(3) by (simp add: counts_def)
  have "mu_ok ?s" by (rule free_mu [OF inv(1) assms(2), of "Wait v l"]) (simp_all add: assms(3) goto_def)
  moreover have "refs_ok ?s"
    using inv(2) l by (auto simp: refs_ok_def goto_def U nth_list_update)
  moreover have "entries_ok ?s"
    using inv(3) assms(2,4) unfolding entries_ok_def
    by (simp add: goto_def U nth_list_update trans_less_add1)
  moreover have "holders_ok ?s"
    by (rule holders_frame [OF inv(4) assms(2), of "Wait v l"])
      (use l in \<open>auto simp: assms(3) goto_def nth_list_update\<close>)
  ultimately show ?thesis by (simp add: lock_inv_def)
qed

lemma enter_new_inv:
  assumes "lock_inv s" "i < length (ls_pcs s)" "ls_pcs s ! i = LockTable v" "map_of (ls_locks s) v = None"
  defines "l \<equiv> length (ls_heap s)"
  shows "lock_inv (goto i (Wait v l) ((s\<lparr>ls_locks := (v, l) # ls_locks s, ls_heap := ls_heap s @ [\<lparr>vl_holder = None, vl_refs = 1\<rparr>]\<rparr>)\<lparr>ls_mu := None\<rparr>))"
    (is "lock_inv ?s")
proof -
  have inv: "mu_ok s" "refs_ok s" "entries_ok s" "holders_ok s" using assms(1) by (simp_all add: lock_inv_def)
  have U: "users k ((ls_pcs s)[i := Wait v l]) = users k (ls_pcs s) + (if k = l then 1 else 0)" for k
    using users_update [OF assms(2), of k "Wait v l"] assms(3) by (simp add: counts_def)
  have "mu_ok ?s" by (rule free_mu [OF inv(1) assms(2), of "Wait v l"]) (simp_all add: assms(3) goto_def)
  moreover have "refs_ok ?s"
    using inv(2) users_new [OF inv(3)] unfolding refs_ok_def goto_def
    by (auto simp: U [unfolded l_def] l_def nth_append less_Suc_eq)
  moreover have "entries_ok ?s"
  proof -
    have S: "ls_pcs ?s = (ls_pcs s)[i := Wait v l]" "length (ls_heap ?s) = Suc l"
      "map_of (ls_locks ?s) u = (if u = v then Some l else map_of (ls_locks s) u)" for u
      by (simp_all add: goto_def l_def)
    have old: "k < l \<and> 0 < users k (ls_pcs s)" if "map_of (ls_locks s) u = Some k" for u k
      using inv(3) that unfolding entries_ok_def l_def by blast
    have inj: "u = u'" if "map_of (ls_locks s) u = Some k" "map_of (ls_locks s) u' = Some k" for u u' k
      using inv(3) that unfolding entries_ok_def by blast
    show ?thesis
      unfolding entries_ok_def S
    proof (intro conjI allI impI, goal_cases)
      case (1 j u k)
      then show ?case using inv_uses(1) [OF assms(1), of j u k] assms(2,4) by (cases "j = i") auto
    next
      case (2 u k)
      then show ?case using old [of u k] by (auto split: if_splits)
    next
      case (3 u k)
      then show ?case using old [of u k] by (auto simp: U split: if_splits)
    next
      case (4 u u' k)
      then show ?case using inj [of u k u'] old by (auto split: if_splits)
    qed
  qed
  moreover have "holders_ok ?s"
  proof -
    have "holds (ls_pcs s ! j) \<noteq> Some l" if "j < length (ls_pcs s)" for j
      using holds_uses [of "ls_pcs s ! j" l] inv_uses(2) [OF assms(1) that] by (auto simp: l_def)
    moreover have "holds ((ls_pcs s)[i := Wait v l] ! j) = holds (ls_pcs s ! j)" for j
      by (rule same_view [OF assms(2)]) (simp add: assms(3))
    ultimately show ?thesis
      using inv(4) by (simp add: holders_ok_def goto_def l_def nth_append less_Suc_eq)
  qed
  ultimately show ?thesis by (simp add: lock_inv_def)
qed

lemma leave_inv:
  assumes "lock_inv s" "i < length (ls_pcs s)" "ls_pcs s ! i = UnlockTable v l"
  shows "lock_inv (goto i Idle ((leave v l s)\<lparr>ls_mu := None\<rparr>))" (is "lock_inv ?s")
proof -
  have inv: "mu_ok s" "refs_ok s" "entries_ok s" "holders_ok s" using assms(1) by (simp_all add: lock_inv_def)
  have l: "map_of (ls_locks s) v = Some l" "l < length (ls_heap s)" using inv_uses [OF assms(1,2)] assms(3) by simp_all
  have U: "users k ((ls_pcs s)[i := Idle]) = users k (ls_pcs s) - (if k = l then 1 else 0)" for k
    using users_update [OF assms(2), of k Idle] assms(3) by (cases "k = l") (auto simp: counts_def)
  have pos: "0 < users l (ls_pcs s)" using users_pos [OF assms(2)] assms(3) by simp
  have R: "vl_refs (ls_heap s ! l) = int (users l (ls_pcs s))" using inv(2) l(2) by (simp add: refs_ok_def)
  have H: "ls_heap ?s = (ls_heap s)[l := (ls_heap s ! l)\<lparr>vl_refs := vl_refs (ls_heap s ! l) - 1\<rparr>]"
    "ls_pcs ?s = (ls_pcs s)[i := Idle]"
    by (simp_all add: goto_def leave_def Let_def)
  have M: "map_of (ls_locks ?s) u = (if u = v \<and> users l (ls_pcs s) = 1 then None else map_of (ls_locks s) u)" for u
    using R by (auto simp: goto_def leave_def Let_def map_of_filter_key)
  have "mu_ok ?s" by (rule free_mu [OF inv(1) assms(2), of Idle]) (simp_all add: assms(3) goto_def leave_def Let_def)
  moreover have "refs_ok ?s"
    using inv(2) l(2) pos unfolding refs_ok_def H by (auto simp: U nth_list_update)
  moreover have "holders_ok ?s"
    by (rule holders_frame [OF inv(4) assms(2), of Idle])
      (use l in \<open>auto simp: assms(3) H nth_list_update\<close>)
  moreover have "entries_ok ?s"
  proof -
    have len: "length (ls_heap ?s) = length (ls_heap s)" unfolding H by simp
    have old: "k < length (ls_heap s) \<and> 0 < users k (ls_pcs s)" if "map_of (ls_locks s) u = Some k" for u k
      using inv(3) that unfolding entries_ok_def by blast
    have inj: "u = u'" if "map_of (ls_locks s) u = Some k" "map_of (ls_locks s) u' = Some k" for u u' k
      using inv(3) that unfolding entries_ok_def by blast
    show ?thesis
      unfolding entries_ok_def H(2) M len
    proof (intro conjI allI impI, goal_cases)
      case (1 j u k)
      then have j: "j \<noteq> i" using assms(2) by auto
      then have m: "map_of (ls_locks s) u = Some k" using inv_uses(1) [OF assms(1), of j u k] 1 by simp
      have "users l (ls_pcs s) \<noteq> 1" if "u = v"
        using users_pos [of j "(ls_pcs s)[i := Idle]" u k] 1 m l(1) U [of l] that by auto
      then show ?case using m by simp
    next
      case (2 u k)
      then show ?case using old [of u k] by (auto split: if_splits)
    next
      case (3 u k)
      then have "map_of (ls_locks s) u = Some k" "\<not> (u = v \<and> users l (ls_pcs s) = 1)" by (auto split: if_splits)
      then show ?case using old [of u k] inj [of u k v] l(1) pos by (auto simp: U)
    next
      case (4 u u' k)
      then show ?case using inj [of u k u'] by (auto split: if_splits)
    qed
  qed
  ultimately show ?thesis by (simp add: lock_inv_def)
qed

lemma run_inv:
  assumes "lock_inv s" "run i s = Some s'"
  shows "lock_inv s'"
proof -
  have i: "i < length (ls_pcs s)" using assms(2) by (simp add: run_def split: if_splits)
  show ?thesis
  proof (cases "ls_pcs s ! i")
    case Idle
    then show ?thesis using assms(2) i by (simp add: run_def)
  next
    case (LockStart v)
    then show ?thesis using assms(2) i take_mu_inv [OF assms(1) i, of "LockTable v"] by (simp add: run_def split: if_splits)
  next
    case (LockTable v)
    then show ?thesis
      using assms(2) i enter_old_inv [OF assms(1) i LockTable] enter_new_inv [OF assms(1) i LockTable]
      by (auto simp: run_def enter_def Let_def split: option.splits)
  next
    case (Wait v l)
    then show ?thesis
      using assms(2) i set_holder_inv [OF assms(1) i, of v l "Held v l" "Some i"] by (simp add: run_def split: if_splits)
  next
    case (Held v l)
    then show ?thesis
      using assms(2) i set_holder_inv [OF assms(1) i, of v l "UnlockStart v l" None] by (simp add: run_def)
  next
    case (UnlockStart v l)
    then show ?thesis using assms(2) i take_mu_inv [OF assms(1) i, of "UnlockTable v l"] by (simp add: run_def split: if_splits)
  next
    case (UnlockTable v l)
    then show ?thesis using assms(2) i leave_inv [OF assms(1) i UnlockTable] by (simp add: run_def)
  qed
qed

lemma reachable_inv: "reachable n s \<Longrightarrow> lock_inv s"
  by (induction rule: reachable.induct) (blast intro: lock_inv_start call_inv run_inv)+

lemma run_threads: "run i s = Some s' \<Longrightarrow> length (ls_pcs s') = length (ls_pcs s)"
  by (auto simp: run_def goto_def enter_def leave_def set_holder_def Let_def split: if_splits pc.splits option.splits)

lemma reachable_threads: "reachable n s \<Longrightarrow> length (ls_pcs s) = n"
  by (induction rule: reachable.induct) (auto simp: start_def run_threads call_def goto_def split: if_splits)

section \<open>Progress\<close>

fun rank :: "pc \<Rightarrow> nat" where
  "rank Idle = 0"
| "rank (UnlockTable v l) = 1"
| "rank (UnlockStart v l) = 2"
| "rank (Held v l) = 3"
| "rank (Wait v l) = 4"
| "rank (LockTable v) = 5"
| "rank (LockStart v) = 6"

definition work :: "volumeLocks \<Rightarrow> nat" where
  "work s = sum_list (map rank (ls_pcs s))"

fun nested_runs :: "(nat \<Rightarrow> nat option) \<Rightarrow> nat list \<Rightarrow> volumeLocks \<Rightarrow> volumeLocks option" where
  "nested_runs outer [] s = Some s"
| "nested_runs outer (i # is) s =
     (case nested_run outer i s of None \<Rightarrow> None | Some s1 \<Rightarrow> nested_runs outer is s1)"

lemma run_pc:
  "run i s = Some s' \<Longrightarrow> \<exists>p. i < length (ls_pcs s) \<and> ls_pcs s' = (ls_pcs s)[i := p] \<and> rank (ls_pcs s ! i) = Suc (rank p)"
  by (auto simp: run_def goto_def enter_def leave_def set_holder_def Let_def split: if_splits pc.splits option.splits)

lemma run_work: "run i s = Some s' \<Longrightarrow> Suc (work s') = work s"
proof -
  assume "run i s = Some s'"
  then obtain p where p: "i < length (ls_pcs s)" "ls_pcs s' = (ls_pcs s)[i := p]" "rank (ls_pcs s ! i) = Suc (rank p)"
    using run_pc by blast
  have "ls_pcs s = take i (ls_pcs s) @ ls_pcs s ! i # drop (Suc i) (ls_pcs s)" using p(1) by (rule id_take_nth_drop)
  then have "work s = sum_list (map rank (take i (ls_pcs s))) + rank (ls_pcs s ! i) + sum_list (map rank (drop (Suc i) (ls_pcs s)))"
    unfolding work_def by (metis (no_types, lifting) add.assoc list.simps(9) map_append sum_list.Cons sum_list.append)
  then show ?thesis using p by (simp add: work_def upd_conv_take_nth_drop)
qed

text \<open>The volume a call is for. A nested call is for an older volume than the call it is in, which holds its lock.\<close>

fun pc_volume :: "pc \<Rightarrow> string" where
  "pc_volume (LockStart v) = v"
| "pc_volume (LockTable v) = v"
| "pc_volume (Wait v l) = v"
| "pc_volume (Held v l) = v"
| "pc_volume (UnlockStart v l) = v"
| "pc_volume (UnlockTable v l) = v"
| "pc_volume Idle = []"

definition nest_ok :: "(nat \<Rightarrow> nat option) \<Rightarrow> (string \<Rightarrow> nat) \<Rightarrow> pc list \<Rightarrow> bool" where
  "nest_ok outer age pcs \<longleftrightarrow>
     (\<forall>j < length pcs. \<forall>k. pcs ! j \<noteq> Idle \<and> outer j = Some k \<longrightarrow>
        k < length pcs \<and> (\<exists>u l. pcs ! k = Held u l \<and> age (pc_volume (pcs ! j)) < age u))"

lemma nest_okD:
  "nest_ok outer age pcs \<Longrightarrow> j < length pcs \<Longrightarrow> pcs ! j \<noteq> Idle \<Longrightarrow> outer j = Some k \<Longrightarrow>
     k < length pcs \<and> (\<exists>u l. pcs ! k = Held u l \<and> age (pc_volume (pcs ! j)) < age u)"
  by (simp add: nest_ok_def)

lemma run_volume:
  assumes "run i s = Some s'"
  shows "\<exists>p. i < length (ls_pcs s) \<and> ls_pcs s ! i \<noteq> Idle \<and> ls_pcs s' = (ls_pcs s)[i := p]
     \<and> (p = Idle \<or> pc_volume p = pc_volume (ls_pcs s ! i))"
proof -
  have i: "i < length (ls_pcs s)" using assms by (simp add: run_def split: if_splits)
  have e: "enter v s = (l, s1) \<Longrightarrow> ls_pcs s1 = ls_pcs s" for v l s1
    by (auto simp: enter_def Let_def split: option.splits)
  have h: "ls_pcs (leave v l s) = ls_pcs s" "ls_pcs (set_holder l h s) = ls_pcs s" for v l h
    by (simp_all add: leave_def set_holder_def Let_def)
  show ?thesis
    using assms i by (cases "ls_pcs s ! i") (auto simp: run_def goto_def h dest!: e split: if_splits prod.splits)
qed

lemma nested_callD:
  assumes "nested_call outer age i volume s = Some s'"
  shows "call i volume s = Some s'"
    and "outer i = Some k \<Longrightarrow> k < length (ls_pcs s) \<and> (\<exists>u l. ls_pcs s ! k = Held u l \<and> age volume < age u)"
proof -
  show "call i volume s = Some s'"
    using assms unfolding nested_call_def by (cases "outer i") (simp_all split: if_split_asm)
  assume "outer i = Some k"
  then have "k < length (ls_pcs s)" "case ls_pcs s ! k of Held u l \<Rightarrow> age volume < age u | _ \<Rightarrow> False"
    using assms unfolding nested_call_def by (simp_all split: if_split_asm)
  then show "k < length (ls_pcs s) \<and> (\<exists>u l. ls_pcs s ! k = Held u l \<and> age volume < age u)"
    by (cases "ls_pcs s ! k") simp_all
qed

lemma nest_ok_call:
  assumes "nest_ok outer age (ls_pcs s)" "nested_call outer age i volume s = Some s'"
  shows "nest_ok outer age (ls_pcs s')"
proof -
  have i: "i < length (ls_pcs s)" "ls_pcs s ! i = Idle" and s': "ls_pcs s' = (ls_pcs s)[i := LockStart volume]"
    using nested_callD(1) [OF assms(2)] by (auto simp: call_def goto_def split: if_splits)
  show ?thesis
    unfolding nest_ok_def s' length_list_update
  proof (intro allI impI, goal_cases)
    case (1 j k)
    have "k < length (ls_pcs s) \<and> (\<exists>u l. ls_pcs s ! k = Held u l \<and> age (pc_volume ((ls_pcs s)[i := LockStart volume] ! j)) < age u)"
    proof (cases "j = i")
      case True
      then show ?thesis using nested_callD(2) [OF assms(2), of k] 1 i by simp
    next
      case False
      then show ?thesis using nest_okD [OF assms(1), of j k] 1 by simp
    qed
    moreover from this have "k \<noteq> i" using i(2) by auto
    ultimately show ?case by simp
  qed
qed

lemma nest_ok_run:
  assumes "nest_ok outer age (ls_pcs s)" "nested_run outer i s = Some s'"
  shows "nest_ok outer age (ls_pcs s')"
proof -
  have o: "\<not> open_inner outer i s" and r: "run i s = Some s'"
    using assms(2) by (auto simp: nested_run_def split: if_splits)
  obtain p where i: "i < length (ls_pcs s)" "ls_pcs s ! i \<noteq> Idle" and s': "ls_pcs s' = (ls_pcs s)[i := p]"
    and p: "p = Idle \<or> pc_volume p = pc_volume (ls_pcs s ! i)"
    using run_volume [OF r] by blast
  show ?thesis
    unfolding nest_ok_def s' length_list_update
  proof (intro allI impI, goal_cases)
    case (1 j k)
    then have j: "ls_pcs s ! j \<noteq> Idle" "pc_volume ((ls_pcs s)[i := p] ! j) = pc_volume (ls_pcs s ! j)"
      using i p by (cases "j = i"; simp)+
    then obtain u l where k: "k < length (ls_pcs s)" "ls_pcs s ! k = Held u l" "age (pc_volume (ls_pcs s ! j)) < age u"
      using nest_okD [OF assms(1), of j k] 1 by blast
    have "k \<noteq> i" using o j(1) 1 by (auto simp: open_inner_def list_ex_iff)
    then show ?case using j k by simp
  qed
qed

lemma nested_reachable_reachable: "nested_reachable outer age n s \<Longrightarrow> reachable n s"
proof (induction rule: nested_reachable.induct)
  case (call s i volume s')
  then show ?case using nested_callD(1) by (blast intro: reachable.call)
next
  case (run s i s')
  then show ?case by (auto simp: nested_run_def intro: reachable.run split: if_splits)
qed (rule reachable.start)

lemma nested_reachable_ok: "nested_reachable outer age n s \<Longrightarrow> nest_ok outer age (ls_pcs s)"
proof (induction rule: nested_reachable.induct)
  case start
  then show ?case by (simp add: nest_ok_def start_def)
next
  case (call s i volume s')
  then show ?case using nest_ok_call by blast
next
  case (run s i s')
  then show ?case using nest_ok_run by blast
qed

text \<open>
  Where nothing moves, the table's mutex is free, and a call that is not through waits for a holder of its
  volume's lock or has a nested call. Of the calls for the oldest volume one holds the lock,
  and a nested call in it would be for an older one.
\<close>

lemma holder_of:
  assumes "lock_inv s" "i < length (ls_pcs s)" "ls_pcs s ! i = Wait v l" "run i s = None"
  shows "\<exists>j < length (ls_pcs s). ls_pcs s ! j = Held v l"
proof -
  obtain j where j: "vl_holder (ls_heap s ! l) = Some j"
    using assms(2-4) by (cases "vl_holder (ls_heap s ! l)") (simp_all add: run_def)
  note e = inv_uses [OF assms(1,2), of v l]
  have "j < length (ls_pcs s) \<and> holds (ls_pcs s ! j) = Some l"
    using assms(1,3) j e unfolding lock_inv_def holders_ok_def by simp
  then obtain u where u: "ls_pcs s ! j = Held u l" "j < length (ls_pcs s)" by (cases "ls_pcs s ! j") auto
  then have "map_of (ls_locks s) u = Some l" using inv_uses(1) [OF assms(1), of j u l] by simp
  then have "u = v" using assms(1,3) e(1) unfolding lock_inv_def entries_ok_def by (metis uses.simps(1))
  then show ?thesis using u by blast
qed

lemma nobody_idle:
  assumes "lock_inv s" "list_all (\<lambda>p. p = Idle) (ls_pcs s)"
  shows "ls_locks s = []"
proof -
  have "users l (ls_pcs s) = 0" for l
    using assms(2) by (auto simp: users_def filter_empty_conv list_all_iff)
  then have "map_of (ls_locks s) v = None" for v
    using assms(1) unfolding lock_inv_def entries_ok_def by (metis less_irrefl not_None_eq)
  then show ?thesis by (cases "ls_locks s") (auto split: if_splits, metis option.distinct(1))
qed

lemma not_stuck:
  assumes "lock_inv s" "nest_ok outer age (ls_pcs s)" "\<forall>i. nested_run outer i s = None"
  shows "list_all (\<lambda>p. p = Idle) (ls_pcs s) \<and> ls_locks s = []"
proof -
  let ?n = "length (ls_pcs s)"
  have inner: "\<exists>u l. ls_pcs s ! i = Held u l \<and> (\<exists>j < ?n. ls_pcs s ! j \<noteq> Idle \<and> age (pc_volume (ls_pcs s ! j)) < age u)"
    if "open_inner outer i s" for i
    using that nest_okD [OF assms(2)] unfolding open_inner_def list_ex_iff by fastforce
  then have stuck: "run i s = None \<or> (\<exists>u l. ls_pcs s ! i = Held u l)" for i
    using assms(3) [rule_format, of i] by (auto simp: nested_run_def split: if_splits)
  have mu: "ls_mu s = None"
  proof (rule ccontr)
    assume "ls_mu s \<noteq> None"
    then obtain i where i: "ls_mu s = Some i" by auto
    then have "i < ?n" "in_table (ls_pcs s ! i)" using assms(1) by (auto simp: lock_inv_def mu_ok_def)
    then show False using stuck [of i] by (cases "ls_pcs s ! i") (auto simp: run_def split: prod.splits)
  qed
  have older: "\<exists>j < ?n. ls_pcs s ! j \<noteq> Idle \<and> age (pc_volume (ls_pcs s ! j)) < age v"
    if i: "i < ?n" "ls_pcs s ! i = Held v l" for i v l
    using assms(3) [rule_format, of i] i inner [of i] by (auto simp: nested_run_def run_def split: if_splits)
  have older': "\<exists>j < ?n. ls_pcs s ! j \<noteq> Idle \<and> age (pc_volume (ls_pcs s ! j)) < age (pc_volume (ls_pcs s ! i))"
    if i: "i < ?n" "ls_pcs s ! i \<noteq> Idle" for i
  proof (cases "run i s")
    case None
    then obtain v l where w: "ls_pcs s ! i = Wait v l"
      using i mu by (cases "ls_pcs s ! i") (auto simp: run_def split: prod.splits)
    then show ?thesis using holder_of [OF assms(1) i(1) w None] older by auto
  next
    case (Some s1)
    then show ?thesis using stuck [of i] older [OF i(1)] by auto
  qed
  have "ls_pcs s ! i = Idle" if "i < ?n" for i
    using that
  proof (induction "age (pc_volume (ls_pcs s ! i))" arbitrary: i rule: less_induct)
    case less
    then show ?case using older' [of i] by blast
  qed
  then show ?thesis using nobody_idle [OF assms(1)] by (simp add: list_all_length)
qed

lemma nested_runs_reachable:
  "nested_reachable outer age n s \<Longrightarrow> nested_runs outer schedule s = Some s' \<Longrightarrow> nested_reachable outer age n s'"
  by (induction schedule arbitrary: s) (auto split: option.splits intro: nested_reachable.run)

text \<open>Two callers for one volume: the first holds its lock and the second waits.\<close>

definition contended :: volumeLocks where
  "contended = the (nested_runs (\<lambda>_. None) [0, 0, 1, 1, 0] (the (call 1 ''v'' (the (call 0 ''v'' (start 2))))))"

lemma contended_reachable: "reachable 2 contended"
proof -
  let ?o = "\<lambda>_ :: nat. None :: nat option"
  have "nested_call ?o (\<lambda>_. 0) 0 ''v'' (start 2) = Some (the (call 0 ''v'' (start 2)))"
    "nested_call ?o (\<lambda>_. 0) 1 ''v'' (the (call 0 ''v'' (start 2))) = Some (the (call 1 ''v'' (the (call 0 ''v'' (start 2)))))"
    "nested_runs ?o [0, 0, 1, 1, 0] (the (call 1 ''v'' (the (call 0 ''v'' (start 2))))) = Some contended" by code_simp+
  note moves = this
  have "nested_reachable ?o (\<lambda>_. 0) 2 contended"
    by (rule nested_runs_reachable [OF nested_reachable.call [OF nested_reachable.call [OF nested_reachable.start]], OF moves])
  then show ?thesis by (rule nested_reachable_reachable)
qed

text \<open>
  A restore into the new volume \<open>b\<close>, caller 0, has called for the lock of \<open>a\<close>, caller 1, that a snapshot
  of \<open>a\<close> holds, caller 2.
\<close>

definition restoring_in :: "nat \<Rightarrow> nat option" where
  "restoring_in i = (if i = 1 then Some 0 else None)"

definition made_at :: "string \<Rightarrow> nat" where
  "made_at v = (if v = ''a'' then 0 else 1)"

definition restoring :: volumeLocks where
  "restoring = the (nested_call restoring_in made_at 1 ''a'' (the (nested_runs restoring_in [2, 2, 2, 0, 0, 0]
     (the (call 2 ''a'' (the (call 0 ''b'' (start 3))))))))"

lemma restoring_reachable: "nested_reachable restoring_in made_at 3 restoring"
proof -
  let ?a = "the (call 0 ''b'' (start 3))"
  let ?b = "the (call 2 ''a'' ?a)"
  let ?c = "the (nested_runs restoring_in [2, 2, 2, 0, 0, 0] ?b)"
  have "nested_call restoring_in made_at 0 ''b'' (start 3) = Some ?a"
    "nested_call restoring_in made_at 2 ''a'' ?a = Some ?b"
    "nested_runs restoring_in [2, 2, 2, 0, 0, 0] ?b = Some ?c"
    "nested_call restoring_in made_at 1 ''a'' ?c = Some restoring" by code_simp+
  note moves = this
  show ?thesis
    by (rule nested_reachable.call [OF nested_runs_reachable
        [OF nested_reachable.call [OF nested_reachable.call [OF nested_reachable.start]]], OF moves])
qed

section \<open>Properties\<close>

text \<open>
  C17: two callers never hold the lock of one volume at the same time, and a caller that
  waits for a volume is held up by a holder of that same volume only, whatever interleaving of \<open>lock\<close> and
  unlock calls led there, nested calls included.
\<close>

theorem volume_lock_excludes:
  assumes "reachable n s" "i < n"
  shows "(\<forall>j v l l'. j < n \<and> ls_pcs s ! i = Held v l \<and> ls_pcs s ! j = Held v l' \<longrightarrow> i = j)
    \<and> (\<forall>v l. ls_pcs s ! i = Wait v l \<and> run i s = None \<longrightarrow> (\<exists>j < n. ls_pcs s ! j = Held v l))"
proof -
  note inv = reachable_inv [OF assms(1)] and n = reachable_threads [OF assms(1)]
  have own: "vl_holder (ls_heap s ! l) = Some j" if "j < n" "ls_pcs s ! j = Held v l" for j v l
    using inv inv_uses(2) [OF inv, of j v l] that n unfolding lock_inv_def holders_ok_def by simp
  have same: "l = l'" if "j < n" "ls_pcs s ! i = Held v l" "ls_pcs s ! j = Held v l'" for j v l l'
    using inv_uses(1) [OF inv, of i v l] inv_uses(1) [OF inv, of j v l'] that assms(2) n by simp
  have "\<exists>j < n. ls_pcs s ! j = Held v l" if "ls_pcs s ! i = Wait v l" "run i s = None" for v l
    using holder_of [OF inv, of i v l] that assms(2) n by simp
  then show ?thesis using own same assms(2) by (metis option.inject)
qed

theorem volume_lock_excludes_witness:
  "reachable 2 contended \<and> run 1 contended = None \<and> (\<exists>j < 2. ls_pcs contended ! j = Held ''v'' 0)"
proof -
  have w: "ls_pcs contended ! 1 = Wait ''v'' 0 \<and> run 1 contended = None" by code_simp
  then show ?thesis using volume_lock_excludes [OF contended_reachable, of 1] contended_reachable by auto
qed

text \<open>
  C18: the lock table does not leak, and callers that nest locks in one order do not deadlock. A
  schedule takes exactly as many moves as \<open>work\<close> goes down, so it ends until new calls come in, and where it
  can go no further every caller has finished and the table of locks is empty. A caller may hold one lock and
  wait for another, as a restore does, when the inner volume is the older one.
\<close>

theorem volume_locks_finish:
  assumes "nested_reachable outer age n s" "nested_runs outer schedule s = Some s'"
  shows "length schedule + work s' = work s
    \<and> ((\<forall>i. nested_run outer i s' = None) \<longrightarrow> list_all (\<lambda>p. p = Idle) (ls_pcs s') \<and> ls_locks s' = [])"
proof -
  have "length schedule + work s' = work s"
    using assms(2)
  proof (induction schedule arbitrary: s)
    case (Cons i "is")
    then obtain s1 where s1: "nested_run outer i s = Some s1" "nested_runs outer is s1 = Some s'"
      by (auto split: option.splits)
    then show ?case using Cons.IH [of s1] run_work [of i s s1] by (simp add: nested_run_def split: if_splits)
  qed simp
  moreover have "nested_reachable outer age n s'" by (rule nested_runs_reachable [OF assms])
  then have "lock_inv s'" "nest_ok outer age (ls_pcs s')"
    using reachable_inv [OF nested_reachable_reachable] nested_reachable_ok by blast+
  ultimately show ?thesis using not_stuck by blast
qed

theorem volume_locks_finish_witness:
  "\<exists>s'. nested_run restoring_in 0 restoring = None \<and> work restoring = 12 \<and> ls_locks s' = []
     \<and> nested_runs restoring_in [1, 1, 2, 2, 2, 1, 1, 1, 1, 0, 0, 0] restoring = Some s'"
proof -
  let ?is = "[1, 1, 2, 2, 2, 1, 1, 1, 1, 0, 0, 0] :: nat list"
  obtain s' where r: "nested_runs restoring_in ?is restoring = Some s'" "ls_pcs s' = [Idle, Idle, Idle]"
  proof -
    have "(case nested_runs restoring_in ?is restoring of Some s' \<Rightarrow> ls_pcs s' = [Idle, Idle, Idle] | None \<Rightarrow> False)" by code_simp
    then show ?thesis using that by (auto split: option.splits)
  qed
  have b: "nested_run restoring_in 0 restoring = None" by code_simp
  have "run i s' = None" for i
    using r(2) by (cases "i = 0"; cases "i = 1"; cases "i = 2") (simp_all add: run_def)
  then have "nested_run restoring_in i s' = None" for i by (simp add: nested_run_def)
  then show ?thesis using volume_locks_finish [OF restoring_reachable r(1)] r b by (simp add: work_def)
qed

end
