(* ===== verification/Bytes.thy ===== *)
theory Bytes
  imports Prelude "HOL-Library.Word"
begin

text \<open>
  Bytes and files, for the code that works on disk images: \<^verbatim>\<open>encoding/binary\<close> with
  \<^verbatim>\<open>binary.BigEndian\<close>, and a file as the list of its bytes with the effect of \<^verbatim>\<open>ReadAt\<close>,
  \<^verbatim>\<open>WriteAt\<close> and \<^verbatim>\<open>Truncate\<close>. A file is determined by its length and the bytes \<open>byteAt\<close> gives, which
  are zero past the end, as a hole reads.
\<close>

named_theorems file_simps \<open>length and contents of a changed file\<close>

type_synonym byte = "8 word"

section \<open>Big-endian numbers\<close>

primrec be :: "nat \<Rightarrow> nat \<Rightarrow> byte list" where
  "be 0 x = []"
| "be (Suc n) x = of_nat (x div 256 ^ n) # be n x"

definition unbe :: "byte list \<Rightarrow> nat" where
  "unbe bs = foldl (\<lambda>a b. a * 256 + unat b) 0 bs"

definition PutUint64 :: "64 word \<Rightarrow> byte list" where
  "PutUint64 x = be 8 (unat x)"

definition PutUint32 :: "32 word \<Rightarrow> byte list" where
  "PutUint32 x = be 4 (unat x)"

text \<open>Go's \<^verbatim>\<open>Uint64\<close> reads the first eight bytes of a slice that has at least eight.\<close>

definition Uint64 :: "byte list \<Rightarrow> 64 word" where
  "Uint64 bs = of_nat (unbe (take 8 bs))"

definition Uint32 :: "byte list \<Rightarrow> 32 word" where
  "Uint32 bs = of_nat (unbe (take 4 bs))"

lemma length_be [simp]: "length (be n x) = n"
  by (induction n) simp_all

lemma unbe_foldl: "foldl (\<lambda>a b. a * 256 + unat b) a bs = a * 256 ^ length bs + unbe bs"
proof (induction bs arbitrary: a)
  case (Cons b bs)
  show ?case using Cons [of "a * 256 + unat b"] Cons [of "unat b"] by (simp add: unbe_def algebra_simps)
qed (simp add: unbe_def)

lemma unbe_simps [simp]: "unbe [] = 0" "unbe (b # bs) = unat b * 256 ^ length bs + unbe bs"
  using unbe_foldl [of "unat b" bs] by (simp_all add: unbe_def)

lemma unbe_less: "unbe bs < 256 ^ length bs"
proof (induction bs)
  case (Cons b bs)
  have "unat b \<le> 255" using unsigned_less [of b, where 'a = nat] by simp
  then have "unat b * 256 ^ length bs + unbe bs < 255 * 256 ^ length bs + 256 ^ length bs"
    using Cons by (intro add_le_less_mono mult_le_mono1)
  then show ?case by simp
qed simp

lemma unbe_be: "unbe (be n x) = x mod 256 ^ n"
proof (induction n)
  case (Suc n)
  have "unat (of_nat (x div 256 ^ n) :: byte) = x div 256 ^ n mod 256" by (simp add: unat_of_nat)
  moreover have "x mod 256 ^ Suc n = 256 ^ n * (x div 256 ^ n mod 256) + x mod 256 ^ n"
    using mod_mult2_eq [of x "256 ^ n" 256] by (simp add: mult.commute)
  ultimately show ?case using Suc by (simp add: mult.commute)
qed simp

lemma be_unbe: "be (length bs) (unbe bs) = bs"
proof (induction bs)
  case (Cons b bs)
  have "unbe (b # bs) div 256 ^ length bs = unat b" using unbe_less [of bs] by simp
  moreover have "be n (a * 256 ^ k + x) = be n x" if "n \<le> k" for n a k x
    using that
  proof (induction n)
    case (Suc n)
    have "256 ^ k = 256 ^ (k - n) * (256 ^ n :: nat)" using Suc.prems by (simp flip: power_add)
    then have d: "(a * 256 ^ k + x) div 256 ^ n = a * 256 ^ (k - n) + x div 256 ^ n" by (simp flip: mult.assoc)
    obtain j where j: "k - n = Suc j" using Suc.prems by (cases "k - n") simp_all
    have "(of_nat 256 :: byte) = 0" by simp
    then have "(of_nat (256 ^ (k - n)) :: byte) = 0" by (simp only: j power_Suc of_nat_mult mult_zero_left)
    then show ?case using Suc d by simp
  qed simp
  ultimately show ?case using Cons by simp
qed simp

lemma length_Put [simp]: "length (PutUint64 x) = 8" "length (PutUint32 y) = 4"
  by (simp_all add: PutUint64_def PutUint32_def)

lemma Uint64_Put [simp]: "Uint64 (PutUint64 x @ bs) = x"
  using unsigned_less [of x, where 'a = nat] by (simp add: Uint64_def PutUint64_def unbe_be)

lemma Uint64_Put_end [simp]: "Uint64 (PutUint64 x) = x"
  using Uint64_Put [of x "[]"] by simp

lemma Uint32_Put [simp]: "Uint32 (PutUint32 x @ bs) = x"
  using unsigned_less [of x, where 'a = nat] by (simp add: Uint32_def PutUint32_def unbe_be)

lemma Put_Uint64: "8 \<le> length bs \<Longrightarrow> PutUint64 (Uint64 bs) = take 8 bs"
proof -
  assume "8 \<le> length bs"
  then have l: "length (take 8 bs) = 8" by simp
  then have "unat (Uint64 bs) = unbe (take 8 bs)"
    using unbe_less [of "take 8 bs"] by (simp add: Uint64_def unat_of_nat)
  then show ?thesis using be_unbe [of "take 8 bs"] l by (simp add: PutUint64_def)
qed

text \<open>\<^verbatim>\<open>uint64(x)\<close> for an \<^verbatim>\<open>int64\<close> and back.\<close>

lemma int64_uint64: "int64_range x \<Longrightarrow> sint (of_int x :: 64 word) = x"
  by (simp add: int64_range_def signed_take_bit_int_eq_self sint_sbintrunc')

section \<open>Files\<close>

definition byteAt :: "byte list \<Rightarrow> nat \<Rightarrow> byte" where
  "byteAt f i = (if i < length f then f ! i else 0)"

definition ReadAt :: "byte list \<Rightarrow> nat \<Rightarrow> nat \<Rightarrow> byte list" where
  "ReadAt f off n = take n (drop off f)"

definition WriteAt :: "byte list \<Rightarrow> nat \<Rightarrow> byte list \<Rightarrow> byte list" where
  "WriteAt f off data =
     (if data = [] then f else take off (f @ replicate (off - length f) 0) @ data @ drop (off + length data) f)"

definition Truncate :: "nat \<Rightarrow> byte list \<Rightarrow> byte list" where
  "Truncate n f = take n f @ replicate (n - length f) 0"

lemma file_eqI: "length f = length g \<Longrightarrow> (\<And>i. i < length g \<Longrightarrow> byteAt f i = byteAt g i) \<Longrightarrow> f = g"
  by (rule nth_equalityI) (auto simp: byteAt_def split: if_splits)

lemma byteAt_end: "length f \<le> i \<Longrightarrow> byteAt f i = 0"
  by (simp add: byteAt_def)

lemma length_WriteAt [file_simps]: "length (WriteAt f off data) = (if data = [] then length f else max (length f) (off + length data))"
  by (auto simp: WriteAt_def)

lemma byteAt_WriteAt [file_simps]:
  "byteAt (WriteAt f off data) i = (if off \<le> i \<and> i < off + length data then data ! (i - off) else byteAt f i)"
  by (auto simp: byteAt_def WriteAt_def nth_append min_def)

lemma byteAt_WriteAt_zeros: "byteAt (WriteAt f off (replicate n 0)) i = (if off \<le> i \<and> i < off + n then 0 else byteAt f i)"
  by (auto simp: byteAt_WriteAt)

lemma length_Truncate [file_simps]: "length (Truncate n f) = n"
  by (simp add: Truncate_def)

lemma byteAt_Truncate [file_simps]: "byteAt (Truncate n f) i = (if i < n then byteAt f i else 0)"
  by (auto simp: byteAt_def Truncate_def nth_append)

lemma length_ReadAt: "length (ReadAt f off n) = min n (length f - off)"
  by (simp add: ReadAt_def)

lemma nth_ReadAt: "i < length (ReadAt f off n) \<Longrightarrow> ReadAt f off n ! i = byteAt f (off + i)"
  by (auto simp: ReadAt_def byteAt_def)

lemma byteAt_ReadAt: "byteAt (ReadAt f off n) i = (if i < n then byteAt f (off + i) else 0)"
  by (auto simp: ReadAt_def byteAt_def)

lemma byteAt_replicate [simp]: "byteAt (replicate n 0) i = 0"
  by (simp add: byteAt_def)

lemma Truncate_id: "Truncate (length f) f = f"
  by (simp add: Truncate_def)

end
