(* ===== verification/Undo_Files.thy ===== *)
theory Undo_Files
  imports Bytes
begin

text \<open>
  The format of the undo files of \<^verbatim>\<open>pkg/replication/undo.go\<close>: a header, one record per saved
  block and an end marker with the number of records. \<open>readUndoFrom\<close> is the checking reader; the records
  its call-back sees come as a list, before the header or the error. Reading accepts exactly the files that
  writing makes.
\<close>

section \<open>Writing\<close>

definition bytesOf :: "string \<Rightarrow> byte list" where
  "bytesOf s = map of_char s"

definition undoMagic :: "byte list" where
  "undoMagic = bytesOf ''REPLUND1''"

definition undoEndMagic :: "byte list" where
  "undoEndMagic = bytesOf ''REPLEND1''"

definition compareChunk :: nat where
  "compareChunk = 64 * 2 ^ 10"

definition maxDiskBytes :: int where
  "maxDiskBytes = 2 ^ 50"

text \<open>Times are nanoseconds since 1970.\<close>

record undoHeader =
  uh_from :: int
  uh_to :: int
  uh_oldSize :: int
  uh_newSize :: int

definition encodeHeader :: "undoHeader \<Rightarrow> byte list" where
  "encodeHeader h = undoMagic @ PutUint64 (of_int (uh_from h)) @ PutUint64 (of_int (uh_to h))
     @ PutUint64 (of_int (uh_oldSize h)) @ PutUint64 (of_int (uh_newSize h))"

definition encodeRecord :: "nat \<times> byte list \<Rightarrow> byte list" where
  "encodeRecord = (\<lambda>(off, data). PutUint64 (of_nat off) @ PutUint64 (of_nat (length data)) @ data)"

definition encodeUndo :: "undoHeader \<Rightarrow> (nat \<times> byte list) list \<Rightarrow> byte list" where
  "encodeUndo h recs = encodeHeader h @ concat (map encodeRecord recs) @ undoEndMagic @ PutUint64 (of_nat (length recs))"

section \<open>Reading\<close>

text \<open>
  The loop over the records of \<open>readUndoFrom\<close>: what is left of the file, the bytes of records that remain
  and the position. The result is the records seen and, without an error, the rest of the file and what remains.
\<close>

function readRecords ::
  "int \<Rightarrow> byte list \<Rightarrow> int \<Rightarrow> nat \<Rightarrow> (nat \<times> byte list \<times> nat) list \<times> (string + byte list \<times> int)" where
  "readRecords oldSize r remaining pos =
     (if remaining \<le> 0 then ([], Inr (r, remaining))
      else if length r < 16 then ([], Inl ''cut short'')
      else
        let off = sint (Uint64 r); n = sint (Uint64 (drop 8 r)) in
        if off < 0 \<or> n \<le> 0 \<or> n > int compareChunk \<or> off > oldSize - n then ([], Inl ''bad record'')
        else if length r < 16 + nat n then ([], Inl ''cut short'')
        else
          (case readRecords oldSize (drop (16 + nat n) r) (remaining - (16 + n)) (pos + 16 + nat n) of
             (recs, res) \<Rightarrow> ((nat off, take (nat n) (drop 16 r), pos + 16) # recs, res)))"
  by auto
termination
  by (relation "measure (\<lambda>(oldSize, r, remaining, pos). length r)") auto

declare readRecords.simps [simp del]

definition readUndoFrom :: "byte list \<Rightarrow> (nat \<times> byte list \<times> nat) list \<times> (string + undoHeader)" where
  "readUndoFrom f =
     (if length f < 40 \<or> take 8 f \<noteq> undoMagic then ([], Inl ''no valid header'')
      else
        let h = \<lparr>uh_from = sint (Uint64 (drop 8 f)), uh_to = sint (Uint64 (drop 16 f)),
                 uh_oldSize = sint (Uint64 (drop 24 f)), uh_newSize = sint (Uint64 (drop 32 f))\<rparr> in
        if uh_oldSize h < 0 \<or> uh_newSize h < 0 \<or> uh_oldSize h > maxDiskBytes \<or> uh_newSize h > maxDiskBytes
        then ([], Inl ''bad header'')
        else
          (case readRecords (uh_oldSize h) (drop 40 f) (int (length f) - 40 - 8 - 8) 40 of
             (recs, Inl e) \<Rightarrow> (recs, Inl e)
           | (recs, Inr (r, remaining)) \<Rightarrow>
               if length r < 16 \<or> take 8 r \<noteq> undoEndMagic \<or> unat (Uint64 (drop 8 r)) \<noteq> length recs \<or> remaining \<noteq> 0
               then (recs, Inl ''not complete'') else (recs, Inr h)))"

section \<open>Reading is the inverse of writing\<close>

definition headerOk :: "undoHeader \<Rightarrow> bool" where
  "headerOk h \<longleftrightarrow> int64_range (uh_from h) \<and> int64_range (uh_to h) \<and> 0 \<le> uh_oldSize h \<and> uh_oldSize h \<le> maxDiskBytes
     \<and> 0 \<le> uh_newSize h \<and> uh_newSize h \<le> maxDiskBytes"

definition recordOk :: "int \<Rightarrow> nat \<times> byte list \<Rightarrow> bool" where
  "recordOk oldSize = (\<lambda>(off, data). data \<noteq> [] \<and> length data \<le> compareChunk \<and> int (off + length data) \<le> oldSize)"

text \<open>The records with the position of their data in the file.\<close>

fun positions :: "nat \<Rightarrow> (nat \<times> byte list) list \<Rightarrow> (nat \<times> byte list \<times> nat) list" where
  "positions pos [] = []"
| "positions pos ((off, data) # recs) = (off, data, pos + 16) # positions (pos + 16 + length data) recs"

lemma map_positions [simp]: "map (\<lambda>(off, data, p). (off, data)) (positions pos recs) = recs"
  by (induction pos recs rule: positions.induct) simp_all

lemma length_positions [simp]: "length (positions pos recs) = length recs"
  by (induction pos recs rule: positions.induct) simp_all

lemma length_magic [simp]: "length undoMagic = 8" "length undoEndMagic = 8"
  by (simp_all add: undoMagic_def undoEndMagic_def bytesOf_def)

lemma length_encodeHeader [simp]: "length (encodeHeader h) = 40"
  by (simp add: encodeHeader_def)

lemma length_encodeRecord: "length (encodeRecord r) = 16 + length (snd r)"
  by (simp add: encodeRecord_def split: prod.splits)

lemma uint64_of_nat: "x < 2 ^ 63 \<Longrightarrow> sint (of_nat x :: 64 word) = int x"
  using int64_uint64 [of "int x"] by (simp add: int64_range_def)

lemma sint_range: "int64_range (sint (w :: 64 word))"
  using sint_ge [of w] sint_lt [of w] by (simp add: int64_range_def)

lemma of_nat_sint: "0 \<le> sint (w :: 64 word) \<Longrightarrow> of_nat (nat (sint w)) = w"
  by (simp add: of_nat_nat)

lemma readRecords_encode:
  assumes "list_all (recordOk oldSize) recs" "oldSize \<le> maxDiskBytes"
  shows "readRecords oldSize (concat (map encodeRecord recs) @ rest) (int (length (concat (map encodeRecord recs)))) pos
     = (positions pos recs, Inr (rest, 0))"
  using assms(1)
proof (induction recs arbitrary: pos)
  case (Cons r recs)
  obtain off data where r: "r = (off, data)" by (rule prod.exhaust)
  have ok: "data \<noteq> []" "length data \<le> compareChunk" "int (off + length data) \<le> oldSize" using Cons.prems by (simp_all add: r recordOk_def)
  have "off < 2 ^ 63" using ok(3) assms(2) by (simp add: maxDiskBytes_def)
  then have off: "sint (of_nat off :: 64 word) = int off" by (rule uint64_of_nat)
  have n: "sint (of_nat (length data) :: 64 word) = int (length data)"
    using ok(2) by (intro uint64_of_nat) (simp add: compareChunk_def)
  have "int off > oldSize - int (length data) \<longleftrightarrow> False" using ok(3) by simp
  then show ?case
    using ok Cons by (subst readRecords.simps) (simp add: r encodeRecord_def off n Let_def add.assoc)
qed (simp add: readRecords.simps)

lemma readRecords_parsed:
  assumes "readRecords oldSize r remaining pos = (recs, Inr (rest, rem'))"
  shows "\<exists>rs. recs = positions pos rs \<and> list_all (recordOk oldSize) rs \<and> r = concat (map encodeRecord rs) @ rest
    \<and> remaining = int (length (concat (map encodeRecord rs))) + rem'"
  using assms
proof (induction oldSize r remaining pos arbitrary: recs rule: readRecords.induct)
  case (1 oldSize r remaining pos)
  show ?case
  proof (cases "remaining \<le> 0")
    case True
    then have "recs = []" "r = rest" "remaining = rem'" using 1(2) by (simp_all add: readRecords.simps)
    then show ?thesis by (intro exI [of _ "[]"]) simp
  next
    case False
    define off where "off = sint (Uint64 r)"
    define n where "n = sint (Uint64 (drop 8 r))"
    obtain recs' where rec: "readRecords oldSize (drop (16 + nat n) r) (remaining - (16 + n)) (pos + 16 + nat n) = (recs', Inr (rest, rem'))"
      and recs: "recs = (nat off, take (nat n) (drop 16 r), pos + 16) # recs'"
      and c: "\<not> length r < 16" "\<not> (off < 0 \<or> n \<le> 0 \<or> n > int compareChunk \<or> off > oldSize - n)" "\<not> length r < 16 + nat n"
      using 1(2) False unfolding off_def n_def
      by (subst (asm) readRecords.simps) (auto simp: Let_def split: if_splits prod.splits)
    obtain rs where rs: "recs' = positions (pos + 16 + nat n) rs" "list_all (recordOk oldSize) rs"
      "drop (16 + nat n) r = concat (map encodeRecord rs) @ rest"
      "remaining - (16 + n) = int (length (concat (map encodeRecord rs))) + rem'"
      using 1(1) [OF False c(1) off_def n_def c(2,3) rec] by blast
    define data where "data = take (nat n) (drop 16 r)"
    have len: "length data = nat n" using c(3) by (simp add: data_def)
    have "PutUint64 (of_nat (nat off)) = take 8 r" "PutUint64 (of_nat (length data)) = take 8 (drop 8 r)"
      using c Put_Uint64 [of r] Put_Uint64 [of "drop 8 r"] of_nat_sint [of "Uint64 r"] of_nat_sint [of "Uint64 (drop 8 r)"]
      by (simp_all add: off_def n_def len)
    then have "encodeRecord (nat off, data) = take 8 r @ take 8 (drop 8 r) @ take (nat n) (drop 16 r)"
      by (simp add: encodeRecord_def data_def)
    also have "\<dots> = take (16 + nat n) r" using take_add [of 8 8 r] by (simp add: take_add)
    finally have "encodeRecord (nat off, data) = take (16 + nat n) r" .
    then have "r = concat (map encodeRecord ((nat off, data) # rs)) @ rest" using rs(3) by (metis append_assoc append_take_drop_id concat.simps(2) list.simps(9))
    moreover have "recordOk oldSize (nat off, data)" using c len by (auto simp: recordOk_def)
    moreover have "recs = positions pos ((nat off, data) # rs)" using recs rs(1) len by (simp add: data_def)
    moreover have "remaining = int (length (concat (map encodeRecord ((nat off, data) # rs)))) + rem'"
      using rs(4) c len by (simp add: length_encodeRecord)
    ultimately show ?thesis using rs(2) by (intro exI [of _ "(nat off, data) # rs"]) simp
  qed
qed

lemma readUndoFrom_encode:
  assumes "headerOk h" "list_all (recordOk (uh_oldSize h)) recs" "length recs < 2 ^ 64"
  shows "readUndoFrom (encodeUndo h recs) = (positions 40 recs, Inr h)"
proof -
  let ?f = "encodeUndo h recs"
  have rng: "int64_range (uh_oldSize h)" "int64_range (uh_newSize h)"
    using assms(1) by (simp_all add: headerOk_def maxDiskBytes_def int64_range_def)
  have f: "sint (Uint64 (drop 8 ?f)) = uh_from h" "sint (Uint64 (drop 16 ?f)) = uh_to h"
    "sint (Uint64 (drop 24 ?f)) = uh_oldSize h" "sint (Uint64 (drop 32 ?f)) = uh_newSize h"
    using assms(1) rng by (simp_all add: encodeUndo_def encodeHeader_def headerOk_def int64_uint64)
  have l: "int (length ?f) - 40 - 8 - 8 = int (length (concat (map encodeRecord recs)))" by (simp add: encodeUndo_def)
  have d: "drop 40 ?f = concat (map encodeRecord recs) @ undoEndMagic @ PutUint64 (of_nat (length recs))"
    by (simp add: encodeUndo_def)
  have m: "take 8 ?f = undoMagic" by (simp add: encodeUndo_def encodeHeader_def)
  have "readRecords (uh_oldSize h) (drop 40 ?f) (int (length ?f) - 40 - 8 - 8) 40
      = (positions 40 recs, Inr (undoEndMagic @ PutUint64 (of_nat (length recs)), 0))"
    unfolding l d using assms(1,2) by (intro readRecords_encode) (simp_all add: headerOk_def)
  moreover have "unat (of_nat (length recs) :: 64 word) = length recs" using assms(3) by (simp add: unat_of_nat)
  moreover have "\<not> length ?f < 40" by (simp add: encodeUndo_def)
  ultimately show ?thesis using m assms(1) by (simp add: readUndoFrom_def Let_def f headerOk_def)
qed

lemma readUndoFrom_parsed:
  assumes "readUndoFrom f = (recs, Inr h)"
  shows "\<exists>rs. recs = positions 40 rs \<and> f = encodeUndo h rs \<and> headerOk h \<and> list_all (recordOk (uh_oldSize h)) rs \<and> length rs < 2 ^ 64"
proof -
  obtain r where l: "40 \<le> length f" and m: "take 8 f = undoMagic"
    and h: "h = \<lparr>uh_from = sint (Uint64 (drop 8 f)), uh_to = sint (Uint64 (drop 16 f)),
                 uh_oldSize = sint (Uint64 (drop 24 f)), uh_newSize = sint (Uint64 (drop 32 f))\<rparr>"
    and b: "0 \<le> uh_oldSize h" "0 \<le> uh_newSize h" "uh_oldSize h \<le> maxDiskBytes" "uh_newSize h \<le> maxDiskBytes"
    and rr: "readRecords (uh_oldSize h) (drop 40 f) (int (length f) - 40 - 8 - 8) 40 = (recs, Inr (r, 0))"
    and e: "16 \<le> length r" "take 8 r = undoEndMagic" "unat (Uint64 (drop 8 r)) = length recs"
    using assms unfolding readUndoFrom_def Let_def
    by (auto split: if_splits prod.splits sum.splits)
  obtain rs where rs: "recs = positions 40 rs" "list_all (recordOk (uh_oldSize h)) rs" "drop 40 f = concat (map encodeRecord rs) @ r"
    "int (length f) - 56 = int (length (concat (map encodeRecord rs)))"
    using readRecords_parsed [OF rr] by auto
  have "length f = 40 + length (concat (map encodeRecord rs)) + length r" using rs(3) l by (metis append_take_drop_id length_append length_take min.absorb2 add.assoc)
  then have "length r = 16" using rs(4) by simp
  then have "drop 8 r = PutUint64 (Uint64 (drop 8 r))" using Put_Uint64 [of "drop 8 r"] by simp
  moreover have "Uint64 (drop 8 r) = of_nat (length rs)" using arg_cong [OF e(3), of "of_nat :: nat \<Rightarrow> 64 word"] rs(1) by simp
  ultimately have "r = undoEndMagic @ PutUint64 (of_nat (length rs))" using e(2) by (metis append_take_drop_id)
  moreover have "take 40 f = encodeHeader h"
  proof -
    have "take 40 f = take 8 f @ take 8 (drop 8 f) @ take 8 (drop 16 f) @ take 8 (drop 24 f) @ take 8 (drop 32 f)"
      using take_add [of 8 8 f] take_add [of 16 8 f] take_add [of 24 8 f] take_add [of 32 8 f] by simp
    then show ?thesis using m l by (simp add: encodeHeader_def h Put_Uint64)
  qed
  ultimately have "f = encodeUndo h rs" using rs(3) by (metis append_take_drop_id encodeUndo_def)
  moreover have "headerOk h" using b by (simp add: headerOk_def h sint_range)
  moreover have "length rs < 2 ^ 64" using e(3) rs(1) unsigned_less [of "Uint64 (drop 8 r)", where 'a = nat] by simp
  ultimately show ?thesis using rs by blast
qed

section \<open>Properties\<close>

text \<open>
  C22: reading an undo file is the inverse of writing it. The reader accepts a file with a header and
  records exactly when it is the file that is written for them, and then hands out the same records, in order
  and each with the place of its data in the file; a file that is cut short or changed in its frame is refused.
\<close>

theorem undo_roundtrip:
  "readUndoFrom f = (recs, Inr h) \<longleftrightarrow>
     (\<exists>rs. f = encodeUndo h rs \<and> recs = positions 40 rs \<and> headerOk h \<and> list_all (recordOk (uh_oldSize h)) rs \<and> length rs < 2 ^ 64)"
  (is "?read \<longleftrightarrow> ?written")
proof
  assume ?read
  then show ?written using readUndoFrom_parsed by blast
next
  assume ?written
  then show ?read using readUndoFrom_encode by blast
qed

end
