(* ===== verification/Qcow2.thy ===== *)
theory Qcow2
  imports Bytes
begin

text \<open>
  \<^verbatim>\<open>pkg/qcow2/qcow2.go\<close>: the reader of QEMU staging files. An image is the list of the bytes
  of its file; sizes and offsets are natural numbers, as every one of them comes from an unsigned field that
  \<open>Open\<close> bounds below \<open>2 ^ 62\<close>. A call-back that is run for every extent is the list of the extents it
  sees, and an error of the walk comes after them. \<open>guestByte\<close> is what the format says about one byte of the
  disk; the walk, which merges clusters, is proved to say the same.
\<close>

unbundle bit_operations_syntax

section \<open>The image\<close>

datatype Kind = Data | Zero

record Extent =
  e_Offset :: nat
  e_Length :: nat
  e_Kind :: Kind
  e_HostOffset :: nat

record Image =
  im_VirtualSize :: nat
  im_ClusterSize :: nat
  im_r :: "byte list"
  im_fileSize :: nat
  im_version :: nat
  im_l1Size :: nat
  im_l1Offset :: nat
  im_l2Entries :: nat

definition maxL1Entries :: nat where
  "maxL1Entries = 32 * 2 ^ 20 div 8"

text \<open>The checks of the header, in the order of the code; \<open>h\<close> is the buffer of 104 bytes after the read.\<close>

definition Open :: "byte list \<Rightarrow> nat \<Rightarrow> string + Image" where
  "Open r fileSize =
     (let n = min 104 (length r);
          h = take 104 r @ replicate (104 - n) 0;
          version = unat (Uint32 (drop 4 h));
          bits = unat (Uint32 (drop 20 h));
          clusterSize = 2 ^ bits;
          l2Entries = clusterSize div 8;
          size = unat (Uint64 (drop 24 h));
          l1Size = unat (Uint32 (drop 36 h));
          l1Offset = unat (Uint64 (drop 40 h));
          bytesPerL2 = clusterSize * l2Entries
      in if n < 72 then Inl ''short header''
         else if Uint32 h \<noteq> 0x514649fb then Inl ''not a qcow2 image''
         else if version \<noteq> 2 \<and> version \<noteq> 3 then Inl ''version not supported''
         else if version = 3 \<and> n < 104 then Inl ''short v3 header''
         else if version = 3 \<and> Uint64 (drop 72 h) \<noteq> 0 then Inl ''incompatible features''
         else if Uint64 (drop 8 h) \<noteq> 0 then Inl ''has a backing file''
         else if Uint32 (drop 32 h) \<noteq> 0 then Inl ''encrypted''
         else if bits < 9 \<or> bits > 21 then Inl ''cluster size out of range''
         else if size > 2 ^ 62 then Inl ''virtual size out of range''
         else if l1Size > maxL1Entries then Inl ''L1 table too large''
         else if l1Offset \<ge> 2 ^ 56 then Inl ''L1 table offset out of range''
         else if l1Offset + l1Size * 8 > fileSize then Inl ''L1 table past the end''
         else if l1Size < (size + bytesPerL2 - 1) div bytesPerL2 then Inl ''L1 table too small''
         else Inr \<lparr>im_VirtualSize = size, im_ClusterSize = clusterSize, im_r = r, im_fileSize = fileSize,
                im_version = version, im_l1Size = l1Size, im_l1Offset = l1Offset, im_l2Entries = l2Entries\<rparr>)"

definition entryOffset :: "64 word \<Rightarrow> nat" where
  "entryOffset e = unat (e AND 0x00fffffffffffe00)"

definition readTable :: "Image \<Rightarrow> nat \<Rightarrow> nat \<Rightarrow> string + 64 word list" where
  "readTable img offset entries =
     (let buf = ReadAt (im_r img) offset (entries * 8)
      in if length buf < entries * 8 then Inl ''short read''
         else Inr (map (\<lambda>i. Uint64 (drop (i * 8) buf)) [0..<entries]))"

section \<open>The walk\<close>

text \<open>The extent not yet handed over and those that were.\<close>

type_synonym walk = "Extent option \<times> Extent list"

definition addExtent :: "Image \<Rightarrow> Extent \<Rightarrow> walk \<Rightarrow> string option \<times> walk" where
  "addExtent img e0 st =
     (let e = (if e_Offset e0 + e_Length e0 > im_VirtualSize img
               then e0\<lparr>e_Length := im_VirtualSize img - e_Offset e0\<rparr> else e0)
      in if e_Kind e = Data \<and> e_HostOffset e + e_Length e > im_fileSize img
         then (Some ''cluster past the end of the file'', st)
         else case st of
           (Some p, out) \<Rightarrow>
             if e_Kind p = e_Kind e \<and> e_Offset p + e_Length p = e_Offset e
                \<and> (e_Kind e \<noteq> Data \<or> e_HostOffset p + e_Length p = e_HostOffset e)
             then (None, Some (p\<lparr>e_Length := e_Length p + e_Length e\<rparr>), out)
             else (None, Some e, out @ [p])
         | (None, out) \<Rightarrow> (None, Some e, out))"

fun walkL2 :: "Image \<Rightarrow> nat \<Rightarrow> nat \<Rightarrow> 64 word list \<Rightarrow> walk \<Rightarrow> string option \<times> walk" where
  "walkL2 img base j [] st = (None, st)"
| "walkL2 img base j (l2e # es) st =
     (let off = base + j * im_ClusterSize img; host = entryOffset l2e in
      if off \<ge> im_VirtualSize img then (None, st)
      else if l2e AND 0x4000000000000000 \<noteq> 0 then (Some ''cluster is compressed'', st)
      else if im_version img = 3 \<and> l2e AND 1 \<noteq> 0 then
        (case addExtent img \<lparr>e_Offset = off, e_Length = im_ClusterSize img, e_Kind = Zero, e_HostOffset = 0\<rparr> st of
           (Some e, st1) \<Rightarrow> (Some e, st1)
         | (None, st1) \<Rightarrow> walkL2 img base (Suc j) es st1)
      else if host = 0 then walkL2 img base (Suc j) es st
      else if host mod im_ClusterSize img \<noteq> 0 then (Some ''unaligned host offset'', st)
      else
        (case addExtent img \<lparr>e_Offset = off, e_Length = im_ClusterSize img, e_Kind = Data, e_HostOffset = host\<rparr> st of
           (Some e, st1) \<Rightarrow> (Some e, st1)
         | (None, st1) \<Rightarrow> walkL2 img base (Suc j) es st1))"

fun walkL1 :: "Image \<Rightarrow> nat \<Rightarrow> 64 word list \<Rightarrow> nat list \<Rightarrow> walk \<Rightarrow> string option \<times> walk" where
  "walkL1 img i [] seenL2 st = (None, st)"
| "walkL1 img i (l1e # es) seenL2 st =
     (let base = i * (im_ClusterSize img * im_l2Entries img); l2Offset = entryOffset l1e in
      if base \<ge> im_VirtualSize img then (None, st)
      else if l2Offset = 0 then walkL1 img (Suc i) es seenL2 st
      else if l2Offset mod im_ClusterSize img \<noteq> 0 then (Some ''L2 table not aligned'', st)
      else if l2Offset + im_ClusterSize img > im_fileSize img then (Some ''L2 table past the end'', st)
      else if l2Offset \<in> set seenL2 then (Some ''L2 table used twice'', st)
      else
        (case readTable img l2Offset (im_l2Entries img) of
           Inl e \<Rightarrow> (Some e, st)
         | Inr l2 \<Rightarrow>
             (case walkL2 img base 0 l2 st of
                (Some e, st1) \<Rightarrow> (Some e, st1)
              | (None, st1) \<Rightarrow> walkL1 img (Suc i) es (l2Offset # seenL2) st1)))"

definition emitted :: "walk \<Rightarrow> Extent list" where
  "emitted st = (case st of (Some p, out) \<Rightarrow> out @ [p] | (None, out) \<Rightarrow> out)"

definition Walk :: "Image \<Rightarrow> Extent list \<times> string option" where
  "Walk img =
     (if im_l1Offset img mod im_ClusterSize img \<noteq> 0 then ([], Some ''L1 table not aligned'')
      else
        (case readTable img (im_l1Offset img) (im_l1Size img) of
           Inl e \<Rightarrow> ([], Some e)
         | Inr l1 \<Rightarrow>
             (case walkL1 img 0 l1 [] (None, []) of
                (Some e, st) \<Rightarrow> (snd st, Some e)
              | (None, st) \<Rightarrow> (emitted st, None))))"

definition DataReader :: "Image \<Rightarrow> Extent \<Rightarrow> byte list" where
  "DataReader img e = ReadAt (im_r img) (e_HostOffset e) (e_Length e)"

section \<open>Writing a raw disk\<close>

definition zeroChunk :: nat where
  "zeroChunk = 2 ^ 20"

function zeroLoop :: "byte list \<Rightarrow> nat \<Rightarrow> nat \<Rightarrow> byte list" where
  "zeroLoop dst off end =
     (if off < end then
        let n = min zeroChunk (end - off) in zeroLoop (WriteAt dst off (replicate n 0)) (off + n) end
      else dst)"
  by auto
termination
  by (relation "measure (\<lambda>(dst, off, end). end - off)") (auto simp: zeroChunk_def)

declare zeroLoop.simps [simp del]

text \<open>The extents one by one into a destination that takes every write: the destination, the count and the error.\<close>

fun writeExtents :: "Image \<Rightarrow> bool \<Rightarrow> Extent list \<Rightarrow> byte list \<Rightarrow> nat \<Rightarrow> byte list \<times> nat \<times> string option" where
  "writeExtents img zeros [] dst written = (dst, written, None)"
| "writeExtents img zeros (e # es) dst written =
     (case e_Kind e of
        Data \<Rightarrow>
          let data = DataReader img e; dst1 = WriteAt dst (e_Offset e) data
          in if length data \<noteq> e_Length e then (dst1, written + length data, Some ''short copy'')
             else writeExtents img zeros es dst1 (written + length data)
      | Zero \<Rightarrow>
          writeExtents img zeros es (if zeros then zeroLoop dst (e_Offset e) (e_Offset e + e_Length e) else dst) written)"

definition WriteRaw :: "Image \<Rightarrow> byte list \<Rightarrow> bool \<Rightarrow> byte list \<times> nat \<times> string option" where
  "WriteRaw img dst zeros =
     (case Walk img of (exts, err) \<Rightarrow>
        (case writeExtents img zeros exts dst 0 of
           (dst1, n, Some e) \<Rightarrow> (dst1, n, Some e)
         | (dst1, n, None) \<Rightarrow> (dst1, n, err)))"

section \<open>What the format says\<close>

datatype guest = Absent | Zeros | Stored nat

definition l1Entry :: "Image \<Rightarrow> nat \<Rightarrow> 64 word" where
  "l1Entry img i = Uint64 (drop (im_l1Offset img + i * 8) (im_r img))"

definition l2Entry :: "Image \<Rightarrow> nat \<Rightarrow> nat \<Rightarrow> 64 word" where
  "l2Entry img l2Offset j = Uint64 (drop (l2Offset + j * 8) (im_r img))"

definition guestByte :: "Image \<Rightarrow> nat \<Rightarrow> guest" where
  "guestByte img p =
     (let k = p div im_ClusterSize img; l2Offset = entryOffset (l1Entry img (k div im_l2Entries img));
          l2e = l2Entry img l2Offset (k mod im_l2Entries img)
      in if l2Offset = 0 then Absent
         else if im_version img = 3 \<and> l2e AND 1 \<noteq> 0 then Zeros
         else if entryOffset l2e = 0 then Absent
         else Stored (entryOffset l2e + p mod im_ClusterSize img))"

text \<open>What a list of extents says about a byte.\<close>

definition holdsByte :: "Extent \<Rightarrow> nat \<Rightarrow> bool" where
  "holdsByte e p \<longleftrightarrow> e_Offset e \<le> p \<and> p < e_Offset e + e_Length e"

definition extentByte :: "Extent \<Rightarrow> nat \<Rightarrow> guest" where
  "extentByte e p = (case e_Kind e of Zero \<Rightarrow> Zeros | Data \<Rightarrow> Stored (e_HostOffset e + (p - e_Offset e)))"

definition lookupExtents :: "Extent list \<Rightarrow> nat \<Rightarrow> guest" where
  "lookupExtents exts p = (case find (\<lambda>e. holdsByte e p) exts of None \<Rightarrow> Absent | Some e \<Rightarrow> extentByte e p)"

section \<open>The walk agrees with the format\<close>

definition extentsOk :: "Image \<Rightarrow> Extent list \<Rightarrow> bool" where
  "extentsOk img exts \<longleftrightarrow> sorted_wrt (\<lambda>a b. e_Offset a + e_Length a \<le> e_Offset b) exts \<and>
     list_all (\<lambda>e. 0 < e_Length e \<and> e_Offset e + e_Length e \<le> im_VirtualSize img
       \<and> (e_Kind e = Data \<longrightarrow> e_HostOffset e + e_Length e \<le> im_fileSize img)) exts"

lemma lookupExtents_append:
  "lookupExtents (xs @ ys) p = (if list_ex (\<lambda>e. holdsByte e p) xs then lookupExtents xs p else lookupExtents ys p)"
  by (induction xs) (auto simp: lookupExtents_def)

lemma lookupExtents_none: "(\<And>e. e \<in> set xs \<Longrightarrow> \<not> holdsByte e p) \<Longrightarrow> lookupExtents xs p = Absent"
  by (auto simp: lookupExtents_def find_None_iff intro!: option.case_eq_if [THEN trans])

lemma lookupExtents_single: "lookupExtents [e] p = (if holdsByte e p then extentByte e p else Absent)"
  by (simp add: lookupExtents_def)

lemma list_ex_holds_none: "(\<And>e. e \<in> set xs \<Longrightarrow> \<not> holdsByte e p) \<Longrightarrow> \<not> list_ex (\<lambda>e. holdsByte e p) xs"
  by (auto simp: list_ex_iff)

definition clip :: "Image \<Rightarrow> Extent \<Rightarrow> Extent" where
  "clip img e = (if e_Offset e + e_Length e > im_VirtualSize img then e\<lparr>e_Length := im_VirtualSize img - e_Offset e\<rparr> else e)"

lemma clip_simps [simp]:
  "e_Offset (clip img e) = e_Offset e" "e_Kind (clip img e) = e_Kind e" "e_HostOffset (clip img e) = e_HostOffset e"
  "e_Offset e < im_VirtualSize img \<Longrightarrow> e_Offset e + e_Length (clip img e) = min (e_Offset e + e_Length e) (im_VirtualSize img)"
  "e_Offset e < im_VirtualSize img \<Longrightarrow> 0 < e_Length e \<Longrightarrow> 0 < e_Length (clip img e)"
  by (simp_all add: clip_def)

lemma extentByte_clip [simp]: "extentByte (clip img e) p = extentByte e p"
  by (cases "e_Kind e") (simp_all add: extentByte_def)

text \<open>Handing over an extent behind all others adds its bytes, merged or not.\<close>

lemma addExtent_emitted:
  assumes "addExtent img e st = (None, st')"
    and ok: "extentsOk img (emitted st)" and before: "\<And>x. x \<in> set (emitted st) \<Longrightarrow> e_Offset x + e_Length x \<le> e_Offset e"
    and e: "e_Offset e < im_VirtualSize img" "0 < e_Length e"
  shows "extentsOk img (emitted st') \<and> (\<forall>x \<in> set (emitted st'). e_Offset x + e_Length x \<le> e_Offset e + e_Length e)
    \<and> (\<forall>p. lookupExtents (emitted st') p =
         (if holdsByte (clip img e) p then extentByte (clip img e) p else lookupExtents (emitted st) p))"
proof -
  obtain pending out where st: "st = (pending, out)" by (rule prod.exhaust)
  let ?e = "clip img e"
  have data: "e_Kind e = Data \<longrightarrow> e_HostOffset e + e_Length ?e \<le> im_fileSize img"
    using assms(1) by (auto simp: addExtent_def clip_def Let_def st split: if_splits)
  have far: "\<not> holdsByte x p" if "holdsByte ?e p" "x \<in> set (emitted st)" for x p
    using before [OF that(2)] that(1) by (simp add: holdsByte_def)
  have fresh: ?thesis if "emitted st' = emitted st @ [?e]"
  proof (intro conjI ballI allI)
    show "extentsOk img (emitted st')" using ok before data e unfolding extentsOk_def that by (auto simp: sorted_wrt_append)
    show "e_Offset x + e_Length x \<le> e_Offset e + e_Length e" if "x \<in> set (emitted st')" for x
      using that before \<open>emitted st' = _\<close> by (auto simp: clip_def dest: before)
    show "lookupExtents (emitted st') p = (if holdsByte ?e p then extentByte ?e p else lookupExtents (emitted st) p)" for p
      using far [of p] list_ex_holds_none [of "emitted st" p] lookupExtents_none [of "emitted st" p] unfolding that
      by (auto simp: lookupExtents_append lookupExtents_single list_ex_iff)
  qed
  show ?thesis
  proof (cases "\<exists>p. pending = Some p \<and> e_Kind p = e_Kind ?e \<and> e_Offset p + e_Length p = e_Offset ?e
      \<and> (e_Kind ?e \<noteq> Data \<or> e_HostOffset p + e_Length p = e_HostOffset ?e)")
    case False
    then have "emitted st' = emitted st @ [?e]"
      using assms(1) unfolding addExtent_def clip_def [symmetric] Let_def st
      by (auto simp: emitted_def split: option.splits if_splits)
    then show ?thesis by (rule fresh)
  next
    case True
    then obtain p where p: "pending = Some p" "e_Kind p = e_Kind e" "e_Offset p + e_Length p = e_Offset e"
      "e_Kind e \<noteq> Data \<or> e_HostOffset p + e_Length p = e_HostOffset e" by auto
    let ?p = "p\<lparr>e_Length := e_Length p + e_Length ?e\<rparr>"
    have em: "emitted st = out @ [p]" "emitted st' = out @ [?p]"
      using assms(1) p unfolding addExtent_def clip_def [symmetric] Let_def st
      by (auto simp: emitted_def split: if_splits)
    have "e_Offset e + e_Length ?e \<le> im_VirtualSize img" using clip_simps(4) [OF e(1)] by linarith
    then have len: "e_Offset p + (e_Length p + e_Length ?e) \<le> im_VirtualSize img" using p(3) by linarith
    have "e_Kind p = Data \<longrightarrow> e_HostOffset p + (e_Length p + e_Length ?e) \<le> im_fileSize img"
      using p(2,4) data by auto
    then have "extentsOk img (emitted st')"
      using ok len unfolding extentsOk_def em by (auto simp: sorted_wrt_append)
    moreover have "\<forall>x \<in> set (emitted st'). e_Offset x + e_Length x \<le> e_Offset e + e_Length e"
      using before em p e by (fastforce simp: clip_def)
    moreover have "lookupExtents (emitted st') q =
         (if holdsByte ?e q then extentByte ?e q else lookupExtents (emitted st) q)" for q
    proof (cases "holdsByte ?e q")
      case True
      then have "\<not> list_ex (\<lambda>x. holdsByte x q) out" using far em by (intro list_ex_holds_none) simp
      moreover have "holdsByte ?p q" "extentByte ?p q = extentByte ?e q"
        using True p by (auto simp: holdsByte_def extentByte_def split: Kind.splits)
      ultimately show ?thesis using True by (simp add: em lookupExtents_append lookupExtents_single)
    next
      case False
      then have "holdsByte ?p q = holdsByte p q" using p by (auto simp: holdsByte_def)
      moreover have "extentByte ?p q = extentByte p q" by (cases "e_Kind p") (simp_all add: extentByte_def)
      ultimately show ?thesis using False by (simp add: em lookupExtents_append lookupExtents_single)
    qed
    ultimately show ?thesis by blast
  qed
qed

text \<open>The walk has come to byte \<open>n\<close> of the disk.\<close>

definition walkedTo :: "Image \<Rightarrow> nat \<Rightarrow> walk \<Rightarrow> bool" where
  "walkedTo img n st \<longleftrightarrow> extentsOk img (emitted st) \<and> (\<forall>e \<in> set (emitted st). e_Offset e + e_Length e \<le> n)
     \<and> (\<forall>p. p < n \<and> p < im_VirtualSize img \<longrightarrow> lookupExtents (emitted st) p = guestByte img p)"

lemma walkedTo_past: "walkedTo img n st \<Longrightarrow> im_VirtualSize img \<le> n \<Longrightarrow> n \<le> n' \<Longrightarrow> walkedTo img n' st"
  by (fastforce simp: walkedTo_def)

lemma walkedTo_absent:
  assumes "walkedTo img n st" "n \<le> n'" "\<And>p. n \<le> p \<Longrightarrow> p < n' \<Longrightarrow> guestByte img p = Absent"
  shows "walkedTo img n' st"
proof -
  have "lookupExtents (emitted st) p = Absent" if "n \<le> p" for p
    using assms(1) that by (intro lookupExtents_none) (force simp: walkedTo_def holdsByte_def)
  then show ?thesis using assms unfolding walkedTo_def by (metis le_trans not_le)
qed

lemma walkedTo_add:
  assumes "walkedTo img (e_Offset e) st" "addExtent img e st = (None, st')" "e_Offset e < im_VirtualSize img" "0 < e_Length e"
    and "\<And>p. holdsByte e p \<Longrightarrow> guestByte img p = extentByte e p"
  shows "walkedTo img (e_Offset e + e_Length e) st'"
proof -
  note a = addExtent_emitted [OF assms(2) _ _ assms(3,4)]
  have a: "extentsOk img (emitted st')" "\<forall>x \<in> set (emitted st'). e_Offset x + e_Length x \<le> e_Offset e + e_Length e"
    "\<And>p. lookupExtents (emitted st') p = (if holdsByte (clip img e) p then extentByte (clip img e) p else lookupExtents (emitted st) p)"
    using a assms(1) by (auto simp: walkedTo_def)
  have "lookupExtents (emitted st') p = guestByte img p" if "p < e_Offset e + e_Length e" "p < im_VirtualSize img" for p
  proof (cases "p < e_Offset e")
    case True
    then show ?thesis using a(3) assms(1) that by (simp add: walkedTo_def holdsByte_def)
  next
    case False
    have "e_Offset e + e_Length (clip img e) = min (e_Offset e + e_Length e) (im_VirtualSize img)" using assms(3) by simp
    then have "holdsByte (clip img e) p" using False that by (simp only: holdsByte_def clip_simps) simp
    moreover have "holdsByte e p" using False that by (simp add: holdsByte_def)
    ultimately show ?thesis using a(3) assms(5) by simp
  qed
  then show ?thesis using a by (simp add: walkedTo_def)
qed

text \<open>The geometry \<open>Open\<close> establishes.\<close>

definition imageOk :: "Image \<Rightarrow> bool" where
  "imageOk img \<longleftrightarrow> 0 < im_ClusterSize img \<and> 0 < im_l2Entries img
     \<and> im_VirtualSize img \<le> im_l1Size img * (im_ClusterSize img * im_l2Entries img)"

lemma le_mult_div_up: "0 < b \<Longrightarrow> (a + b - 1) div b \<le> n \<Longrightarrow> a \<le> n * b" for a b n :: nat
proof -
  assume b: "0 < b" and n: "(a + b - 1) div b \<le> n"
  have "a + b - 1 < ((a + b - 1) div b + 1) * b" using b by (simp add: dividend_less_div_times)
  also have "\<dots> \<le> (n + 1) * b" using n by (intro mult_le_mono1) simp
  finally show ?thesis by (simp add: algebra_simps)
qed

lemma Open_header:
  assumes "Open r fileSize = Inr img"
  shows "imageOk img \<and> im_r img = r \<and> im_fileSize img = fileSize \<and> im_version img \<in> {2, 3}
    \<and> im_l1Offset img + im_l1Size img * 8 \<le> fileSize \<and> im_l1Offset img < 2 ^ 56 \<and> im_l1Size img \<le> maxL1Entries
    \<and> im_VirtualSize img \<le> 2 ^ 62
    \<and> (\<exists>bits. 9 \<le> bits \<and> bits \<le> 21 \<and> im_ClusterSize img = 2 ^ bits \<and> im_l2Entries img = 2 ^ (bits - 3))"
proof -
  have div8: "2 ^ bits div 8 = (2 ^ (bits - 3) :: nat)" if "9 \<le> bits" for bits
  proof -
    have "(2 :: nat) ^ bits = 8 * 2 ^ (bits - 3)"
      using that power_add [of "2 :: nat" 3 "bits - 3"] by simp
    then show ?thesis by simp
  qed
  define h where "h = take 104 r @ replicate (104 - min 104 (length r)) 0"
  define bits where "bits = unat (Uint32 (drop 20 h))"
  define size where "size = unat (Uint64 (drop 24 h))"
  define l1Size where "l1Size = unat (Uint32 (drop 36 h))"
  define l1Offset where "l1Offset = unat (Uint64 (drop 40 h))"
  define version where "version = unat (Uint32 (drop 4 h))"
  note defs = h_def [symmetric] bits_def [symmetric] size_def [symmetric] l1Size_def [symmetric]
    l1Offset_def [symmetric] version_def [symmetric]
  have bits: "9 \<le> bits" "bits \<le> 21" and version: "version = 2 \<or> version = 3"
    and l1: "l1Size \<le> maxL1Entries" "l1Offset < 2 ^ 56" "l1Offset + l1Size * 8 \<le> fileSize"
    and size: "size \<le> 2 ^ 62" "(size + 2 ^ bits * (2 ^ bits div 8) - 1) div (2 ^ bits * (2 ^ bits div 8)) \<le> l1Size"
    and img: "img = \<lparr>im_VirtualSize = size, im_ClusterSize = 2 ^ bits, im_r = r, im_fileSize = fileSize,
        im_version = version, im_l1Size = l1Size, im_l1Offset = l1Offset, im_l2Entries = 2 ^ bits div 8\<rparr>"
    using assms unfolding Open_def Let_def defs by (simp_all only: split: if_splits) (simp_all add: not_less)
  have "0 < (2 :: nat) ^ bits * (2 ^ bits div 8)" using bits by (simp add: div8)
  then have "size \<le> l1Size * (2 ^ bits * (2 ^ bits div 8))" using size(2) by (rule le_mult_div_up)
  then show ?thesis using bits version l1 size(1) by (auto simp: img imageOk_def div8 intro: exI [of _ bits])
qed

lemma readTable_nth:
  assumes "readTable img offset n = Inr t"
  shows "length t = n \<and> (\<forall>i < n. t ! i = Uint64 (drop (offset + i * 8) (im_r img)))"
proof -
  have "take 8 (drop (i * 8) (ReadAt (im_r img) offset (n * 8))) = take 8 (drop (offset + i * 8) (im_r img))" if "i < n" for i
  proof -
    have "min 8 (n * 8 - i * 8) = 8" using that by simp
    then show ?thesis by (simp only: ReadAt_def drop_take take_take drop_drop add.commute)
  qed
  then show ?thesis using assms by (auto simp: readTable_def Let_def Uint64_def split: if_splits)
qed

lemma guest_cluster:
  assumes "imageOk img" "j < im_l2Entries img" "entryOffset (l1Entry img i) = l2Offset"
    and "off = i * (im_ClusterSize img * im_l2Entries img) + j * im_ClusterSize img" "off \<le> p" "p < off + im_ClusterSize img"
  shows "guestByte img p = (let l2e = l2Entry img l2Offset j in
     if l2Offset = 0 then Absent else if im_version img = 3 \<and> l2e AND 1 \<noteq> 0 then Zeros
     else if entryOffset l2e = 0 then Absent else Stored (entryOffset l2e + (p - off)))"
proof -
  let ?k = "i * im_l2Entries img + j" and ?cs = "im_ClusterSize img"
  have off: "off = ?k * ?cs" using assms(4) by (simp add: algebra_simps)
  obtain d where d: "p = ?k * ?cs + d" "d < ?cs" using assms(5,6) off by (metis add_less_cancel_left le_iff_add)
  then have "p div ?cs = ?k" "p mod ?cs = d" "p - off = d" using off by simp_all
  moreover have "?k div im_l2Entries img = i" "?k mod im_l2Entries img = j" using assms(2) by simp_all
  ultimately show ?thesis using assms(3) by (simp only: guestByte_def Let_def)
qed

lemma walkL2_walkedTo:
  assumes "imageOk img" "walkL2 img base j es st = (None, st')"
    and "base = i * (im_ClusterSize img * im_l2Entries img)" "j + length es = im_l2Entries img"
    and "entryOffset (l1Entry img i) = l2Offset" "l2Offset \<noteq> 0"
    and "\<And>x. x < length es \<Longrightarrow> es ! x = l2Entry img l2Offset (j + x)"
    and "walkedTo img (base + j * im_ClusterSize img) st"
  shows "walkedTo img (base + im_l2Entries img * im_ClusterSize img) st'"
  using assms(2,4,7,8)
proof (induction es arbitrary: j st)
  case (Cons e es)
  let ?cs = "im_ClusterSize img" and ?off = "base + j * im_ClusterSize img"
  have e: "e = l2Entry img l2Offset j" using Cons.prems(3) [of 0] by simp
  have j: "j < im_l2Entries img" using Cons.prems(2) by simp
  have next': "?off + ?cs = base + Suc j * ?cs" by simp
  note guest = guest_cluster [OF assms(1) j assms(5), of ?off, unfolded assms(3), OF refl, folded assms(3) e]
  have IH: "walkedTo img (base + im_l2Entries img * ?cs) st'"
    if "walkL2 img base (Suc j) es st1 = (None, st')" "walkedTo img (?off + ?cs) st1" for st1
    using Cons.IH [OF that(1)] that(2) Cons.prems(2) Cons.prems(3) [of "Suc x" for x] next' by simp
  consider "im_VirtualSize img \<le> ?off" | "?off < im_VirtualSize img" by linarith
  then show ?case
  proof cases
    case 1
    then have "st' = st" using Cons.prems(1) by simp
    moreover have "?off \<le> base + im_l2Entries img * ?cs" using j by simp
    ultimately show ?thesis using walkedTo_past [OF Cons.prems(4) 1] by simp
  next
    case 2
    have add: ?thesis
      if "addExtent img x st = (None, st1)" "walkL2 img base (Suc j) es st1 = (None, st')"
        "e_Offset x = ?off" "e_Length x = ?cs" "\<And>p. holdsByte x p \<Longrightarrow> guestByte img p = extentByte x p" for x st1
      using IH [OF that(2)] walkedTo_add [of img x st st1] that Cons.prems(4) 2 assms(1) by (simp add: imageOk_def)
    show ?thesis
    proof (cases "im_version img = 3 \<and> e AND 1 \<noteq> 0")
      case True
      then show ?thesis using Cons.prems(1) 2 guest assms(6)
        by (auto simp: Let_def holdsByte_def extentByte_def split: if_splits prod.splits option.splits intro!: add)
    next
      case False
      show ?thesis
      proof (cases "entryOffset e = 0")
        case True
        then have "walkL2 img base (Suc j) es st = (None, st')"
          using Cons.prems(1) 2 False by (auto simp: Let_def split: if_splits)
        moreover have "walkedTo img (?off + ?cs) st"
          using walkedTo_absent [OF Cons.prems(4), of "?off + ?cs"] guest True False assms(6) by simp
        ultimately show ?thesis by (rule IH)
      next
        case host: False
        then show ?thesis using Cons.prems(1) 2 guest assms(6) False
          by (auto simp: Let_def holdsByte_def extentByte_def split: if_splits prod.splits option.splits intro!: add)
      qed
    qed
  qed
qed simp

lemma walkL1_walkedTo:
  assumes "imageOk img" "walkL1 img i es seen st = (None, st')" "i + length es = im_l1Size img"
    and "\<And>x. x < length es \<Longrightarrow> es ! x = l1Entry img (i + x)"
    and "walkedTo img (i * (im_ClusterSize img * im_l2Entries img)) st"
  shows "\<exists>n \<ge> im_VirtualSize img. walkedTo img n st'"
  using assms(2-5)
proof (induction es arbitrary: i seen st)
  case Nil
  then show ?case using assms(1) by (auto simp: imageOk_def)
next
  case (Cons e es)
  let ?B = "im_ClusterSize img * im_l2Entries img"
  let ?l2 = "entryOffset e"
  have e: "e = l1Entry img i" using Cons.prems(3) [of 0] by simp
  have IH: "\<exists>n \<ge> im_VirtualSize img. walkedTo img n st'"
    if "walkL1 img (Suc i) es seen1 st1 = (None, st')" "walkedTo img (i * ?B + ?B) st1" for seen1 st1
    using Cons.IH [OF that(1)] that(2) Cons.prems(2) Cons.prems(3) [of "Suc x" for x] by (simp add: add.commute)
  show ?case
  proof (cases "im_VirtualSize img \<le> i * ?B")
    case True
    then show ?thesis using Cons.prems(1,4) by auto
  next
    case False
    show ?thesis
    proof (cases "?l2 = 0")
      case True
      have "guestByte img p = Absent" if p: "i * ?B \<le> p" "p < i * ?B + ?B" for p
      proof -
        obtain d where d: "p = i * ?B + d" "d < ?B" using p by (metis add_less_cancel_left le_iff_add)
        then have "p = i * ?B + d div im_ClusterSize img * im_ClusterSize img + d mod im_ClusterSize img" by simp
        moreover have "d div im_ClusterSize img < im_l2Entries img"
          using d(2) assms(1) by (simp add: less_mult_imp_div_less mult.commute)
        moreover have "d < d div im_ClusterSize img * im_ClusterSize img + im_ClusterSize img"
          using assms(1) dividend_less_div_times [of "im_ClusterSize img" d] by (simp add: imageOk_def)
        ultimately show ?thesis
          using guest_cluster [OF assms(1), of "d div im_ClusterSize img" i ?l2 _ p] True e assms(1)
          by (simp add: imageOk_def)
      qed
      then have "walkedTo img (i * ?B + ?B) st" by (intro walkedTo_absent [OF Cons.prems(4)]) simp_all
      moreover have "walkL1 img (Suc i) es seen st = (None, st')" using Cons.prems(1) False True by simp
      ultimately show ?thesis by (intro IH)
    next
      case l2: False
      then obtain l2 st1 where w: "readTable img ?l2 (im_l2Entries img) = Inr l2"
        "walkL2 img (i * ?B) 0 l2 st = (None, st1)" "walkL1 img (Suc i) es (?l2 # seen) st1 = (None, st')"
        using Cons.prems(1) False by (auto simp: Let_def split: if_splits sum.splits prod.splits option.splits)
      have "walkedTo img (i * ?B + im_l2Entries img * im_ClusterSize img) st1"
        using walkL2_walkedTo [OF assms(1) w(2) refl _ _ l2] readTable_nth [OF w(1)] Cons.prems(4) e
        by (simp add: l2Entry_def)
      then show ?thesis using IH [OF w(3)] by (simp add: mult.commute)
    qed
  qed
qed

lemma Walk_correct:
  assumes "imageOk img" "Walk img = (exts, None)"
  shows "extentsOk img exts \<and> (\<forall>p < im_VirtualSize img. lookupExtents exts p = guestByte img p)"
proof -
  obtain l1 st where w: "readTable img (im_l1Offset img) (im_l1Size img) = Inr l1"
    "walkL1 img 0 l1 [] (None, []) = (None, st)" "exts = emitted st"
    using assms(2) by (auto simp: Walk_def split: if_splits sum.splits prod.splits option.splits)
  have "walkedTo img 0 (None, [])" by (simp add: walkedTo_def emitted_def extentsOk_def)
  then obtain n where "n \<ge> im_VirtualSize img" "walkedTo img n st"
    using walkL1_walkedTo [OF assms(1) w(2)] readTable_nth [OF w(1)] by (auto simp: l1Entry_def)
  then show ?thesis unfolding w(3) walkedTo_def by (meson less_le_trans)
qed

section \<open>The raw disk\<close>

lemma zeroLoop_bytes:
  "byteAt (zeroLoop dst off end) p = (if off \<le> p \<and> p < end then 0 else byteAt dst p)"
proof (induction dst off "end" rule: zeroLoop.induct)
  case (1 dst off "end")
  then show ?case
    by (subst zeroLoop.simps) (auto simp: Let_def byteAt_WriteAt_zeros split: if_splits)
qed

definition rawByte :: "Image \<Rightarrow> bool \<Rightarrow> byte list \<Rightarrow> nat \<Rightarrow> guest \<Rightarrow> byte" where
  "rawByte img zeros dst p g =
     (case g of Absent \<Rightarrow> byteAt dst p | Zeros \<Rightarrow> if zeros then 0 else byteAt dst p | Stored h \<Rightarrow> byteAt (im_r img) h)"

lemma writeExtents_bytes:
  assumes "writeExtents img zeros exts dst n = (dst', n', None)"
    and "sorted_wrt (\<lambda>a b. e_Offset a + e_Length a \<le> e_Offset b) exts"
  shows "byteAt dst' p = rawByte img zeros dst p (lookupExtents exts p)"
  using assms
proof (induction exts arbitrary: dst n)
  case (Cons e es)
  have after: "lookupExtents es p = Absent" if "holdsByte e p"
    using Cons.prems(2) that by (intro lookupExtents_none) (auto simp: holdsByte_def)
  show ?case
  proof (cases "e_Kind e")
    case Data
    let ?d = "DataReader img e"
    have l: "length ?d = e_Length e" and w: "writeExtents img zeros es (WriteAt dst (e_Offset e) ?d) (n + length ?d) = (dst', n', None)"
      using Cons.prems(1) Data by (simp_all add: Let_def split: if_splits)
    have "byteAt dst' p = rawByte img zeros (WriteAt dst (e_Offset e) ?d) p (lookupExtents es p)"
      using Cons.IH [OF w] Cons.prems(2) by simp
    moreover have "?d ! (p - e_Offset e) = byteAt (im_r img) (e_HostOffset e + (p - e_Offset e))" if "holdsByte e p"
      using that l unfolding DataReader_def by (intro nth_ReadAt) (auto simp: holdsByte_def)
    ultimately show ?thesis using after Data l
      by (auto simp: rawByte_def lookupExtents_def extentByte_def holdsByte_def byteAt_WriteAt split: guest.splits)
  next
    case Zero
    let ?z = "if zeros then zeroLoop dst (e_Offset e) (e_Offset e + e_Length e) else dst"
    have w: "writeExtents img zeros es ?z n = (dst', n', None)" using Cons.prems(1) Zero by simp
    then have "byteAt dst' p = rawByte img zeros ?z p (lookupExtents es p)" using Cons.IH [OF w] Cons.prems(2) by simp
    then show ?thesis using after Zero
      by (auto simp: rawByte_def lookupExtents_def extentByte_def holdsByte_def zeroLoop_bytes split: guest.splits)
  qed
qed (simp add: rawByte_def lookupExtents_def)

section \<open>Properties\<close>

text \<open>
  A version 3 image of three clusters of 512 bytes: one stored, one of zeros and one absent.
\<close>

definition exampleImage :: "byte list" where
  "exampleImage = be 4 0x514649fb @ be 4 3 @ be 8 0 @ be 4 0 @ be 4 9 @ be 8 1536 @ be 4 0 @ be 4 1 @ be 8 512
     @ replicate 464 0 @ be 8 1024 @ replicate 504 0 @ be 8 1536 @ be 8 1 @ replicate 496 0 @ replicate 512 7"

definition exampleOpened :: Image where
  "exampleOpened = \<lparr>im_VirtualSize = 1536, im_ClusterSize = 512, im_r = exampleImage, im_fileSize = 2048,
     im_version = 3, im_l1Size = 1, im_l1Offset = 512, im_l2Entries = 64\<rparr>"

definition exampleExtents :: "Extent list" where
  "exampleExtents = [\<lparr>e_Offset = 0, e_Length = 512, e_Kind = Data, e_HostOffset = 1536\<rparr>,
     \<lparr>e_Offset = 512, e_Length = 512, e_Kind = Zero, e_HostOffset = 0\<rparr>]"

lemma length_exampleImage [simp]: "length exampleImage = 2048"
  by (simp add: exampleImage_def)

lemma unbe_zeros [simp]: "unbe (replicate n 0) = 0"
  by (induction n) simp_all

lemma exampleImage_fields:
  "Uint32 exampleImage = 0x514649fb" "Uint32 (drop 4 exampleImage) = 3" "Uint64 (drop 8 exampleImage) = 0"
  "Uint32 (drop 20 exampleImage) = 9" "Uint64 (drop 24 exampleImage) = 1536" "Uint32 (drop 32 exampleImage) = 0"
  "Uint32 (drop 36 exampleImage) = 1" "Uint64 (drop 40 exampleImage) = 512" "Uint64 (drop 72 exampleImage) = 0"
  "Uint64 (drop 512 exampleImage) = 1024" "Uint64 (drop 1024 exampleImage) = 1536" "Uint64 (drop 1032 exampleImage) = 1"
  "Uint64 (drop 1040 exampleImage) = 0"
  by (simp_all add: exampleImage_def Uint64_def Uint32_def unbe_be)

lemma Uint_take: "k + 8 \<le> n \<Longrightarrow> Uint64 (drop k (take n r)) = Uint64 (drop k r)" "k + 4 \<le> n \<Longrightarrow> Uint32 (drop k (take n r)) = Uint32 (drop k r)"
  by (simp_all add: Uint64_def Uint32_def drop_take min_def)

lemma exampleImage_Open: "Open exampleImage 2048 = Inr exampleOpened"
  using Uint_take(2) [of 0 104 exampleImage]
  by (simp add: Open_def Let_def Uint_take exampleImage_fields exampleOpened_def maxL1Entries_def)

lemma exampleImage_Walk: "Walk exampleOpened = (exampleExtents, None)"
proof -
  have l1: "readTable exampleOpened 512 1 = Inr [1024]"
    using Uint_take(1) [of 0 8 "drop 512 exampleImage"]
    by (simp add: readTable_def exampleOpened_def ReadAt_def exampleImage_fields)
  obtain es where l2: "readTable exampleOpened 1024 64 = Inr (1536 # 1 # 0 # es)"
  proof
    have "[0..<64] = 0 # 1 # 2 # [3..<64 :: nat]" by (simp add: upt_conv_Cons)
    then show "readTable exampleOpened 1024 64 = Inr (1536 # 1 # 0 # map (\<lambda>i. Uint64 (drop (i * 8) (ReadAt exampleImage 1024 512))) [3..<64])"
      using Uint_take(1) [of 0 512 "drop 1024 exampleImage"]
      by (simp add: readTable_def exampleOpened_def ReadAt_def Uint_take exampleImage_fields)
  qed
  have "walkL2 exampleOpened 0 0 (1536 # 1 # 0 # es) (None, []) = (None, Some (exampleExtents ! 1), [exampleExtents ! 0])"
    by (cases es) (simp_all add: exampleOpened_def addExtent_def entryOffset_def exampleExtents_def)
  then have "walkL1 exampleOpened 0 [1024] [] (None, []) = (None, Some (exampleExtents ! 1), [exampleExtents ! 0])"
    using l2 by (simp add: exampleOpened_def entryOffset_def)
  then show ?thesis using l1 by (simp add: Walk_def exampleOpened_def emitted_def exampleExtents_def)
qed

text \<open>
  C20: the extents of a walk are the image. They are in the order of the disk, do not overlap and lie
  within it, stored ones lie within the file, and for every byte of the disk they say what the two levels of
  tables say: absent, zero or stored at that place.
\<close>

theorem Walk_agrees:
  assumes "Open r fileSize = Inr img" "Walk img = (exts, None)"
  shows "sorted_wrt (\<lambda>a b. e_Offset a + e_Length a \<le> e_Offset b) exts
    \<and> list_all (\<lambda>e. 0 < e_Length e \<and> e_Offset e + e_Length e \<le> im_VirtualSize img
         \<and> (e_Kind e = Data \<longrightarrow> e_HostOffset e + e_Length e \<le> fileSize)) exts
    \<and> (\<forall>p < im_VirtualSize img. lookupExtents exts p = guestByte img p)"
  using Walk_correct [OF _ assms(2)] Open_header [OF assms(1)] by (simp add: extentsOk_def)

theorem Walk_agrees_witness:
  "guestByte exampleOpened 5 = Stored 1541 \<and> guestByte exampleOpened 600 = Zeros \<and> guestByte exampleOpened 1100 = Absent"
proof -
  have "im_VirtualSize exampleOpened = 1536" by (simp add: exampleOpened_def)
  then have "guestByte exampleOpened p = lookupExtents exampleExtents p" if "p < 1536" for p
    using Walk_agrees [OF exampleImage_Open exampleImage_Walk] that by simp
  then show ?thesis by (simp add: exampleExtents_def lookupExtents_def holdsByte_def extentByte_def)
qed

text \<open>
  C21: an image is written as the disk it stands for. After \<open>WriteRaw\<close> without an error each byte that
  the image stores is the stored one, each byte it records as zero is zero when zeros are written, and every
  other byte of the destination is as before.
\<close>

theorem WriteRaw_writes_image:
  assumes "Open r fileSize = Inr img" "WriteRaw img dst zeros = (dst', n, None)" "p < im_VirtualSize img"
  shows "byteAt dst' p =
    (case guestByte img p of
       Absent \<Rightarrow> byteAt dst p | Zeros \<Rightarrow> if zeros then 0 else byteAt dst p | Stored h \<Rightarrow> byteAt r h)"
proof -
  obtain exts where w: "Walk img = (exts, None)" "writeExtents img zeros exts dst 0 = (dst', n, None)"
    using assms(2) by (auto simp: WriteRaw_def split: prod.splits option.splits)
  note ok = Open_header [OF assms(1)]
  have "byteAt dst' p = rawByte img zeros dst p (guestByte img p)"
    using writeExtents_bytes [OF w(2), of p] Walk_correct [OF _ w(1)] ok assms(3) by (simp add: extentsOk_def)
  moreover have "im_r img = r" using ok by simp
  ultimately show ?thesis by (simp only: rawByte_def)
qed

theorem WriteRaw_writes_image_witness:
  "\<exists>dst' n. WriteRaw exampleOpened (replicate 1536 9) False = (dst', n, None)
     \<and> byteAt dst' 5 = 7 \<and> byteAt dst' 600 = 9 \<and> byteAt dst' 1100 = 9"
proof -
  have "im_r exampleOpened = exampleImage" by (simp add: exampleOpened_def)
  then obtain dst' n where w: "WriteRaw exampleOpened (replicate 1536 9) False = (dst', n, None)"
    by (simp add: WriteRaw_def exampleImage_Walk exampleExtents_def DataReader_def length_ReadAt)
  note raw = WriteRaw_writes_image [OF exampleImage_Open w]
  have size: "im_VirtualSize exampleOpened = 1536" by (simp add: exampleOpened_def)
  have g: "guestByte exampleOpened p = lookupExtents exampleExtents p" if "p < 1536" for p
    using Walk_correct [OF _ exampleImage_Walk] Open_header [OF exampleImage_Open] that size by simp
  have "byteAt exampleImage 1541 = 7" by (simp add: byteAt_def exampleImage_def nth_append)
  then show ?thesis using w raw [of 5] raw [of 600] raw [of 1100] g
    by (simp add: size lookupExtents_def exampleExtents_def holdsByte_def extentByte_def) (simp add: byteAt_def)
qed

text \<open>
  C34: An image that opens is well formed: its clusters have a power of two between 512 bytes and 2 MiB, an L2 table fills
  one cluster, the L1 table lies in the file and covers the whole virtual disk, and every sum of a guest offset and a
  cluster or table span that the reader forms fits an int64.
\<close>

theorem Open_geometry:
  assumes "Open r fileSize = Inr img"
  shows "im_version img \<in> {2, 3} \<and> (\<exists>bits. 9 \<le> bits \<and> bits \<le> 21 \<and> im_ClusterSize img = 2 ^ bits) \<and> im_l2Entries img * 8 = im_ClusterSize img
    \<and> im_l1Offset img + im_l1Size img * 8 \<le> fileSize \<and> im_VirtualSize img \<le> im_l1Size img * (im_ClusterSize img * im_l2Entries img)
    \<and> im_l1Size img * (im_ClusterSize img * im_l2Entries img) + im_ClusterSize img < 2 ^ 63
    \<and> im_VirtualSize img + im_ClusterSize img * im_l2Entries img < 2 ^ 63"
proof -
  note h = Open_header [OF assms]
  obtain bits where bits: "9 \<le> bits" "bits \<le> 21" "im_ClusterSize img = 2 ^ bits" "im_l2Entries img = 2 ^ (bits - 3)" using h by blast
  then have l2: "im_l2Entries img * 8 = im_ClusterSize img" using power_add [of "2 :: nat" "bits - 3" 3] by simp
  have cs: "im_ClusterSize img \<le> 2 ^ 21" unfolding bits(3) by (rule power_increasing) (use bits(2) in simp_all)
  then have span: "im_ClusterSize img * im_l2Entries img \<le> 2 ^ 21 * 2 ^ 18" using l2 by (intro mult_le_mono) simp_all
  have "im_l1Size img \<le> maxL1Entries" using h by blast
  then have "im_l1Size img * (im_ClusterSize img * im_l2Entries img) \<le> maxL1Entries * (2 ^ 21 * 2 ^ 18)" using span by (rule mult_le_mono)
  with span show ?thesis using h bits l2 cs by (auto simp: imageOk_def maxL1Entries_def)
qed

theorem Open_geometry_witness:
  "im_VirtualSize exampleOpened = 1536 \<and> im_l2Entries exampleOpened * 8 = im_ClusterSize exampleOpened
   \<and> im_VirtualSize exampleOpened \<le> im_l1Size exampleOpened * (im_ClusterSize exampleOpened * im_l2Entries exampleOpened)"
  using Open_geometry [OF exampleImage_Open] by (simp add: exampleOpened_def)

end
