(* ===== verification/Undo_Volume.thy ===== *)
theory Undo_Volume
  imports Undo_Files Qcow2
begin

text \<open>
  \<^verbatim>\<open>pkg/replication/undo.go\<close>, \<^verbatim>\<open>moment.go\<close> and \<^verbatim>\<open>diskstate.go\<close>: how a staged copy is
  applied to a far-site disk, rolled back and rewound. A volume is the folder of one disk: the disk, its undo
  folder and the moment file. Every call to the file system may fail: \<open>vo_faults\<close> says for each call to
  come whether it works, and how much of a failing write reaches the file. A crash is a run of failures.
  What is written to a file and synced piece by piece (\<^verbatim>\<open>dirty.go\<close>) is one write here; a failing
  sync is a write that fails after all of its bytes.

  Times are nanoseconds since 1970 and the zero time is the year 1.
\<close>

section \<open>The volume\<close>

record momentFile =
  mf_Moment :: int
  mf_VMGroup :: string
  mf_DiskMtimeNs :: int
  mf_DiskSize :: nat

record volume =
  vo_disk :: "byte list option"
  vo_new :: "byte list option"
  vo_staging :: "byte list option"
  vo_undo :: "(string \<times> byte list) list option"
  vo_out :: "byte list option"
  vo_moment :: "momentFile option"
  vo_mtime :: int
  vo_now :: int
  vo_faults :: "nat option list"

type_synonym 'a action = "volume \<Rightarrow> (string + 'a) \<times> volume"

definition zeroTime :: int where
  "zeroTime = - 62135596800 * 10 ^ 9"

definition return :: "'a \<Rightarrow> 'a action" where
  "return x v = (Inr x, v)"

definition fail :: "string \<Rightarrow> 'a action" where
  "fail e v = (Inl e, v)"

definition andThen :: "'a action \<Rightarrow> ('a \<Rightarrow> 'b action) \<Rightarrow> 'b action" where
  "andThen m k v = (case m v of (Inl e, v1) \<Rightarrow> (Inl e, v1) | (Inr x, v1) \<Rightarrow> k x v1)"

text \<open>On an error run the clean-up, whose own outcome does not matter, and pass the error on.\<close>

definition orElse :: "'a action \<Rightarrow> 'b action \<Rightarrow> 'a action" where
  "orElse m c v = (case m v of (Inl e, v1) \<Rightarrow> (Inl e, snd (c v1)) | (Inr x, v1) \<Rightarrow> (Inr x, v1))"

definition attempt :: "volume \<Rightarrow> nat option \<times> volume" where
  "attempt v = (case vo_faults v of [] \<Rightarrow> (None, v) | x # xs \<Rightarrow> (x, v\<lparr>vo_faults := xs\<rparr>))"

definition sysCall :: "'a action \<Rightarrow> 'a action" where
  "sysCall m v = (case attempt v of (Some _, v1) \<Rightarrow> (Inl ''i/o error'', v1) | (None, v1) \<Rightarrow> m v1)"

section \<open>File operations\<close>

text \<open>The disk, or the file a rewound disk is written to.\<close>

datatype target = Disk | Out

definition contents :: "target \<Rightarrow> volume \<Rightarrow> byte list" where
  "contents t v = (case (case t of Disk \<Rightarrow> vo_disk v | Out \<Rightarrow> vo_out v) of None \<Rightarrow> [] | Some f \<Rightarrow> f)"

definition setFile :: "target \<Rightarrow> byte list \<Rightarrow> volume \<Rightarrow> volume" where
  "setFile t f v = (case t of Disk \<Rightarrow> v\<lparr>vo_disk := Some f, vo_mtime := vo_now v\<rparr> | Out \<Rightarrow> v\<lparr>vo_out := Some f\<rparr>)"

definition writeFile :: "target \<Rightarrow> nat \<Rightarrow> byte list \<Rightarrow> unit action" where
  "writeFile t off data v =
     (case attempt v of
        (None, v1) \<Rightarrow> (Inr (), setFile t (WriteAt (contents t v1) off data) v1)
      | (Some k, v1) \<Rightarrow> (Inl ''i/o error'', setFile t (WriteAt (contents t v1) off (take k data)) v1))"

definition truncateFile :: "target \<Rightarrow> nat \<Rightarrow> unit action" where
  "truncateFile t n = sysCall (\<lambda>v. (Inr (), setFile t (Truncate n (contents t v)) v))"

definition syncFile :: "unit action" where
  "syncFile = sysCall (return ())"

definition folder :: "volume \<Rightarrow> (string \<times> byte list) list" where
  "folder v = (case vo_undo v of None \<Rightarrow> [] | Some files \<Rightarrow> files)"

definition setFolder :: "(string \<times> byte list) list \<Rightarrow> volume \<Rightarrow> volume" where
  "setFolder files v = v\<lparr>vo_undo := Some files\<rparr>"

definition removeUndo :: "string \<Rightarrow> unit action" where
  "removeUndo name = sysCall (\<lambda>v.
     if map_of (folder v) name = None then (Inl ''no such file'', v)
     else (Inr (), setFolder (filter (\<lambda>p. fst p \<noteq> name) (folder v)) v))"

definition renameUndo :: "string \<Rightarrow> string \<Rightarrow> unit action" where
  "renameUndo old new = sysCall (\<lambda>v.
     case map_of (folder v) old of
       None \<Rightarrow> (Inl ''no such file'', v)
     | Some c \<Rightarrow> (Inr (), setFolder ((new, c) # filter (\<lambda>p. fst p \<noteq> old \<and> fst p \<noteq> new) (folder v)) v))"

definition createUndo :: "string \<Rightarrow> unit action" where
  "createUndo name = sysCall (\<lambda>v.
     if map_of (folder v) name \<noteq> None then (Inl ''file exists'', v) else (Inr (), setFolder ((name, []) # folder v) v))"

definition appendUndo :: "string \<Rightarrow> byte list \<Rightarrow> unit action" where
  "appendUndo name data v =
     (case attempt v of
        (None, v1) \<Rightarrow> (Inr (), setFolder (map (\<lambda>(n, c). if n = name then (n, c @ data) else (n, c)) (folder v1)) v1)
      | (Some k, v1) \<Rightarrow>
          (Inl ''i/o error'', setFolder (map (\<lambda>(n, c). if n = name then (n, c @ take k data) else (n, c)) (folder v1)) v1))"

definition mkUndoDir :: "unit action" where
  "mkUndoDir = sysCall (\<lambda>v. (Inr (), setFolder (folder v) v))"

definition diskInfo :: "nat option action" where
  "diskInfo = sysCall (\<lambda>v. (Inr (map_option length (vo_disk v)), v))"

definition openDisk :: "unit action" where
  "openDisk = sysCall (\<lambda>v. if vo_disk v = None then (Inl ''no such file'', v) else (Inr (), v))"

definition undoEntries :: "string list option action" where
  "undoEntries = sysCall (\<lambda>v. (Inr (map_option (map fst) (vo_undo v)), v))"

definition readFileUndo :: "string \<Rightarrow> byte list action" where
  "readFileUndo name = sysCall (\<lambda>v. case map_of (folder v) name of None \<Rightarrow> (Inl ''no such file'', v) | Some c \<Rightarrow> (Inr c, v))"

section \<open>The moment file\<close>

definition readMomentFile :: "momentFile option action" where
  "readMomentFile = sysCall (\<lambda>v. (Inr (vo_moment v), v))"

text \<open>The size and time of the disk; an error counts as no disk.\<close>

definition diskSeal :: "(nat \<times> int) option action" where
  "diskSeal v =
     (case diskInfo v of
        (Inr (Some n), v1) \<Rightarrow> (Inr (Some (n, vo_mtime v1)), v1)
      | (_, v1) \<Rightarrow> (Inr None, v1))"

text \<open>The temporary file is written, then renamed and the folder synced; the disk's time and size seal it.\<close>

definition writeMomentFile :: "momentFile \<Rightarrow> unit action" where
  "writeMomentFile mf =
     andThen diskSeal (\<lambda>seal.
     andThen syncFile (\<lambda>_.
     andThen (sysCall (\<lambda>v. (Inr (), v\<lparr>vo_moment := Some
       (case seal of None \<Rightarrow> mf | Some (n, mtime) \<Rightarrow> mf\<lparr>mf_DiskMtimeNs := mtime, mf_DiskSize := n\<rparr>)\<rparr>))) (\<lambda>_.
     syncFile)))"

definition writeMoment :: "int \<Rightarrow> string \<Rightarrow> unit action" where
  "writeMoment t vmGroup = writeMomentFile \<lparr>mf_Moment = t, mf_VMGroup = vmGroup, mf_DiskMtimeNs = 0, mf_DiskSize = 0\<rparr>"

definition reseal :: "unit action" where
  "reseal = andThen readMomentFile (\<lambda>mf. case mf of None \<Rightarrow> return () | Some m \<Rightarrow> writeMomentFile m)"

section \<open>Rolling back\<close>

definition undoPart :: string where "undoPart = ''.undo.part''"
definition undoReady :: string where "undoReady = ''.undo.ready''"
definition undoApplied :: string where "undoApplied = ''.undo''"

fun writeRecords :: "target \<Rightarrow> (nat \<times> byte list \<times> nat) list \<Rightarrow> unit action" where
  "writeRecords t [] = return ()"
| "writeRecords t ((off, data, _) # recs) = andThen (writeFile t off data) (\<lambda>_. writeRecords t recs)"

text \<open>The whole undo file is checked first; the second read of the same file finds the same records.\<close>

definition applyUndo :: "target \<Rightarrow> string \<Rightarrow> unit action" where
  "applyUndo t name =
     andThen (readFileUndo name) (\<lambda>c.
       case readUndoFrom c of
         (_, Inl e) \<Rightarrow> fail e
       | (recs, Inr h) \<Rightarrow>
           andThen (readFileUndo name) (\<lambda>_.
           andThen (writeRecords t recs) (\<lambda>_.
           andThen (truncateFile t (nat (uh_oldSize h))) (\<lambda>_. syncFile))))"

fun recoverEntries :: "string list \<Rightarrow> bool \<Rightarrow> bool action" where
  "recoverEntries [] rolled = return rolled"
| "recoverEntries (name # names) rolled =
     (if has_suffix name undoPart then andThen (removeUndo name) (\<lambda>_. recoverEntries names rolled)
      else if has_suffix name undoReady then
        andThen openDisk (\<lambda>_. andThen (applyUndo Disk name) (\<lambda>_. andThen (removeUndo name) (\<lambda>_. recoverEntries names True)))
      else recoverEntries names rolled)"

definition recover :: "bool action" where
  "recover =
     andThen undoEntries (\<lambda>entries.
       case entries of
         None \<Rightarrow> return False
       | Some names \<Rightarrow>
           andThen (recoverEntries names False) (\<lambda>rolled.
           andThen (if rolled then reseal else return ()) (\<lambda>_.
           andThen syncFile (\<lambda>_. return rolled))))"

section \<open>Restore points\<close>

record undoFile =
  uf_seq :: int
  uf_path :: string
  uf_hdr :: undoHeader

definition trimSuffix :: "string \<Rightarrow> string \<Rightarrow> string" where
  "trimSuffix s suffix = (if has_suffix s suffix then take (length s - length suffix) s else s)"

fun readHeaders :: "string list \<Rightarrow> undoFile list action" where
  "readHeaders [] = return []"
| "readHeaders (name # names) =
     (if \<not> has_suffix name undoApplied then readHeaders names
      else
        case atoi (trimSuffix name undoApplied) of
          None \<Rightarrow> readHeaders names
        | Some seq \<Rightarrow>
            andThen (readFileUndo name) (\<lambda>c.
              case snd (readUndoFrom c) of
                Inl e \<Rightarrow> fail e
              | Inr h \<Rightarrow> andThen (readHeaders names) (\<lambda>files. return (\<lparr>uf_seq = seq, uf_path = name, uf_hdr = h\<rparr> # files))))"

definition appliedUndo :: "undoFile list action" where
  "appliedUndo =
     andThen undoEntries (\<lambda>entries.
     andThen (readHeaders (case entries of None \<Rightarrow> [] | Some names \<Rightarrow> names)) (\<lambda>files.
     return (sort_key uf_seq files)))"

definition nextSeq :: "string list \<Rightarrow> int" where
  "nextSeq names = foldl (\<lambda>next name.
     case index_of name undoApplied of
       Some i \<Rightarrow> if i > 0 then (case atoi (take i name) of Some n \<Rightarrow> if n \<ge> next then n + 1 else next | None \<Rightarrow> next) else next
     | None \<Rightarrow> next) 1 names"

definition nextUndoSeq :: "int action" where
  "nextUndoSeq = andThen undoEntries (\<lambda>entries. return (nextSeq (case entries of None \<Rightarrow> [] | Some names \<Rightarrow> names)))"

fun pruneLoop :: "int \<Rightarrow> undoFile list \<Rightarrow> unit action" where
  "pruneLoop cutoff [] = return ()"
| "pruneLoop cutoff (u # us) =
     (if uh_to (uf_hdr u) < cutoff then andThen (removeUndo (uf_path u)) (\<lambda>_. pruneLoop cutoff us) else return ())"

definition pruneUndo :: "int \<Rightarrow> unit action" where
  "pruneUndo cutoff = andThen appliedUndo (pruneLoop cutoff)"

definition RestorePoints :: "int list action" where
  "RestorePoints = andThen appliedUndo (\<lambda>files. return (map (\<lambda>u. uh_from (uf_hdr u)) files))"

section \<open>The copy\<close>

text \<open>
  A staged copy. The walk is the extents it visits and then its error; the data of an extent may be read from
  the disk itself, where the receiver found it unchanged.
\<close>

record CopySource =
  cs_Size :: nat
  cs_Walk :: "Extent list \<times> string option"
  cs_DataReader :: "byte list \<Rightarrow> Extent \<Rightarrow> byte list"

record ApplyOptions =
  ao_From :: int
  ao_To :: int
  ao_Full :: bool
  ao_Keep :: int
  ao_Now :: int

text \<open>
  The chunks of a region: offset, length and the extent the data comes from, none for zeros. \<open>newChunks\<close>
  is the order in which \<open>forEachNewChunk\<close> visits them, the gaps of a full copy included.
\<close>

type_synonym chunk = "nat \<times> nat \<times> Extent option"

function chunksOf :: "nat \<Rightarrow> nat \<Rightarrow> Extent option \<Rightarrow> chunk list" where
  "chunksOf off n x =
     (if n = 0 then [] else let l = min n compareChunk in (off, l, x) # chunksOf (off + l) (n - l) x)"
  by auto
termination
  by (relation "measure (\<lambda>(off, n, x). n)") (auto simp: compareChunk_def)

declare chunksOf.simps [simp del]

fun newChunks :: "bool \<Rightarrow> nat \<Rightarrow> nat \<Rightarrow> Extent list \<Rightarrow> chunk list" where
  "newChunks full newSize next [] = (if full \<and> newSize > next then chunksOf next (newSize - next) None else [])"
| "newChunks full newSize next (e # es) =
     (if full \<and> e_Offset e > next then chunksOf next (e_Offset e - next) None else [])
     @ chunksOf (e_Offset e) (e_Length e) (if e_Kind e = Zero then None else Some e)
     @ newChunks full newSize (e_Offset e + e_Length e) es"

definition readChunk :: "CopySource \<Rightarrow> byte list \<Rightarrow> chunk \<Rightarrow> string + byte list" where
  "readChunk src disk = (\<lambda>(off, l, x).
     case x of
       None \<Rightarrow> Inr (replicate l 0)
     | Some e \<Rightarrow>
         let data = take l (drop (off - e_Offset e) (cs_DataReader src disk e))
         in if length data < l then Inl ''reading copy'' else Inr data)"

text \<open>When the walk fails, the chunks up to there are visited and the last gap is not.\<close>

definition chunksVisited :: "CopySource \<Rightarrow> bool \<Rightarrow> chunk list" where
  "chunksVisited src full =
     (case cs_Walk src of (exts, None) \<Rightarrow> newChunks full (cs_Size src) 0 exts | (exts, Some _) \<Rightarrow> newChunks full 0 0 exts)"

fun forChunks :: "(volume \<Rightarrow> chunk \<Rightarrow> string + byte list) \<Rightarrow> chunk list \<Rightarrow> (nat \<Rightarrow> byte list \<Rightarrow> unit action) \<Rightarrow> unit action" where
  "forChunks rd [] fn = return ()"
| "forChunks rd (c # cs) fn =
     (\<lambda>v. case rd v c of
        Inl e \<Rightarrow> (Inl e, v)
      | Inr data \<Rightarrow> andThen (fn (fst c) data) (\<lambda>_. forChunks rd cs fn) v)"

definition forEachNewChunk :: "CopySource \<Rightarrow> bool \<Rightarrow> (nat \<Rightarrow> byte list \<Rightarrow> unit action) \<Rightarrow> unit action" where
  "forEachNewChunk src full fn =
     andThen (forChunks (\<lambda>v. readChunk src (contents Disk v)) (chunksVisited src full) fn) (\<lambda>_.
       case snd (cs_Walk src) of None \<Rightarrow> return () | Some e \<Rightarrow> fail e)"

definition allZero :: "byte list \<Rightarrow> bool" where
  "allZero b = list_all (\<lambda>c. c = 0) b"

text \<open>
  The records of \<open>writeUndo\<close>: the old contents of the chunks that differ, and the offsets of all chunks that
  change. The disk is only read, so the call-backs are a recursion over the chunks.
\<close>

fun undoRecords :: "CopySource \<Rightarrow> byte list \<Rightarrow> chunk list \<Rightarrow> string + (nat \<times> byte list) list" where
  "undoRecords src disk [] = Inr []"
| "undoRecords src disk (c # cs) =
     (case readChunk src disk c of
        Inl e \<Rightarrow> Inl e
      | Inr data \<Rightarrow>
          (case undoRecords src disk cs of
             Inl e \<Rightarrow> Inl e
           | Inr recs \<Rightarrow>
               let off = fst c; n = min (length data) (length disk - off); o' = ReadAt disk off n
               in if off \<ge> length disk \<or> o' = take n data \<and> length data = n then Inr recs
                  else Inr ((off, o') # recs)))"

fun pastEnd :: "CopySource \<Rightarrow> byte list \<Rightarrow> chunk list \<Rightarrow> string + nat list" where
  "pastEnd src disk [] = Inr []"
| "pastEnd src disk (c # cs) =
     (case readChunk src disk c of
        Inl e \<Rightarrow> Inl e
      | Inr data \<Rightarrow>
          (case pastEnd src disk cs of
             Inl e \<Rightarrow> Inl e
           | Inr offs \<Rightarrow> if fst c \<ge> length disk \<and> \<not> allZero data then Inr (fst c # offs) else Inr offs))"

definition writeUndo :: "string \<Rightarrow> CopySource \<Rightarrow> nat \<Rightarrow> ApplyOptions \<Rightarrow> nat list action" where
  "writeUndo name src oldSize opts =
     andThen (createUndo name) (\<lambda>_.
     andThen (sysCall (\<lambda>v. (Inr (contents Disk v), v))) (\<lambda>disk.
       let cs = chunksVisited src (ao_Full opts) in
       case undoRecords src disk cs of
         Inl e \<Rightarrow> fail e
       | Inr recs \<Rightarrow>
           (case snd (cs_Walk src) of
              Some e \<Rightarrow> fail e
            | None \<Rightarrow>
                (case (if cs_Size src > oldSize then pastEnd src disk cs else Inr []) of
                   Inl e \<Rightarrow> fail e
                 | Inr past \<Rightarrow>
                     andThen (appendUndo name (encodeUndo
                       \<lparr>uh_from = ao_From opts, uh_to = ao_To opts, uh_oldSize = int oldSize, uh_newSize = int (cs_Size src)\<rparr> recs)) (\<lambda>_.
                     andThen syncFile (\<lambda>_. return (map fst recs @ past)))))))"

text \<open>A disk that does not exist yet is written under another name and renamed.\<close>

fun writeNew :: "CopySource \<Rightarrow> Extent list \<Rightarrow> nat action" where
  "writeNew src [] = return 0"
| "writeNew src (e # es) =
     (if e_Kind e \<noteq> Data then writeNew src es
      else (\<lambda>v.
        let data = cs_DataReader src (contents Disk v) e in
        andThen
          (sysCall (\<lambda>v. (Inr (), v\<lparr>vo_new := map_option (\<lambda>f. WriteAt f (e_Offset e) data) (vo_new v)\<rparr>)))
          (\<lambda>_. andThen (writeNew src es) (\<lambda>n. return (length data + n))) v))"

definition writeNewDiskFrom :: "CopySource \<Rightarrow> nat action" where
  "writeNewDiskFrom src =
     andThen (sysCall (\<lambda>v. (Inr (), v\<lparr>vo_new := None\<rparr>))) (\<lambda>_.
     andThen (sysCall (\<lambda>v. (Inr (), v\<lparr>vo_new := Some []\<rparr>))) (\<lambda>_.
     andThen (sysCall (\<lambda>v. (Inr (), v\<lparr>vo_new := map_option (Truncate (cs_Size src)) (vo_new v)\<rparr>))) (\<lambda>_.
     andThen
       (orElse
         (andThen (writeNew src (fst (cs_Walk src))) (\<lambda>n.
          case snd (cs_Walk src) of
            Some e \<Rightarrow> fail e
          | None \<Rightarrow>
              andThen syncFile (\<lambda>_.
              andThen (sysCall (\<lambda>v. (Inr (), v\<lparr>vo_disk := vo_new v, vo_new := None, vo_mtime := vo_now v\<rparr>))) (\<lambda>_. return n))))
         (sysCall (\<lambda>v. (Inr (), v\<lparr>vo_new := None\<rparr>)))) (\<lambda>n.
     andThen syncFile (\<lambda>_. return n)))))"

record ApplyResult =
  re_ChangedBytes :: nat
  re_RolledBack :: bool

text \<open>\<^verbatim>\<open>%010d\<close>.\<close>

definition pad10 :: "int \<Rightarrow> string" where
  "pad10 n = replicate (10 - length (itoa_int n)) (CHR ''0'') @ itoa_int n"

text \<open>The three steps over an existing disk: save what will change, change it, mark the undo file.\<close>

definition changeDisk :: "CopySource \<Rightarrow> ApplyOptions \<Rightarrow> nat \<Rightarrow> string \<Rightarrow> nat list action" where
  "changeDisk src opts oldSize base =
     (let newSize = cs_Size src in
      andThen (orElse (writeUndo (base @ undoPart) src oldSize opts) (removeUndo (base @ undoPart))) (\<lambda>changed.
      andThen (renameUndo (base @ undoPart) (base @ undoReady)) (\<lambda>_.
      andThen syncFile (\<lambda>_.
      andThen (if newSize > oldSize then truncateFile Disk newSize else return ()) (\<lambda>_.
      andThen (forEachNewChunk src (ao_Full opts)
        (\<lambda>off data. if off \<in> set changed then writeFile Disk off data else return ())) (\<lambda>_.
      andThen (if newSize < oldSize then truncateFile Disk newSize else return ()) (\<lambda>_.
      andThen syncFile (\<lambda>_.
      andThen (renameUndo (base @ undoReady) (base @ undoApplied)) (\<lambda>_.
      andThen syncFile (\<lambda>_. return changed))))))))))"

definition applyOver :: "CopySource \<Rightarrow> ApplyOptions \<Rightarrow> nat \<Rightarrow> bool \<Rightarrow> ApplyResult action" where
  "applyOver src opts oldSize rolled =
     andThen openDisk (\<lambda>_.
     andThen mkUndoDir (\<lambda>_.
     andThen nextUndoSeq (\<lambda>seq.
     andThen (changeDisk src opts oldSize (pad10 seq)) (\<lambda>changed.
     andThen (if ao_Keep opts > 0 then pruneUndo (ao_Now opts - ao_Keep opts) else return ()) (\<lambda>_.
     return \<lparr>re_ChangedBytes = length (remdups changed) * compareChunk, re_RolledBack = rolled\<rparr>)))))"

definition ApplyCopy :: "CopySource \<Rightarrow> ApplyOptions \<Rightarrow> ApplyResult action" where
  "ApplyCopy src opts =
     andThen recover (\<lambda>rolled.
     andThen diskInfo (\<lambda>info.
       case info of
         None \<Rightarrow> andThen (writeNewDiskFrom src) (\<lambda>n. return \<lparr>re_ChangedBytes = n, re_RolledBack = rolled\<rparr>)
       | Some oldSize \<Rightarrow> applyOver src opts oldSize rolled))"

section \<open>Rewinding\<close>

fun rewindLoop :: "undoFile list \<Rightarrow> unit action" where
  "rewindLoop [] = return ()"
| "rewindLoop (u # us) = andThen (applyUndo Out (uf_path u)) (\<lambda>_. rewindLoop us)"

text \<open>The last restore point with the time, and the files from it to the newest.\<close>

definition stopAt :: "int \<Rightarrow> undoFile list \<Rightarrow> undoFile list option" where
  "stopAt to files =
     (let later = takeWhile (\<lambda>u. uh_from (uf_hdr u) \<noteq> to) (rev files)
      in if length later = length files then None else Some (drop (length files - Suc (length later)) files))"

text \<open>The disk is copied to the new file and the undo files applied to the copy, newest first.\<close>

definition rewindCopy :: "undoFile list \<Rightarrow> unit action" where
  "rewindCopy newestFirst =
     andThen openDisk (\<lambda>_.
     andThen (sysCall (\<lambda>v. if vo_out v \<noteq> None then (Inl ''file exists'', v) else (Inr (), v\<lparr>vo_out := Some []\<rparr>))) (\<lambda>_.
     orElse
       (andThen (\<lambda>v. writeFile Out 0 (contents Disk v) v) (\<lambda>_.
        andThen (rewindLoop newestFirst) (\<lambda>_. syncFile)))
       (sysCall (\<lambda>v. (Inr (), v\<lparr>vo_out := None\<rparr>)))))"

definition Rewind :: "int \<Rightarrow> unit action" where
  "Rewind to =
     andThen recover (\<lambda>_.
     andThen appliedUndo (\<lambda>files.
       case stopAt to files of
         None \<Rightarrow> fail ''no restore point''
       | Some chosen \<Rightarrow> rewindCopy (rev chosen)))"

section \<open>The state of a disk\<close>

record DiskState =
  dt_Moment :: int
  dt_MomentKnown :: bool
  dt_VMGroup :: string
  dt_RestorePoints :: "int list"
  dt_Unfinished :: bool
  dt_Modified :: bool

definition momentFrom :: "undoFile list \<Rightarrow> int option action" where
  "momentFrom files =
     (if files \<noteq> [] then return (Some (uh_to (uf_hdr (last files))))
      else andThen readMomentFile (\<lambda>mf.
        return (case mf of None \<Rightarrow> None | Some m \<Rightarrow> if mf_Moment m = zeroTime then None else Some (mf_Moment m))))"

definition moment :: "int option action" where
  "moment = andThen appliedUndo momentFrom"

definition hasUnfinishedCopy :: "bool action" where
  "hasUnfinishedCopy = andThen undoEntries (\<lambda>entries.
     return (list_ex (\<lambda>n. has_suffix n undoReady) (case entries of None \<Rightarrow> [] | Some names \<Rightarrow> names)))"

text \<open>\<^verbatim>\<open>t.Unix() > 0\<close>: at least a second after the epoch.\<close>

definition afterEpoch :: "int \<Rightarrow> bool" where
  "afterEpoch t \<longleftrightarrow> t div 10 ^ 9 > 0"

definition stateFrom :: "undoFile list \<Rightarrow> DiskState action" where
  "stateFrom files =
     andThen (momentFrom files) (\<lambda>moment.
     andThen readMomentFile (\<lambda>mf.
     andThen hasUnfinishedCopy (\<lambda>unfinished.
     andThen (if mf = None then return None else diskSeal) (\<lambda>seal.
     return \<lparr>dt_Moment = (case moment of None \<Rightarrow> zeroTime | Some t \<Rightarrow> t), dt_MomentKnown = (moment \<noteq> None),
        dt_VMGroup = (case mf of None \<Rightarrow> '''' | Some m \<Rightarrow> mf_VMGroup m),
        dt_RestorePoints = filter afterEpoch (map (\<lambda>u. uh_from (uf_hdr u)) files),
        dt_Unfinished = unfinished,
        dt_Modified =
          (case (mf, seal) of
             (Some m, Some (n, mtime)) \<Rightarrow> mf_DiskMtimeNs m \<noteq> 0 \<and> mtime \<noteq> mf_DiskMtimeNs m \<and> \<not> unfinished
           | _ \<Rightarrow> False)\<rparr>))))"

definition ReadDiskState :: "DiskState action" where
  "ReadDiskState = andThen appliedUndo stateFrom"

text \<open>Whether the disk already shows the copy, when its staging file is gone.\<close>

definition CopyApplied :: "ApplyOptions \<Rightarrow> bool action" where
  "CopyApplied opts =
     andThen diskInfo (\<lambda>info.
       if info = None then return False
       else andThen appliedUndo (\<lambda>files.
         if list_ex (\<lambda>u. uh_to (uf_hdr u) = ao_To opts) files then return True
         else if ao_From opts \<noteq> zeroTime then return False
         else andThen undoEntries (\<lambda>entries. return (case entries of None \<Rightarrow> True | Some names \<Rightarrow> names = []))))"

definition chooseMoment :: "DiskState \<Rightarrow> int \<Rightarrow> string + int option" where
  "chooseMoment st at =
     (if \<not> dt_MomentKnown st \<or> at = zeroTime \<or> \<not> at < dt_Moment st then Inr None
      else
        let chosen = foldl (\<lambda>chosen p. if \<not> p > at then p else chosen) zeroTime (dt_RestorePoints st)
        in if chosen = zeroTime then Inl ''no backup at or before'' else Inr (Some chosen))"

text \<open>The copy of the latest disk: blocks of zeros are left out and the size is set at the end.\<close>

definition sparseBlock :: nat where
  "sparseBlock = 2 ^ 20"

function sparseLoop :: "byte list \<Rightarrow> nat \<Rightarrow> unit action" where
  "sparseLoop disk off =
     (if off \<ge> length disk then return ()
      else
        let buf = ReadAt disk off sparseBlock in
        andThen (if allZero buf then return () else writeFile Out off buf) (\<lambda>_. sparseLoop disk (off + length buf)))"
  by auto
termination
  by (relation "measure (\<lambda>(disk, off). length disk - off)") (auto simp: sparseBlock_def length_ReadAt)

declare sparseLoop.simps [simp del]

definition copySparse :: "unit action" where
  "copySparse =
     andThen openDisk (\<lambda>_.
     andThen (sysCall (\<lambda>v. if vo_out v \<noteq> None then (Inl ''file exists'', v) else (Inr (), v\<lparr>vo_out := Some []\<rparr>))) (\<lambda>_.
     orElse
       (\<lambda>v. andThen (sparseLoop (contents Disk v) 0) (\<lambda>_. truncateFile Out (length (contents Disk v))) v)
       (sysCall (\<lambda>v. (Inr (), v\<lparr>vo_out := None\<rparr>)))))"

text \<open>The file \<open>out\<close> is written; the result is the moment it shows and whether it is the latest.\<close>

definition RestoreDisk :: "int \<Rightarrow> (int \<times> bool) action" where
  "RestoreDisk at v =
     (if vo_out v \<noteq> None then (Inl ''already exists'', v)
      else
        andThen ReadDiskState (\<lambda>st.
          if dt_Unfinished st then fail ''ErrCopyInProgress''
          else if dt_Modified st then fail ''the backup disk changed after its last copy''
          else
            case chooseMoment st at of
              Inl e \<Rightarrow> fail e
            | Inr None \<Rightarrow> andThen copySparse (\<lambda>_. return (dt_Moment st, True))
            | Inr (Some chosen) \<Rightarrow> andThen (Rewind chosen) (\<lambda>_. return (chosen, False))) v)"

section \<open>Applying a staging file\<close>

definition qcowSource :: "Image \<Rightarrow> CopySource" where
  "qcowSource img = \<lparr>cs_Size = im_VirtualSize img, cs_Walk = Walk img, cs_DataReader = (\<lambda>_. DataReader img)\<rparr>"

text \<open>\<^verbatim>\<open>^\.repl-staging-[a-z0-9]{1,16}\.qcow2$\<close>.\<close>

definition stagingNameRe :: "string \<Rightarrow> bool" where
  "stagingNameRe s \<longleftrightarrow>
     has_prefix s ''.repl-staging-'' \<and> has_suffix s ''.qcow2'' \<and> 20 < length s \<and> length s \<le> 36 \<and>
     list_all lower_alnum (take (length s - 20) (drop 14 s))"

text \<open>The staging file by the last part of its path; none when it does not exist.\<close>

definition openStaging :: "string \<Rightarrow> Image option action" where
  "openStaging base =
     (if \<not> stagingNameRe base then fail ''not a staging file name''
      else sysCall (\<lambda>v.
        case vo_staging v of
          None \<Rightarrow> (Inr None, v)
        | Some f \<Rightarrow> (case Open f (length f) of Inl e \<Rightarrow> (Inl e, v) | Inr img \<Rightarrow> (Inr (Some img), v))))"

definition ApplyVMDisk :: "string \<Rightarrow> ApplyOptions \<Rightarrow> (ApplyResult \<times> int list) action" where
  "ApplyVMDisk base opts =
     andThen (openStaging base) (\<lambda>staging.
       case staging of
         None \<Rightarrow>
           (\<lambda>v. case CopyApplied opts v of
              (Inr True, v1) \<Rightarrow>
                andThen RestorePoints (\<lambda>points. return (\<lparr>re_ChangedBytes = 0, re_RolledBack = False\<rparr>, points)) v1
            | (_, v1) \<Rightarrow> (Inl ''no such file'', v1))
       | Some img \<Rightarrow>
           andThen (ApplyCopy (qcowSource img) opts) (\<lambda>res.
           andThen (sysCall (\<lambda>v. (Inr (), v\<lparr>vo_staging := None\<rparr>))) (\<lambda>_.
           andThen RestorePoints (\<lambda>points. return (res, points)))))"

end
