(* ===== verification/Undo_Steps.thy ===== *)
theory Undo_Steps
  imports Undo_Volume
begin

text \<open>
  A small program logic for the file operations. \<open>runs F P m Q E\<close> says that from a state with \<open>P\<close>
  the action either returns with \<open>Q\<close> or fails with \<open>E\<close>; without faults to come (\<open>F\<close> false) the
  states it starts from and returns in have none to come either, so a rule with \<open>E\<close> false then shows that
  the action does not fail. The second part describes the states: the names in the undo folder, what rolling
  back with an undo file gives and the chain of restore points.
\<close>

section \<open>Runs\<close>

definition calm :: "bool \<Rightarrow> volume \<Rightarrow> bool" where
  "calm F v \<longleftrightarrow> F \<or> vo_faults v = []"

definition runs :: "bool \<Rightarrow> (volume \<Rightarrow> bool) \<Rightarrow> 'a action \<Rightarrow> ('a \<Rightarrow> volume \<Rightarrow> bool) \<Rightarrow> (volume \<Rightarrow> bool) \<Rightarrow> bool" where
  "runs F P m Q E \<longleftrightarrow> (\<forall>v. P v \<and> calm F v \<longrightarrow> (case m v of (Inr x, v') \<Rightarrow> Q x v' \<and> calm F v' | (Inl e, v') \<Rightarrow> E v'))"

definition stable :: "(volume \<Rightarrow> bool) \<Rightarrow> bool" where
  "stable P \<longleftrightarrow> (\<forall>v fs. P v \<longrightarrow> P (v\<lparr>vo_faults := fs\<rparr>))"

lemma runsI:
  assumes "\<And>v x v'. P v \<Longrightarrow> calm F v \<Longrightarrow> m v = (Inr x, v') \<Longrightarrow> Q x v' \<and> calm F v'"
    and "\<And>v e v'. P v \<Longrightarrow> calm F v \<Longrightarrow> m v = (Inl e, v') \<Longrightarrow> E v'"
  shows "runs F P m Q E"
  unfolding runs_def by (intro allI impI) (auto split: prod.splits sum.splits intro: assms(1) [THEN conjunct1] assms(1) [THEN conjunct2] assms(2))

lemma runs_success: "runs F P m Q E \<Longrightarrow> P v \<Longrightarrow> calm F v \<Longrightarrow> m v = (Inr x, v') \<Longrightarrow> Q x v' \<and> calm F v'"
  unfolding runs_def by (drule spec [of _ v]) simp

lemma runs_failure: "runs F P m Q E \<Longrightarrow> P v \<Longrightarrow> calm F v \<Longrightarrow> m v = (Inl e, v') \<Longrightarrow> E v'"
  unfolding runs_def by (drule spec [of _ v]) simp

lemma runs_returns:
  assumes "runs False P m Q (\<lambda>_. False)" "P v" "vo_faults v = []"
  shows "\<exists>x v'. m v = (Inr x, v') \<and> Q x v' \<and> vo_faults v' = []"
proof -
  obtain r v' where m: "m v = (r, v')" by (rule prod.exhaust)
  have "calm False v" using assms(3) by (simp add: calm_def)
  then show ?thesis using runs_success [OF assms(1,2)] runs_failure [OF assms(1,2)] m by (cases r) (auto simp: calm_def)
qed

lemma runs_return: "(\<And>v. P v \<Longrightarrow> Q x v) \<Longrightarrow> runs F P (return x) Q E"
  by (simp add: runs_def return_def)

lemma runs_fail: "(\<And>v. P v \<Longrightarrow> E v) \<Longrightarrow> runs F P (fail e) Q E"
  by (simp add: runs_def fail_def)

lemma runs_andThen:
  assumes "runs F P m Q E" "\<And>x. runs F (Q x) (k x) R E"
  shows "runs F P (andThen m k) R E"
proof (rule runsI)
  fix v y v' assume v: "P v" "calm F v" "andThen m k v = (Inr y, v')"
  then obtain x v1 where "m v = (Inr x, v1)" "k x v1 = (Inr y, v')" by (auto simp: andThen_def split: prod.splits sum.splits)
  then show "R y v' \<and> calm F v'" using runs_success [OF assms(1) v(1,2)] runs_success [OF assms(2)] by blast
next
  fix v e v' assume v: "P v" "calm F v" "andThen m k v = (Inl e, v')"
  then consider "m v = (Inl e, v')" | x v1 where "m v = (Inr x, v1)" "k x v1 = (Inl e, v')"
    by (auto simp: andThen_def split: prod.splits sum.splits)
  then show "E v'" using runs_success [OF assms(1) v(1,2)] runs_failure [OF assms(1) v(1,2)] runs_failure [OF assms(2)] by cases blast+
qed

lemma runs_orElse:
  assumes "runs F P m Q E" "runs True E c (\<lambda>_. E') E'"
  shows "runs F P (orElse m c) Q E'"
proof (rule runsI)
  fix v x v' assume v: "P v" "calm F v" "orElse m c v = (Inr x, v')"
  then have "m v = (Inr x, v')" by (auto simp: orElse_def split: prod.splits sum.splits)
  then show "Q x v' \<and> calm F v'" using runs_success [OF assms(1) v(1,2)] by blast
next
  fix v e v' assume v: "P v" "calm F v" "orElse m c v = (Inl e, v')"
  then obtain v1 where m: "m v = (Inl e, v1)" and c: "v' = snd (c v1)" by (auto simp: orElse_def split: prod.splits sum.splits)
  have "E v1" "calm True v1" using runs_failure [OF assms(1) v(1,2) m] by (simp_all add: calm_def)
  moreover obtain r v2 where "c v1 = (r, v2)" by (rule prod.exhaust)
  ultimately show "E' v'" using runs_success [OF assms(2)] runs_failure [OF assms(2)] c by (cases r) fastforce+
qed

lemma runs_weaken:
  assumes "runs F P m Q E" "\<And>v. P' v \<Longrightarrow> P v" "\<And>x v. Q x v \<Longrightarrow> Q' x v" "\<And>v. E v \<Longrightarrow> E' v"
  shows "runs F P' m Q' E'"
  using runs_success [OF assms(1)] runs_failure [OF assms(1)] assms(2-4) by (intro runsI) blast+

lemma runs_pre: "runs F P m Q E \<Longrightarrow> (\<And>v. P' v \<Longrightarrow> P v) \<Longrightarrow> runs F P' m Q E"
  by (rule runs_weaken)

lemma runs_ex: "(\<And>x. runs F (P x) m Q E) \<Longrightarrow> runs F (\<lambda>v. \<exists>x. P x v) m Q E"
  unfolding runs_def by (intro allI impI) (elim conjE exE, simp)

lemma runs_fact: "(A \<Longrightarrow> runs F P m Q E) \<Longrightarrow> runs F (\<lambda>v. A \<and> P v) m Q E"
  by (cases A) (simp_all add: runs_def)

lemma runs_eq: "runs F P m' Q E \<Longrightarrow> (\<And>v. P v \<Longrightarrow> m v = m' v) \<Longrightarrow> runs F P m Q E"
  by (simp add: runs_def)

lemma runs_if: "(b \<Longrightarrow> runs F P m Q E) \<Longrightarrow> (\<not> b \<Longrightarrow> runs F P m' Q E) \<Longrightarrow> runs F P (if b then m else m') Q E"
  by simp

lemma attempt_cases:
  "attempt v = (None, v1) \<Longrightarrow> \<exists>fs. v1 = v\<lparr>vo_faults := fs\<rparr> \<and> (vo_faults v = [] \<longrightarrow> fs = [])"
  "attempt v = (Some k, v1) \<Longrightarrow> vo_faults v \<noteq> [] \<and> (\<exists>fs. v1 = v\<lparr>vo_faults := fs\<rparr>)"
proof -
  have "v = v\<lparr>vo_faults := vo_faults v\<rparr>" by simp
  then show "attempt v = (None, v1) \<Longrightarrow> \<exists>fs. v1 = v\<lparr>vo_faults := fs\<rparr> \<and> (vo_faults v = [] \<longrightarrow> fs = [])"
    by (auto simp: attempt_def split: list.splits)
  show "attempt v = (Some k, v1) \<Longrightarrow> vo_faults v \<noteq> [] \<and> (\<exists>fs. v1 = v\<lparr>vo_faults := fs\<rparr>)"
    by (auto simp: attempt_def split: list.splits)
qed

text \<open>A call that works, or fails with what a fault leaves behind.\<close>

lemma runs_attempt:
  assumes m: "\<And>v. m v = (case attempt v of (None, v1) \<Rightarrow> ok v1 | (Some k, v1) \<Rightarrow> (Inl e, bad k v1))"
    and "stable P" "\<And>v. P v \<Longrightarrow> case ok v of (Inr x, v') \<Rightarrow> Q x v' \<and> vo_faults v' = vo_faults v | (Inl e, v') \<Rightarrow> E v'"
    and "\<And>v k. F \<Longrightarrow> P v \<Longrightarrow> E (bad k v)"
  shows "runs F P m Q E"
  unfolding runs_def
proof (intro allI impI)
  fix v assume v: "P v \<and> calm F v"
  obtain a v1 where a: "attempt v = (a, v1)" by (rule prod.exhaust)
  show "case m v of (Inr x, v') \<Rightarrow> Q x v' \<and> calm F v' | (Inl e, v') \<Rightarrow> E v'"
  proof (cases a)
    case None
    then obtain fs where fs: "v1 = v\<lparr>vo_faults := fs\<rparr>" "vo_faults v = [] \<longrightarrow> fs = []" using attempt_cases(1) a by blast
    then have "P v1" using v assms(2) by (simp add: stable_def)
    moreover have "calm F v1" using v fs by (auto simp: calm_def)
    ultimately show ?thesis using assms(3) [of v1] a None by (auto simp: m calm_def split: prod.splits sum.splits)
  next
    case (Some k)
    then obtain fs where fs: "v1 = v\<lparr>vo_faults := fs\<rparr>" "vo_faults v \<noteq> []" using attempt_cases(2) a by blast
    then have "P v1" "F" using v assms(2) by (auto simp: stable_def calm_def)
    then show ?thesis using assms(4) a Some by (simp add: m)
  qed
qed

lemma runs_sysCall:
  assumes "stable P" "\<And>v. P v \<Longrightarrow> case m v of (Inr x, v') \<Rightarrow> Q x v' \<and> vo_faults v' = vo_faults v | (Inl e, v') \<Rightarrow> E v'"
    and "\<And>v. F \<Longrightarrow> P v \<Longrightarrow> E v"
  shows "runs F P (sysCall m) Q E"
  using assms by (intro runs_attempt [where ok = m and bad = "\<lambda>_ v. v" and e = "''i/o error''"])
    (simp_all add: sysCall_def split: option.splits)

lemma runs_syncFile: "stable P \<Longrightarrow> (\<And>v. F \<Longrightarrow> P v \<Longrightarrow> E v) \<Longrightarrow> runs F P syncFile (\<lambda>_. P) E"
  unfolding syncFile_def by (rule runs_sysCall) (simp_all add: return_def)

section \<open>States\<close>

text \<open>The disk, the undo folder and the file for a rewound disk; the other fields do not matter.\<close>

definition at :: "byte list \<Rightarrow> (string \<times> byte list) list \<Rightarrow> byte list option \<Rightarrow> volume \<Rightarrow> bool" where
  "at d U out v \<longleftrightarrow> vo_disk v = Some d \<and> folder v = U \<and> vo_out v = out"

lemma stable_at [simp, intro]: "stable (at d U out)" "stable (\<lambda>v. A \<and> at d U out v)"
  by (auto simp: stable_def at_def folder_def)

lemma at_folder [simp]: "folder (setFolder U v) = U" "vo_disk (setFolder U v) = vo_disk v" "vo_out (setFolder U v) = vo_out v"
  "vo_faults (setFolder U v) = vo_faults v"
  by (simp_all add: folder_def setFolder_def)

lemma at_setFile [simp]:
  "at d U out v \<Longrightarrow> at f U out (setFile Disk f v)" "at d U out v \<Longrightarrow> at d U (Some f) (setFile Out f v)"
  "vo_faults (setFile t f v) = vo_faults v" "at d U out v \<Longrightarrow> contents Disk v = d" "at d U (Some f) v \<Longrightarrow> contents Out v = f"
  by (cases t; simp add: at_def setFile_def folder_def contents_def)+

lemma runs_writeFile:
  assumes "\<And>v k. F \<Longrightarrow> at (WriteAt d off (take k data)) U out v \<Longrightarrow> E v"
  shows "runs F (at d U out) (writeFile Disk off data) (\<lambda>_. at (WriteAt d off data) U out) E"
  by (rule runs_attempt [OF writeFile_def]) (simp_all, erule (1) assms [OF _ at_setFile(1)])

lemma runs_writeOut:
  assumes "\<And>v k. F \<Longrightarrow> at d U (Some (WriteAt f off (take k data))) v \<Longrightarrow> E v"
  shows "runs F (at d U (Some f)) (writeFile Out off data) (\<lambda>_. at d U (Some (WriteAt f off data))) E"
  by (rule runs_attempt [OF writeFile_def]) (simp_all, erule (1) assms [OF _ at_setFile(2)])

lemma runs_truncate:
  assumes "\<And>v. F \<Longrightarrow> at d U out v \<Longrightarrow> E v"
  shows "runs F (at d U out) (truncateFile Disk n) (\<lambda>_. at (Truncate n d) U out) E"
  unfolding truncateFile_def using assms by (intro runs_sysCall) simp_all

lemma runs_truncateOut:
  assumes "\<And>v. F \<Longrightarrow> at d U (Some f) v \<Longrightarrow> E v"
  shows "runs F (at d U (Some f)) (truncateFile Out n) (\<lambda>_. at d U (Some (Truncate n f))) E"
  unfolding truncateFile_def using assms by (intro runs_sysCall) simp_all

lemma runs_openDisk: "(\<And>v. F \<Longrightarrow> at d U out v \<Longrightarrow> E v) \<Longrightarrow> runs F (at d U out) openDisk (\<lambda>_. at d U out) E"
  unfolding openDisk_def by (rule runs_sysCall) (simp_all add: at_def)

lemma runs_diskInfo:
  "(\<And>v. F \<Longrightarrow> at d U out v \<Longrightarrow> E v) \<Longrightarrow> runs F (at d U out) diskInfo (\<lambda>x v. x = Some (length d) \<and> at d U out v) E"
  unfolding diskInfo_def by (rule runs_sysCall) (simp_all add: at_def)

lemma runs_entries:
  "(\<And>v. F \<Longrightarrow> at d U out v \<Longrightarrow> E v) \<Longrightarrow>
   runs F (at d U out) undoEntries (\<lambda>x v. (case x of None \<Rightarrow> [] | Some ns \<Rightarrow> ns) = map fst U \<and> at d U out v) E"
  unfolding undoEntries_def by (rule runs_sysCall) (auto simp: at_def folder_def split: option.splits)

lemma runs_readUndo:
  "map_of U name = Some c \<Longrightarrow> (\<And>v. F \<Longrightarrow> at d U out v \<Longrightarrow> E v) \<Longrightarrow>
   runs F (at d U out) (readFileUndo name) (\<lambda>x v. x = c \<and> at d U out v) E"
  unfolding readFileUndo_def by (rule runs_sysCall) (simp_all add: at_def)

lemma runs_remove:
  "map_of U name = Some c \<Longrightarrow> (\<And>v. F \<Longrightarrow> at d U out v \<Longrightarrow> E v) \<Longrightarrow>
   runs F (at d U out) (removeUndo name) (\<lambda>_. at d (filter (\<lambda>p. fst p \<noteq> name) U) out) E"
  unfolding removeUndo_def by (rule runs_sysCall) (simp_all add: at_def)

lemma runs_rename:
  "map_of U old = Some c \<Longrightarrow> (\<And>v. F \<Longrightarrow> at d U out v \<Longrightarrow> E v) \<Longrightarrow>
   runs F (at d U out) (renameUndo old new) (\<lambda>_. at d ((new, c) # filter (\<lambda>p. fst p \<noteq> old \<and> fst p \<noteq> new) U) out) E"
  unfolding renameUndo_def by (rule runs_sysCall) (simp_all add: at_def)

lemma runs_create:
  "map_of U name = None \<Longrightarrow> (\<And>v. F \<Longrightarrow> at d U out v \<Longrightarrow> E v) \<Longrightarrow>
   runs F (at d U out) (createUndo name) (\<lambda>_. at d ((name, []) # U) out) E"
  unfolding createUndo_def by (rule runs_sysCall) (simp_all add: at_def)

lemma runs_mkUndoDir: "(\<And>v. F \<Longrightarrow> at d U out v \<Longrightarrow> E v) \<Longrightarrow> runs F (at d U out) mkUndoDir (\<lambda>_. at d U out) E"
  unfolding mkUndoDir_def by (rule runs_sysCall) (simp_all add: at_def)

lemma runs_append:
  assumes "name \<notin> fst ` set U" "\<And>v k. F \<Longrightarrow> at d ((name, take k data) # U) out v \<Longrightarrow> E v"
  shows "runs F (at d ((name, []) # U) out) (appendUndo name data) (\<lambda>_. at d ((name, data) # U) out) E"
proof -
  have same: "map (\<lambda>(n, c). if n = name then (n, c @ x) else (n, c)) U = U" for x
    using assms(1) by (intro map_idI) (auto simp: image_iff)
  show ?thesis
    by (rule runs_attempt [OF appendUndo_def]) (simp_all add: at_def same assms(2))
qed

end
