(* ===== verification/Undo_Chain.thy ===== *)
theory Undo_Chain
  imports Undo_Steps
begin

text \<open>
  What the files of a volume mean. The disk of a volume is the one \<^verbatim>\<open>recover\<close> leaves: with an undo file that
  is complete but not applied, the disk rolled back with it. The applied undo files, newest first, take that
  disk back to the earlier versions. \<open>backup\<close> is this reading of the files, and the second half gives
  the files of the undo folder by their number and stage instead of their name.
\<close>

section \<open>Rolling back\<close>

definition undone :: "undoHeader \<Rightarrow> (nat \<times> byte list \<times> nat) list \<Rightarrow> byte list \<Rightarrow> byte list" where
  "undone h recs d = Truncate (nat (uh_oldSize h)) (foldl (\<lambda>f (off, data, _). WriteAt f off data) d recs)"

definition covered :: "(nat \<times> byte list \<times> nat) list \<Rightarrow> nat \<Rightarrow> bool" where
  "covered recs i \<longleftrightarrow> (\<exists>(off, data, p) \<in> set recs. off \<le> i \<and> i < off + length data)"

definition rollBack :: "byte list \<Rightarrow> byte list \<Rightarrow> byte list" where
  "rollBack c d = (case readUndoFrom c of (recs, Inr h) \<Rightarrow> undone h recs d | _ \<Rightarrow> d)"

text \<open>The versions before the disk, newest first: when each was made, when the next one was, and its contents.\<close>

type_synonym version = "int \<times> int \<times> byte list"

fun versions :: "byte list list \<Rightarrow> byte list \<Rightarrow> version list" where
  "versions [] d = []"
| "versions (c # cs) d =
     (case snd (readUndoFrom c) of
        Inl e \<Rightarrow> []
      | Inr h \<Rightarrow> (uh_from h, uh_to h, rollBack c d) # versions cs (rollBack c d))"

lemma covered_simps [simp]:
  "\<not> covered [] i" "covered ((off, data, p) # recs) i \<longleftrightarrow> off \<le> i \<and> i < off + length data \<or> covered recs i"
  "covered (as @ bs) i \<longleftrightarrow> covered as i \<or> covered bs i"
  by (auto simp: covered_def)

lemma byteAt_records:
  "byteAt (foldl (\<lambda>f (off, data, _). WriteAt f off data) d recs) i =
     (if covered recs i then byteAt (foldl (\<lambda>f (off, data, _). WriteAt f off data) [] recs) i else byteAt d i)"
proof (induction recs rule: rev_induct)
  case Nil
  then show ?case by simp
next
  case (snoc r recs)
  then show ?case by (cases r) (simp add: file_simps)
qed

lemma length_undone [simp]: "length (undone h recs d) = nat (uh_oldSize h)"
  by (simp add: undone_def length_Truncate)

text \<open>Only the bytes of the old disk that no record covers matter.\<close>

lemma undone_cong:
  assumes "\<And>i. i < nat (uh_oldSize h) \<Longrightarrow> \<not> covered recs i \<Longrightarrow> byteAt d' i = byteAt d i"
  shows "undone h recs d' = undone h recs d"
proof (rule file_eqI)
  fix i assume "i < length (undone h recs d)"
  then have i: "i < nat (uh_oldSize h)" by simp
  then show "byteAt (undone h recs d') i = byteAt (undone h recs d) i"
    using assms [OF i] byteAt_records [of d' recs i] byteAt_records [of d recs i]
    by (simp add: undone_def byteAt_Truncate)
qed simp

lemma undone_restores:
  assumes "\<And>off data p i. (off, data, p) \<in> set recs \<Longrightarrow> i < length data \<Longrightarrow> data ! i = byteAt D (off + i)"
    and "uh_oldSize h = int (length D)" "\<And>i. i < length D \<Longrightarrow> \<not> covered recs i \<Longrightarrow> byteAt d i = byteAt D i"
  shows "undone h recs d = D"
proof (rule file_eqI)
  fix i assume i: "i < length D"
  have "byteAt (foldl (\<lambda>f (off, data, _). WriteAt f off data) d recs) i = byteAt D i"
    using assms(1) assms(3) [OF i]
  proof (induction recs rule: rev_induct)
    case Nil
    then show ?case by simp
  next
    case (snoc r recs)
    obtain off data p where r: "r = (off, data, p)" by (rule prod_cases3)
    have "off \<le> i \<Longrightarrow> i < off + length data \<Longrightarrow> data ! (i - off) = byteAt D i"
      using snoc.prems(1) [of off data p "i - off"] r by simp
    moreover have "byteAt (foldl (\<lambda>f (off, data, _). WriteAt f off data) d recs) i = byteAt D i"
      if "\<not> (off \<le> i \<and> i < off + length data)"
      using that snoc.prems(2) r by (intro snoc.IH snoc.prems(1)) auto
    ultimately show ?case by (auto simp: r file_simps)
  qed
  then show "byteAt (undone h recs d) i = byteAt D i" using i assms(2) by (simp add: undone_def file_simps)
qed (simp add: assms(2))

lemma rollBack_parsed: "readUndoFrom c = (recs, Inr h) \<Longrightarrow> rollBack c d = undone h recs d"
  by (simp add: rollBack_def)

lemma versions_snoc:
  "snd (readUndoFrom c) = Inr h \<Longrightarrow> list_all (\<lambda>c. \<exists>h. snd (readUndoFrom c) = Inr h) cs \<Longrightarrow>
   \<exists>P. versions (cs @ [c]) d = versions cs d @ [(uh_from h, uh_to h, P)]"
  by (induction cs arbitrary: d) auto


section \<open>The names of the undo files\<close>

datatype stage = Part | Ready | Applied

definition nameOf :: "nat \<times> stage \<Rightarrow> string" where
  "nameOf = (\<lambda>(s, st). pad10 (int s) @ (case st of Part \<Rightarrow> undoPart | Ready \<Rightarrow> undoReady | Applied \<Rightarrow> undoApplied))"

lemma pad10_digits: "list_all is_digit (pad10 (int s))"
proof -
  have "list_all is_digit (replicate n (CHR ''0''))" for n by (simp add: list_all_iff is_digit_def)
  then show ?thesis using itoa_digits [of s] by (simp add: pad10_def itoa_int_def)
qed

lemma digits_val_pad10: "digits_val (pad10 (int s)) = s"
  by (simp add: pad10_def itoa_int_def digits_val_zeros digits_val_itoa)

lemma pad10_not_Nil [simp]: "pad10 (int s) \<noteq> []"
  by (simp add: pad10_def itoa_int_def)

lemma atoi_pad10:
  assumes "s < 2 ^ 63"
  shows "atoi (pad10 (int s)) = Some (int s)"
proof -
  have "is_digit (hd (pad10 (int s)))" using pad10_digits [of s] by (cases "pad10 (int s)") auto
  then have "hd (pad10 (int s)) \<noteq> CHR ''-''" "hd (pad10 (int s)) \<noteq> CHR ''+''" using not_digit_sign by metis+
  moreover have "int64_range (int s)" using assms by (simp add: int64_range_def)
  ultimately show ?thesis using pad10_digits [of s] by (simp add: atoi_def Let_def digits_val_pad10)
qed

lemma index_of_digits: "list_all is_digit ds \<Longrightarrow> index_of (ds @ ''.undo'' @ rest) ''.undo'' = Some (length ds)"
  by (induction ds) (auto simp: has_prefix_def is_digit_def)

lemma nameOf_index: "index_of (nameOf (s, st)) undoApplied = Some (length (pad10 (int s)))"
proof -
  have "\<exists>rest. nameOf (s, st) = pad10 (int s) @ ''.undo'' @ rest"
    by (cases st) (auto simp: nameOf_def undoPart_def undoReady_def undoApplied_def)
  then show ?thesis using index_of_digits [OF pad10_digits] by (auto simp: undoApplied_def)
qed

lemma nameOf_take: "take (length (pad10 (int s))) (nameOf (s, st)) = pad10 (int s)"
  by (simp add: nameOf_def)

lemma nameOf_suffix [simp]:
  "has_suffix (nameOf (s, st)) undoPart \<longleftrightarrow> st = Part" "has_suffix (nameOf (s, st)) undoReady \<longleftrightarrow> st = Ready"
  "has_suffix (nameOf (s, st)) undoApplied \<longleftrightarrow> st = Applied"
  by (cases st; simp add: nameOf_def undoPart_def undoReady_def undoApplied_def has_suffix_def has_prefix_def)+

lemma trim_nameOf [simp]: "trimSuffix (nameOf (s, Applied)) undoApplied = pad10 (int s)"
  by (simp add: trimSuffix_def) (simp add: nameOf_def undoApplied_def)

lemma nameOf_eq [simp]: "nameOf k = nameOf k' \<longleftrightarrow> k = k'"
proof
  assume eq: "nameOf k = nameOf k'"
  obtain s st s' st' where k: "k = (s, st)" "k' = (s', st')" by (cases k; cases k')
  then have e: "nameOf (s, st) = nameOf (s', st')" using eq by simp
  have "Some (length (pad10 (int s))) = Some (length (pad10 (int s')))"
    unfolding nameOf_index [of s st, symmetric] nameOf_index [of s' st', symmetric] e by (rule refl)
  then have "pad10 (int s) = pad10 (int s')" using nameOf_take [of s st] nameOf_take [of s' st'] e by (metis option.inject)
  then have "s = s'" using digits_val_pad10 by metis
  moreover have "st = st'"
    using arg_cong [OF e, of "\<lambda>n. has_suffix n undoPart"] arg_cong [OF e, of "\<lambda>n. has_suffix n undoReady"]
    by (cases st; cases st') simp_all
  ultimately show "k = k'" using k by simp
qed simp

lemma nextSeq_nameOf:
  assumes "\<And>k. k \<in> set ks \<Longrightarrow> fst k < 2 ^ 63"
  shows "nextSeq (map nameOf ks) = int (foldl (\<lambda>n k. max n (Suc (fst k))) 1 ks)"
  using assms
proof (induction ks rule: rev_induct)
  case Nil
  then show ?case by (simp add: nextSeq_def)
next
  case (snoc k ks)
  obtain s st where k: "k = (s, st)" by (cases k)
  then have "atoi (take (length (pad10 (int s))) (nameOf k)) = Some (int s)"
    using snoc.prems [of k] atoi_pad10 [of s] by (simp add: nameOf_take)
  moreover have "nextSeq (map nameOf ks) = int (foldl (\<lambda>n k. max n (Suc (fst k))) 1 ks)"
    using snoc.prems by (intro snoc.IH) simp
  ultimately show ?case by (simp add: nextSeq_def k nameOf_index max_def)
qed

lemma foldl_max_bounds:
  "n \<le> foldl (\<lambda>n k. max n (Suc (f k))) n ks" "k \<in> set ks \<Longrightarrow> f k < foldl (\<lambda>n k. max n (Suc (f k))) n ks"
  "n \<le> Suc m \<Longrightarrow> (\<And>k. k \<in> set ks \<Longrightarrow> f k \<le> m) \<Longrightarrow> foldl (\<lambda>n k. max n (Suc (f k))) n ks \<le> Suc m"
proof -
  show le: "n \<le> foldl (\<lambda>n k. max n (Suc (f k))) n ks" for n ks
  proof (induction ks arbitrary: n)
    case (Cons a ks)
    show ?case using Cons.IH [of "max n (Suc (f a))"] by simp
  qed simp
  show "k \<in> set ks \<Longrightarrow> f k < foldl (\<lambda>n k. max n (Suc (f k))) n ks"
  proof (induction ks arbitrary: n)
    case (Cons a ks)
    then show ?case using le [of "max n (Suc (f a))" ks] by (cases "k = a") simp_all
  qed simp
  show "n \<le> Suc m \<Longrightarrow> (\<And>k. k \<in> set ks \<Longrightarrow> f k \<le> m) \<Longrightarrow> foldl (\<lambda>n k. max n (Suc (f k))) n ks \<le> Suc m"
    by (induction ks arbitrary: n) auto
qed


section \<open>What the files mean\<close>

definition recoveredDisk :: "(string \<times> byte list) list \<Rightarrow> byte list \<Rightarrow> byte list" where
  "recoveredDisk U d = foldl (\<lambda>d (name, c). if has_suffix name undoReady then rollBack c d else d) d U"

definition appliedFiles :: "(string \<times> byte list) list \<Rightarrow> (int \<times> byte list) list" where
  "appliedFiles U = sort_key fst (List.map_filter (\<lambda>(name, c).
     if has_suffix name undoApplied then map_option (\<lambda>s. (s, c)) (atoi (trimSuffix name undoApplied)) else None) U)"

definition backup :: "volume \<Rightarrow> byte list \<times> version list" where
  "backup v =
     (let d = recoveredDisk (folder v) (contents Disk v)
      in (d, versions (rev (map snd (appliedFiles (folder v)))) d))"

section \<open>Undo files by number and stage\<close>

type_synonym slot = "(nat \<times> stage) \<times> byte list"

definition files :: "slot list \<Rightarrow> (string \<times> byte list) list" where
  "files S = map (\<lambda>(k, c). (nameOf k, c)) S"

definition points :: "slot list \<Rightarrow> (int \<times> byte list) list" where
  "points S = sort_key fst (map (\<lambda>((s, st), c). (int s, c)) (filter (\<lambda>((s, st), c). st = Applied) S))"

definition recovered :: "slot list \<Rightarrow> byte list \<Rightarrow> byte list" where
  "recovered S d = foldl (\<lambda>d ((s, st), c). if st = Ready then rollBack c d else d) d S"

text \<open>The numbers are in use once per stage and at most \<open>n\<close>; files that are complete can be read.\<close>

definition slotOk :: "nat \<Rightarrow> slot \<Rightarrow> bool" where
  "slotOk n = (\<lambda>((s, st), c). 0 < s \<and> s \<le> n \<and> (st \<noteq> Part \<longrightarrow> (\<exists>recs h. readUndoFrom c = (recs, Inr h))))"

definition wellFormed :: "nat \<Rightarrow> slot list \<Rightarrow> bool" where
  "wellFormed n S \<longleftrightarrow> distinct (map fst S) \<and> (\<forall>p \<in> set S. slotOk n p) \<and> n < 2 ^ 63"

definition sound :: "nat \<Rightarrow> volume \<Rightarrow> bool" where
  "sound n v \<longleftrightarrow> (\<exists>d S. wellFormed n S \<and> vo_disk v = Some d \<and> folder v = files S)"

lemma files_simps [simp]:
  "files [] = []" "files ((k, c) # S) = (nameOf k, c) # files S" "files (S @ T) = files S @ files T"
  "map fst (files S) = map nameOf (map fst S)"
  by (auto simp: files_def)

lemma map_of_files [simp]: "map_of (files S) (nameOf k) = map_of S k"
  by (induction S) auto

lemma filter_files [simp]: "filter (\<lambda>p. fst p \<noteq> nameOf k) (files S) = files (filter (\<lambda>p. fst p \<noteq> k) S)"
  by (induction S) auto

lemma filter_files2 [simp]:
  "filter (\<lambda>p. fst p \<noteq> nameOf k \<and> fst p \<noteq> nameOf k') (files S) = files (filter (\<lambda>p. fst p \<noteq> k \<and> fst p \<noteq> k') S)"
  by (induction S) auto

lemma recovered_simps [simp]:
  "recovered [] d = d" "recovered (((s, st), c) # S) d = recovered S (if st = Ready then rollBack c d else d)"
  "recovered (S @ T) d = recovered T (recovered S d)"
  by (simp_all add: recovered_def)

lemma recovered_id: "\<forall>p \<in> set S. snd (fst p) \<noteq> Ready \<Longrightarrow> recovered S d = d"
  by (induction S) auto

lemma recovered_filter:
  "\<forall>p \<in> set S. P p \<or> snd (fst p) \<noteq> Ready \<Longrightarrow> recovered (filter P S) d = recovered S d"
  by (induction S arbitrary: d) auto

lemma recoveredDisk_files: "recoveredDisk (files S) d = recovered S d"
proof (induction S arbitrary: d)
  case Nil
  then show ?case by (simp add: recoveredDisk_def)
next
  case (Cons p S)
  obtain s st c where "p = ((s, st), c)" by (cases p) auto
  then show ?case using Cons by (simp add: recoveredDisk_def)
qed

lemma appliedFiles_files:
  assumes "wellFormed n S"
  shows "appliedFiles (files S) = points S"
proof -
  have "List.map_filter (\<lambda>(name, c).
      if has_suffix name undoApplied then map_option (\<lambda>s. (s, c)) (atoi (trimSuffix name undoApplied)) else None) (files S)
    = map (\<lambda>((s, st), c). (int s, c)) (filter (\<lambda>((s, st), c). st = Applied) S)"
    using assms unfolding wellFormed_def
  proof (induction S)
    case (Cons p S)
    obtain s st c where p: "p = ((s, st), c)" by (cases p) auto
    then have "s < 2 ^ 63" using Cons.prems by (auto simp: slotOk_def)
    then show ?case using Cons by (cases "st = Applied") (simp_all add: p List.map_filter_simps atoi_pad10)
  qed (simp add: List.map_filter_simps)
  then show ?thesis by (simp add: appliedFiles_def points_def)
qed

lemma insort_key_end: "\<forall>y \<in> set ys. f y < f x \<Longrightarrow> insort_key f x ys = ys @ [x]"
  by (induction ys) auto

lemma points_new:
  assumes "\<forall>p \<in> set S. fst (fst p) < m"
  shows "points (((m, Applied), c) # S) = points S @ [(int m, c)]"
  using assms by (force simp: points_def intro!: insort_key_end)

lemma points_same: "filter (\<lambda>((s, st), c). st = Applied) S = filter (\<lambda>((s, st), c). st = Applied) T \<Longrightarrow> points S = points T"
  by (simp add: points_def)

lemma points_remove:
  assumes "st \<noteq> Applied"
  shows "points (filter (\<lambda>p. fst p \<noteq> (s, st)) S) = points S" "points (((s, st), c) # S) = points S"
proof -
  have "filter (\<lambda>((s, st), c). st = Applied) (filter (\<lambda>p. fst p \<noteq> (s, st)) S) = filter (\<lambda>((s, st), c). st = Applied) S"
    using assms by (induction S) auto
  then show "points (filter (\<lambda>p. fst p \<noteq> (s, st)) S) = points S" by (rule points_same)
  show "points (((s, st), c) # S) = points S" using assms by (simp add: points_def)
qed

lemma points_drop:
  "points (filter (\<lambda>p. fst p \<noteq> (s, Applied)) S) = filter (\<lambda>p. fst p \<noteq> int s) (points S)"
proof -
  have "map (\<lambda>((s, st), c). (int s, c)) (filter (\<lambda>((s, st), c). st = Applied) (filter (\<lambda>p. fst p \<noteq> (s, Applied)) S))
    = filter (\<lambda>p. fst p \<noteq> int s) (map (\<lambda>((s, st), c). (int s, c)) (filter (\<lambda>((s, st), c). st = Applied) S))"
    by (induction S) auto
  then show ?thesis by (simp add: points_def filter_sort)
qed

lemma points_distinct:
  assumes "distinct (map fst S)"
  shows "distinct (map fst (points S))"
proof -
  have "distinct (map fst (map (\<lambda>((s, st), c). (int s, c)) (filter (\<lambda>((s, st), c). st = Applied) S)))"
    using assms
  proof (induction S)
    case (Cons p S)
    obtain s st c where p: "p = ((s, st), c)" by (cases p) auto
    then have "(s, st) \<notin> fst ` set S" "distinct (map fst S)" using Cons.prems by auto
    then show ?case using Cons.IH by (cases "st = Applied") (force simp: p)+
  qed simp
  then show ?thesis unfolding points_def by (simp only: distinct_map distinct_sort set_sort)
qed

end
