(* ===== verification/Undo_Proofs.thy ===== *)
theory Undo_Proofs
  imports Undo_Chain
begin

text \<open>
  The operations on the undo folder, one rule each: what they do to the files that \<open>points\<close> and
  \<open>recovered\<close> read, and that a failure on the way leaves their meaning alone.
\<close>

section \<open>Rolling back\<close>

text \<open>The file that is written, the disk or the rewound disk, with everything else fixed.\<close>

definition on :: "target \<Rightarrow> byte list \<Rightarrow> (string \<times> byte list) list \<Rightarrow> byte list option \<Rightarrow> byte list \<Rightarrow> volume \<Rightarrow> bool" where
  "on t d U out f = (case t of Disk \<Rightarrow> at f U out | Out \<Rightarrow> at d U (Some f))"

lemma stable_on [simp, intro]: "stable (on t d U out f)"
  by (cases t) (simp_all add: on_def)

lemma runs_writeOn:
  assumes "\<And>v k. F \<Longrightarrow> on t d U out (WriteAt f off (take k data)) v \<Longrightarrow> E v"
  shows "runs F (on t d U out f) (writeFile t off data) (\<lambda>_. on t d U out (WriteAt f off data)) E"
  using assms by (cases t) (simp_all add: on_def, (rule runs_writeFile runs_writeOut, blast)+)

lemma runs_truncateOn:
  assumes "\<And>v. F \<Longrightarrow> on t d U out f v \<Longrightarrow> E v"
  shows "runs F (on t d U out f) (truncateFile t n) (\<lambda>_. on t d U out (Truncate n f)) E"
  using assms by (cases t) (simp_all add: on_def, (rule runs_truncate runs_truncateOut, blast)+)

lemma runs_readUndoOn:
  assumes "map_of U name = Some c" "\<And>v. F \<Longrightarrow> on t d U out f v \<Longrightarrow> E v"
  shows "runs F (on t d U out f) (readFileUndo name) (\<lambda>x v. x = c \<and> on t d U out f v) E"
  using assms by (cases t) (simp_all add: on_def, (rule runs_readUndo, assumption, blast)+)

lemma runs_writeRecords:
  assumes "\<And>v f'. F \<Longrightarrow> on t d U out f' v \<Longrightarrow> (\<And>i. \<not> covered recs i \<Longrightarrow> byteAt f' i = byteAt f i) \<Longrightarrow> E v"
  shows "runs F (on t d U out f) (writeRecords t recs) (\<lambda>_. on t d U out (foldl (\<lambda>f (off, data, _). WriteAt f off data) f recs)) E"
  using assms
proof (induction recs arbitrary: f)
  case Nil
  then show ?case by (simp add: runs_return)
next
  case (Cons r recs)
  obtain off data p where r: "r = (off, data, p)" by (rule prod_cases3)
  have w: "runs F (on t d U out f) (writeFile t off data) (\<lambda>_. on t d U out (WriteAt f off data)) E"
    by (rule runs_writeOn) (auto simp: r file_simps intro!: Cons.prems)
  have "runs F (on t d U out (WriteAt f off data)) (writeRecords t recs)
    (\<lambda>_. on t d U out (foldl (\<lambda>f (off, data, _). WriteAt f off data) (WriteAt f off data) recs)) E"
    by (rule Cons.IH) (auto simp: r file_simps intro!: Cons.prems)
  then show ?case by (simp add: r runs_andThen [OF w])
qed

lemma byteAt_undone: "i < nat (uh_oldSize h) \<Longrightarrow> \<not> covered recs i \<Longrightarrow> byteAt (undone h recs f) i = byteAt f i"
  using byteAt_records [of f recs i] by (simp add: undone_def byteAt_Truncate)

lemma runs_applyUndo:
  assumes "map_of U name = Some c" "readUndoFrom c = (recs, Inr h)"
    and E: "\<And>v f'. F \<Longrightarrow> on t d U out f' v \<Longrightarrow> undone h recs f' = undone h recs f \<Longrightarrow> E v"
  shows "runs F (on t d U out f) (applyUndo t name) (\<lambda>_. on t d U out (undone h recs f)) E"
proof -
  let ?g = "foldl (\<lambda>f (off, data, _). WriteAt f off data) f recs"
  have read: "runs F (on t d U out f) (readFileUndo name) (\<lambda>x v. x = c \<and> on t d U out f v) E"
    using assms by (intro runs_readUndoOn) auto
  have recs: "runs F (on t d U out f) (writeRecords t recs) (\<lambda>_. on t d U out ?g) E"
    by (rule runs_writeRecords) (auto intro: E undone_cong)
  have g: "undone h recs ?g = undone h recs f" using byteAt_records [of f recs] by (intro undone_cong) simp
  have trunc: "runs F (on t d U out ?g) (truncateFile t (nat (uh_oldSize h))) (\<lambda>_. on t d U out (undone h recs f)) E"
    unfolding undone_def [of h recs f] by (rule runs_truncateOn) (rule E [OF _ _ g])
  have "undone h recs (undone h recs f) = undone h recs f" by (rule undone_cong) (rule byteAt_undone)
  then have sync: "runs F (on t d U out (undone h recs f)) syncFile (\<lambda>_. on t d U out (undone h recs f)) E"
    by (intro runs_syncFile stable_on E)
  have "runs F (on t d U out f)
      (andThen (readFileUndo name) (\<lambda>_. andThen (writeRecords t recs) (\<lambda>_. andThen (truncateFile t (nat (uh_oldSize h))) (\<lambda>_. syncFile))))
      (\<lambda>_. on t d U out (undone h recs f)) E"
    by (rule runs_andThen [OF read]) (rule runs_fact, rule runs_andThen [OF recs], rule runs_andThen [OF trunc], rule sync)
  then show ?thesis unfolding applyUndo_def by (intro runs_andThen [OF read] runs_fact) (simp add: assms(2))
qed


section \<open>Recovering\<close>

text \<open>
  \<open>meaning\<close>: the files stand for the disk \<open>D\<close> and the applied undo files \<open>ps\<close>, possibly after a
  roll back. \<open>clean\<close>: there is nothing left to roll back.
\<close>

definition meaning :: "nat \<Rightarrow> (int \<times> byte list) list \<Rightarrow> byte list \<Rightarrow> byte list option \<Rightarrow> volume \<Rightarrow> bool" where
  "meaning n ps D out v \<longleftrightarrow> (\<exists>d S. wellFormed n S \<and> points S = ps \<and> recovered S d = D \<and> at d (files S) out v)"

definition allApplied :: "slot list \<Rightarrow> bool" where
  "allApplied S \<longleftrightarrow> (\<forall>p \<in> set S. snd (fst p) = Applied)"

definition clean :: "nat \<Rightarrow> (int \<times> byte list) list \<Rightarrow> byte list \<Rightarrow> byte list option \<Rightarrow> volume \<Rightarrow> bool" where
  "clean n ps D out v \<longleftrightarrow> (\<exists>S. (wellFormed n S \<and> points S = ps \<and> allApplied S) \<and> at D (files S) out v)"

lemma meaningI: "wellFormed n S \<Longrightarrow> points S = ps \<Longrightarrow> recovered S d = D \<Longrightarrow> at d (files S) out v \<Longrightarrow> meaning n ps D out v"
  by (auto simp: meaning_def)

lemma recovered_allApplied: "allApplied S \<Longrightarrow> recovered S d = d"
  by (rule recovered_id) (simp add: allApplied_def)

lemma clean_meaning: "clean n ps D out v \<Longrightarrow> meaning n ps D out v"
  by (auto simp: clean_def intro: meaningI recovered_allApplied)

lemma runs_diskSeal: "runs F (at d U out) diskSeal (\<lambda>_. at d U out) E"
proof (rule runsI)
  fix v x v' assume v: "at d U out v" "calm F v" "diskSeal v = (Inr x, v')"
  have info: "runs F (at d U out) diskInfo (\<lambda>x v. x = Some (length d) \<and> at d U out v) (\<lambda>v. F \<and> at d U out v)"
    by (rule runs_diskInfo) simp
  obtain r where "diskInfo v = (r, v')" using v(3) by (auto simp: diskSeal_def split: prod.splits sum.splits option.splits)
  then show "at d U out v' \<and> calm F v'"
    using runs_success [OF info v(1,2)] runs_failure [OF info v(1,2)] by (cases r) (auto simp: calm_def)
qed (auto simp: diskSeal_def split: prod.splits sum.splits option.splits)

lemma runs_reseal:
  assumes E: "\<And>v. F \<Longrightarrow> at d U out v \<Longrightarrow> E v"
  shows "runs F (at d U out) reseal (\<lambda>_. at d U out) E"
proof -
  have sync: "runs F (at d U out) syncFile (\<lambda>_. at d U out) E" by (intro runs_syncFile stable_at E)
  have put: "runs F (at d U out) (sysCall (\<lambda>v. (Inr (), v\<lparr>vo_moment := m\<rparr>))) (\<lambda>_. at d U out) E" for m
    by (rule runs_sysCall) (simp_all add: E, simp add: at_def folder_def)
  have get: "runs F (at d U out) readMomentFile (\<lambda>_. at d U out) E"
    unfolding readMomentFile_def by (rule runs_sysCall) (simp_all add: E)
  have "runs F (at d U out) (writeMomentFile m) (\<lambda>_. at d U out) E" for m
    unfolding writeMomentFile_def by (rule runs_andThen [OF runs_diskSeal runs_andThen [OF sync runs_andThen [OF put sync]]])
  then show ?thesis unfolding reseal_def by (intro runs_andThen [OF get]) (simp add: runs_return split: option.splits)
qed

lemma wellFormed_sub: "wellFormed n S \<Longrightarrow> distinct (map fst T) \<Longrightarrow> set T \<subseteq> set S \<Longrightarrow> wellFormed n T"
  unfolding wellFormed_def by blast

lemma wellFormed_remove:
  assumes "wellFormed n (T @ p # S)"
  shows "wellFormed n (T @ S)" "filter (\<lambda>q. fst q \<noteq> fst p) (T @ p # S) = T @ S" "map_of (T @ p # S) (fst p) = Some (snd p)"
proof -
  have d: "distinct (map fst (T @ p # S))" using assms by (simp only: wellFormed_def)
  then show "wellFormed n (T @ S)" using assms by (elim wellFormed_sub) auto
  have "fst p \<notin> fst ` set (T @ S)" using d by auto
  then have "\<forall>q \<in> set (T @ S). fst q \<noteq> fst p" by (metis image_eqI)
  then have "filter (\<lambda>q. fst q \<noteq> fst p) T = T" "filter (\<lambda>q. fst q \<noteq> fst p) S = S" by (simp_all add: filter_id_conv)
  then show "filter (\<lambda>q. fst q \<noteq> fst p) (T @ p # S) = T @ S" by simp
  show "map_of (T @ p # S) (fst p) = Some (snd p)" using d by (intro map_of_is_SomeI) simp_all
qed

lemma runs_recoverEntries:
  assumes "wellFormed n (T @ S)" "allApplied T"
    and E: "\<And>v. F \<Longrightarrow> meaning n (points (T @ S)) (recovered S d) out v \<Longrightarrow> E v"
  shows "runs F (at d (files (T @ S)) out) (recoverEntries (map nameOf (map fst S)) r)
    (\<lambda>_. clean n (points (T @ S)) (recovered S d) out) E"
  using assms
proof (induction S arbitrary: T d r)
  case Nil
  then show ?case by (auto simp: clean_def intro: runs_return)
next
  case (Cons p S)
  obtain s st c where p: "p = ((s, st), c)" by (cases p) auto
  note rem = wellFormed_remove [OF Cons.prems(1)]
  have wf: "wellFormed n (T @ S)" by (rule rem(1))
  have got: "map_of (files (T @ p # S)) (nameOf (s, st)) = Some c"
    using rem(3) unfolding map_of_files by (simp only: p fst_conv snd_conv)
  have pts: "points (T @ S) = points (T @ p # S)" if "st \<noteq> Applied"
    using points_remove(1) [OF that, of s "T @ p # S"] rem(2) by (simp only: p fst_conv)
  have del: "runs F (at d' (files (T @ p # S)) out) (removeUndo (nameOf (s, st))) (\<lambda>_. at d' (files (T @ S)) out) E"
    if "\<And>v. F \<Longrightarrow> at d' (files (T @ p # S)) out v \<Longrightarrow> E v" for d'
    using runs_remove [OF got that] rem(2) unfolding filter_files by (simp only: p fst_conv)
  have here: "F \<Longrightarrow> at d' (files (T @ p # S)) out v \<Longrightarrow> recovered (p # S) d' = recovered (p # S) d \<Longrightarrow> E v" for d' v
    using recovered_allApplied [OF Cons.prems(2)] by (intro Cons.prems(3) meaningI [OF Cons.prems(1) refl, of d']) simp_all
  consider "st = Part" | "st = Ready" | "st = Applied" by (cases st)
  then show ?case
  proof cases
    case 1
    have "runs F (at d (files (T @ S)) out) (recoverEntries (map nameOf (map fst S)) r) (\<lambda>_. clean n (points (T @ p # S)) (recovered (p # S) d) out) E"
      using Cons.IH [OF wf Cons.prems(2), of d] Cons.prems(3) pts 1 by (simp add: p)
    moreover have "runs F (at d (files (T @ p # S)) out) (removeUndo (nameOf (s, st))) (\<lambda>_. at d (files (T @ S)) out) E"
      by (rule del) (rule here [OF _ _ refl])
    moreover have "recoverEntries (map nameOf (map fst (p # S))) r = andThen (removeUndo (nameOf (s, st))) (\<lambda>_. recoverEntries (map nameOf (map fst S)) r)"
      using 1 by (simp add: p)
    ultimately show ?thesis by (simp only: runs_andThen)
  next
    case 2
    have "slotOk n p" using Cons.prems(1) by (simp add: wellFormed_def)
    then obtain recs h where c: "readUndoFrom c = (recs, Inr h)" using 2 by (auto simp: slotOk_def p)
    then have un: "undone h recs d' = rollBack c d'" for d' by (simp add: rollBack_parsed)
    have ap: "runs F (at d (files (T @ p # S)) out) (applyUndo Disk (nameOf (s, st))) (\<lambda>_. at (rollBack c d) (files (T @ p # S)) out) E"
      using runs_applyUndo [OF got c, where t = Disk and d = d and f = d and F = F and out = out and E = E] here 2
      by (simp add: on_def un p)
    have idem: "rollBack c (rollBack c d) = rollBack c d" unfolding un [symmetric] by (rule undone_cong) (rule byteAt_undone)
    have "runs F (at (rollBack c d) (files (T @ S)) out) (recoverEntries (map nameOf (map fst S)) True) (\<lambda>_. clean n (points (T @ p # S)) (recovered (p # S) d) out) E"
      using Cons.IH [OF wf Cons.prems(2), of "rollBack c d"] Cons.prems(3) pts 2 by (simp add: p)
    moreover have "runs F (at (rollBack c d) (files (T @ p # S)) out) (removeUndo (nameOf (s, st))) (\<lambda>_. at (rollBack c d) (files (T @ S)) out) E"
      using here [of "rollBack c d"] 2 idem by (intro del) (simp add: p)
    moreover have "runs F (at d (files (T @ p # S)) out) openDisk (\<lambda>_. at d (files (T @ p # S)) out) E"
      by (rule runs_openDisk) (simp add: here)
    moreover have "recoverEntries (map nameOf (map fst (p # S))) r = andThen openDisk (\<lambda>_. andThen (applyUndo Disk (nameOf (s, st)))
        (\<lambda>_. andThen (removeUndo (nameOf (s, st))) (\<lambda>_. recoverEntries (map nameOf (map fst S)) True)))"
      using 2 by (simp add: p)
    ultimately show ?thesis using ap by (simp only: runs_andThen)
  next
    case 3
    have "allApplied (T @ [p])" using Cons.prems(2) 3 by (simp add: allApplied_def p)
    then show ?thesis using Cons.IH [of "T @ [p]" d r] Cons.prems 3 by (simp add: p)
  qed
qed


lemma stable_states [simp, intro]: "stable (meaning n ps D out)" "stable (clean n ps D out)"
  by (fastforce simp: meaning_def clean_def stable_def at_def folder_def)+

lemma runs_recover:
  assumes E: "\<And>v. F \<Longrightarrow> meaning n ps D out v \<Longrightarrow> E v"
  shows "runs F (meaning n ps D out) recover (\<lambda>_. clean n ps D out) E"
proof -
  have "runs F (at d (files S) out) recover (\<lambda>_. clean n ps D out) E"
    if wf: "wellFormed n S" and ps: "points S = ps" and D: "recovered S d = D" for d S
  proof -
    have here: "F \<Longrightarrow> at d (files S) out v \<Longrightarrow> E v" for v using that by (intro E meaningI) auto
    have sync: "runs F (clean n ps D out) syncFile (\<lambda>_. clean n ps D out) E"
      by (intro runs_syncFile stable_states E clean_meaning)
    have "runs F (at D (files T) out) reseal (\<lambda>_. at D (files T) out) E"
      if "wellFormed n T" "points T = ps" "allApplied T" for T
      by (rule runs_reseal) (rule E, assumption, rule meaningI [OF that(1,2) recovered_allApplied [OF that(3)]])
    then have reseal: "runs F (clean n ps D out) reseal (\<lambda>_. clean n ps D out) E"
      unfolding clean_def by (intro runs_ex runs_fact) (rule runs_weaken, blast+)
    have loop: "runs F (at d (files S) out) (recoverEntries (map nameOf (map fst S)) r) (\<lambda>_. clean n ps D out) E" for r
      using runs_recoverEntries [of n "[]" S F d out E r] wf ps D E by (simp add: allApplied_def)
    have all: "runs F (at d (files S) out) (andThen (recoverEntries (map nameOf (map fst S)) False) (\<lambda>rolled.
           andThen (if rolled then reseal else return ()) (\<lambda>_. andThen syncFile (\<lambda>_. return rolled)))) (\<lambda>_. clean n ps D out) E"
      by (intro runs_andThen [OF loop] runs_andThen [where Q = "\<lambda>_. clean n ps D out"] runs_andThen [OF sync])
        (simp_all add: reseal runs_return)
    have "runs F (at d (files S) out) (case x of None \<Rightarrow> return False | Some names \<Rightarrow>
           andThen (recoverEntries names False) (\<lambda>rolled.
           andThen (if rolled then reseal else return ()) (\<lambda>_. andThen syncFile (\<lambda>_. return rolled)))) (\<lambda>_. clean n ps D out) E"
      if x: "(case x of None \<Rightarrow> [] | Some ns \<Rightarrow> ns) = map fst (files S)" for x
    proof (cases x)
      case None
      then have "S = []" using x by simp
      then have "clean n ps D out v" if "at d (files S) out v" for v
        using wf ps D that unfolding clean_def by (intro exI [of _ "[]"]) (simp add: allApplied_def)
      then show ?thesis using None by (simp add: runs_return)
    next
      case (Some names)
      then show ?thesis using x all by simp
    qed
    then show ?thesis unfolding recover_def by (intro runs_andThen [OF runs_entries [OF here]] runs_fact)
  qed
  then show ?thesis unfolding meaning_def by (intro runs_ex runs_fact)
qed

section \<open>The applied undo files\<close>

abbreviation hdrOf :: "byte list \<Rightarrow> undoHeader" where
  "hdrOf c \<equiv> projr (snd (readUndoFrom c))"

definition fileOf :: "int \<times> byte list \<Rightarrow> undoFile" where
  "fileOf = (\<lambda>(s, c). \<lparr>uf_seq = s, uf_path = nameOf (nat s, Applied), uf_hdr = hdrOf c\<rparr>)"

lemma runs_readHeaders:
  assumes "wellFormed n S" "set T \<subseteq> set S" and E: "\<And>v. F \<Longrightarrow> at d (files S) out v \<Longrightarrow> E v"
  shows "runs F (at d (files S) out) (readHeaders (map nameOf (map fst T)))
    (\<lambda>fs v. fs = map (\<lambda>((s, st), c). fileOf (int s, c)) (filter (\<lambda>((s, st), c). st = Applied) T) \<and> at d (files S) out v) E"
  using assms(2)
proof (induction T)
  case Nil
  then show ?case by (simp add: runs_return)
next
  case (Cons p T)
  obtain s st c where p: "p = ((s, st), c)" by (cases p) auto
  have s: "s < 2 ^ 63" and c: "st = Applied \<Longrightarrow> \<exists>recs h. readUndoFrom c = (recs, Inr h)"
    using assms(1) Cons.prems by (auto simp: wellFormed_def slotOk_def p)
  have got: "map_of (files S) (nameOf (s, st)) = Some c"
    using assms(1) Cons.prems by (simp add: wellFormed_def p)
  show ?case
  proof (cases "st = Applied")
    case True
    then obtain recs h where h: "readUndoFrom c = (recs, Inr h)" using c by blast
    have "runs F (at d (files S) out) (readFileUndo (nameOf (s, st))) (\<lambda>x v. x = c \<and> at d (files S) out v) E"
      by (rule runs_readUndo [OF got E])
    then show ?thesis using True s h Cons
      by (auto simp: p atoi_pad10 fileOf_def intro!: runs_andThen runs_fact runs_return elim: runs_andThen)
  next
    case False
    then show ?thesis using Cons by (simp add: p)
  qed
qed


lemma sort_key_map: "sort_key f (map g xs) = map g (sort_key (\<lambda>x. f (g x)) xs)"
proof -
  have "insort_key f (g x) (map g ys) = map g (insort_key (\<lambda>x. f (g x)) x ys)" for x ys
    by (induction ys) auto
  then show ?thesis by (induction xs) simp_all
qed

lemma files_points:
  "sort_key uf_seq (map (\<lambda>((s, st), c). fileOf (int s, c)) (filter (\<lambda>((s, st), c). st = Applied) S)) = map fileOf (points S)"
proof -
  have m: "map (\<lambda>((s, st), c). fileOf (int s, c)) xs = map fileOf (map (\<lambda>((s, st :: stage), c). (int s, c)) xs)" for xs by auto
  have "uf_seq (fileOf x) = fst x" for x by (cases x) (simp add: fileOf_def)
  then show ?thesis unfolding points_def m sort_key_map by simp
qed

lemma runs_appliedUndo:
  assumes "wellFormed n S" and E: "\<And>v. F \<Longrightarrow> at d (files S) out v \<Longrightarrow> E v"
  shows "runs F (at d (files S) out) appliedUndo (\<lambda>fs v. fs = map fileOf (points S) \<and> at d (files S) out v) E"
  unfolding appliedUndo_def
proof (intro runs_andThen [OF runs_entries [OF E]] runs_fact, assumption, assumption)
  fix x :: "string list option"
  assume x: "(case x of None \<Rightarrow> [] | Some ns \<Rightarrow> ns) = map fst (files S)"
  show "runs F (at d (files S) out)
    (andThen (readHeaders (case x of None \<Rightarrow> [] | Some names \<Rightarrow> names)) (\<lambda>files. return (sort_key uf_seq files)))
    (\<lambda>fs v. fs = map fileOf (points S) \<and> at d (files S) out v) E"
    unfolding x files_simps
    by (intro runs_andThen [OF runs_readHeaders [OF assms(1) subset_refl E]] runs_fact runs_return) (simp_all add: files_points)
qed

lemma points_member:
  "(s, c) \<in> set (points S) \<longleftrightarrow> 0 \<le> s \<and> ((nat s, Applied), c) \<in> set S"
proof -
  have "(\<exists>m. s = int m \<and> ((m, Applied), c) \<in> set S) \<longleftrightarrow> 0 \<le> s \<and> ((nat s, Applied), c) \<in> set S"
    by (metis int_nat_eq nat_int of_nat_0_le_iff)
  then show ?thesis by (force simp: points_def)
qed

text \<open>The oldest applied undo file can be removed.\<close>

lemma clean_remove:
  assumes "\<And>v. F \<Longrightarrow> clean n (p # ps) D out v \<Longrightarrow> E v"
  shows "runs F (clean n (p # ps) D out) (removeUndo (uf_path (fileOf p))) (\<lambda>_. clean n ps D out) E"
proof -
  obtain s c where p: "p = (s, c)" by (cases p)
  have "runs F (at D (files S) out) (removeUndo (uf_path (fileOf p))) (\<lambda>_. clean n ps D out) E"
    if wf: "wellFormed n S" and S: "points S = p # ps" and a: "allApplied S" for S
  proof -
    let ?k = "(nat s, Applied)" let ?T = "filter (\<lambda>q. fst q \<noteq> ?k) S"
    have mem: "0 \<le> s" "(?k, c) \<in> set S" using points_member [of s c S] S p by auto
    have d: "distinct (map fst S)" using wf by (simp add: wellFormed_def)
    then have got: "map_of (files S) (nameOf ?k) = Some c" using mem by simp
    have "distinct (map fst (p # ps))" using points_distinct [OF d] S by simp
    then have "filter (\<lambda>q. fst q \<noteq> s) ps = ps" by (auto simp: p filter_id_conv image_iff)
    then have "points ?T = ps" using points_drop [of "nat s" S] mem S by (simp add: p)
    moreover have "wellFormed n ?T" using wf d by (rule_tac wellFormed_sub) (auto simp: distinct_map_filter)
    moreover have "allApplied ?T" using a by (simp add: allApplied_def)
    ultimately have c: "at D (files ?T) out v \<Longrightarrow> clean n ps D out v" for v unfolding clean_def by blast
    have e: "F \<Longrightarrow> at D (files S) out v \<Longrightarrow> E v" for v using assms that unfolding clean_def by blast
    have path: "uf_path (fileOf p) = nameOf ?k" by (simp add: p fileOf_def)
    show ?thesis unfolding path by (rule runs_weaken [OF runs_remove [OF got e]]) (simp_all, rule c, simp)
  qed
  then show ?thesis unfolding clean_def [of n "p # ps"] by (intro runs_ex runs_fact) auto
qed

definition old :: "int \<Rightarrow> int \<times> byte list \<Rightarrow> bool" where
  "old cutoff p \<longleftrightarrow> uh_to (hdrOf (snd p)) < cutoff"

lemma runs_pruneLoop:
  assumes "\<And>v k. F \<Longrightarrow> clean n (drop k ps) D out v \<Longrightarrow> \<forall>p \<in> set (take k ps). old cutoff p \<Longrightarrow> E v"
  shows "runs F (clean n ps D out) (pruneLoop cutoff (map fileOf ps)) (\<lambda>_. clean n (dropWhile (old cutoff) ps) D out) E"
  using assms
proof (induction ps)
  case Nil
  then show ?case by (simp add: runs_return)
next
  case (Cons p ps)
  have hdr: "uh_to (uf_hdr (fileOf p)) < cutoff \<longleftrightarrow> old cutoff p" by (cases p) (simp add: fileOf_def old_def)
  show ?case
  proof (cases "old cutoff p")
    case True
    have "runs F (clean n ps D out) (pruneLoop cutoff (map fileOf ps)) (\<lambda>_. clean n (dropWhile (old cutoff) ps) D out) E"
      by (rule Cons.IH) (rule Cons.prems [where k = "Suc _"], auto simp: True)
    moreover have "runs F (clean n (p # ps) D out) (removeUndo (uf_path (fileOf p))) (\<lambda>_. clean n ps D out) E"
      by (rule clean_remove) (rule Cons.prems [where k = 0], auto)
    ultimately show ?thesis by (simp add: hdr True runs_andThen)
  qed (simp add: hdr runs_return)
qed

lemma runs_pruneUndo:
  assumes "\<And>v k. F \<Longrightarrow> clean n (drop k ps) D out v \<Longrightarrow> \<forall>p \<in> set (take k ps). old cutoff p \<Longrightarrow> E v"
  shows "runs F (clean n ps D out) (pruneUndo cutoff) (\<lambda>_. clean n (dropWhile (old cutoff) ps) D out) E"
proof -
  have "runs F (at D (files S) out) (pruneUndo cutoff) (\<lambda>_. clean n (dropWhile (old cutoff) ps) D out) E"
    if S: "wellFormed n S" "points S = ps" "allApplied S" for S
  proof -
    have c: "at D (files S) out v \<Longrightarrow> clean n ps D out v" for v using S unfolding clean_def by blast
    have e: "F \<Longrightarrow> at D (files S) out v \<Longrightarrow> E v" for v using assms [where k = 0] c by simp
    have "runs F (at D (files S) out) appliedUndo (\<lambda>fs v. fs = map fileOf ps \<and> clean n ps D out v) E"
      by (rule runs_weaken [OF runs_appliedUndo [OF S(1) e]]) (auto simp: S(2) intro: c)
    then show ?thesis unfolding pruneUndo_def
      by (rule runs_andThen) (rule runs_fact, simp add: runs_pruneLoop [OF assms])
  qed
  then show ?thesis unfolding clean_def [of n ps] by (intro runs_ex runs_fact) auto
qed

lemma runs_nextUndoSeq:
  assumes "wellFormed n S" and E: "\<And>v. F \<Longrightarrow> at d (files S) out v \<Longrightarrow> E v"
  shows "runs F (at d (files S) out) nextUndoSeq
    (\<lambda>x v. (\<exists>m. x = int m \<and> 0 < m \<and> m \<le> Suc n \<and> (\<forall>p \<in> set S. fst (fst p) < m)) \<and> at d (files S) out v) E"
proof -
  let ?m = "foldl (\<lambda>n k. max n (Suc (fst k))) 1 (map fst S)"
  have le: "fst k \<le> n" if "k \<in> set (map fst S)" for k using assms(1) that by (auto simp: wellFormed_def slotOk_def)
  have "n < 2 ^ 63" using assms(1) by (simp only: wellFormed_def)
  then have "nextSeq (map nameOf (map fst S)) = int ?m" using le le_less_trans by (intro nextSeq_nameOf) blast
  moreover have "?m \<le> Suc n" using le by (intro foldl_max_bounds(3)) simp_all
  moreover have "0 < ?m" using foldl_max_bounds(1) [of 1 fst "map fst S"] by linarith
  moreover have "\<forall>p \<in> set S. fst (fst p) < ?m" using foldl_max_bounds(2) [of _ "map fst S" fst 1] by auto
  ultimately have "\<exists>m. nextSeq (map fst (files S)) = int m \<and> 0 < m \<and> m \<le> Suc n \<and> (\<forall>p \<in> set S. fst (fst p) < m)"
    unfolding files_simps by blast
  then show ?thesis unfolding nextUndoSeq_def
    by (intro runs_andThen [OF runs_entries [OF E]] runs_fact runs_return) (simp_all only: simp_thms)
qed

end
