(* ===== verification/Undo_Copy.thy ===== *)
theory Undo_Copy
  imports Undo_Proofs
begin

text \<open>
  Applying a copy. \<open>goodChunks\<close> says what the chunks of a copy have to be: in order, disjoint, with the new
  contents of the disk however far the disk was already changed, and with all that changes in them. Then the
  undo file takes every state on the way back to the old disk, and the disk ends with the new contents.
\<close>

section \<open>Chunks\<close>

text \<open>A disk on the way: every byte is the old or the new one.\<close>

definition near :: "byte list \<Rightarrow> (nat \<Rightarrow> byte) \<Rightarrow> byte list \<Rightarrow> bool" where
  "near D nb d \<longleftrightarrow> length D \<le> length d \<and> (\<forall>i. byteAt d i = byteAt D i \<or> byteAt d i = nb i)"

fun goodChunks :: "(byte list \<Rightarrow> chunk \<Rightarrow> string + byte list) \<Rightarrow> byte list \<Rightarrow> (nat \<Rightarrow> byte) \<Rightarrow> nat \<Rightarrow> nat \<Rightarrow> chunk list \<Rightarrow> bool" where
  "goodChunks rd D nb lo hi [] \<longleftrightarrow> (\<forall>i. lo \<le> i \<and> i < hi \<longrightarrow> nb i = byteAt D i)"
| "goodChunks rd D nb lo hi ((off, l, x) # cs) \<longleftrightarrow>
     lo \<le> off \<and> 0 < l \<and> l \<le> compareChunk \<and> off + l \<le> hi \<and> (\<forall>i. lo \<le> i \<and> i < off \<longrightarrow> nb i = byteAt D i) \<and>
     (\<forall>d. near D nb d \<longrightarrow> rd d (off, l, x) = Inr (map nb [off..<off + l])) \<and> goodChunks rd D nb (off + l) hi cs"

text \<open>The bytes below \<open>lo\<close> are new, the others old.\<close>

definition mixed :: "byte list \<Rightarrow> (nat \<Rightarrow> byte) \<Rightarrow> nat \<Rightarrow> nat \<Rightarrow> byte list" where
  "mixed D nb hi lo = map (\<lambda>i. if i < lo then nb i else byteAt D i) [0..<hi]"

lemma byteAt_mixed: "byteAt (mixed D nb hi lo) i = (if i < hi then if i < lo then nb i else byteAt D i else 0)"
  by (simp add: mixed_def byteAt_def)

lemma length_mixed [simp]: "length (mixed D nb hi lo) = hi"
  by (simp add: mixed_def)

lemma near_mixed: "length D \<le> hi \<Longrightarrow> near D nb (mixed D nb hi lo)"
  by (auto simp: near_def byteAt_mixed byteAt_end)

lemma near_same: "near D nb D"
  by (simp add: near_def)

lemma mixed_cong: "(\<And>i. lo \<le> i \<Longrightarrow> i < lo' \<Longrightarrow> nb i = byteAt D i) \<Longrightarrow> lo \<le> lo' \<Longrightarrow> mixed D nb hi lo = mixed D nb hi lo'"
  by (auto simp: mixed_def)

lemma nth_map_range: "j < l \<Longrightarrow> map nb [off..<off + l] ! j = nb (off + j)"
  by simp

lemma mixed_write: "off + l \<le> hi \<Longrightarrow> WriteAt (mixed D nb hi off) off (map nb [off..<off + l]) = mixed D nb hi (off + l)"
  by (rule file_eqI) (auto simp: file_simps byteAt_mixed)

lemma near_write: "length D \<le> hi \<Longrightarrow> near D nb (WriteAt (mixed D nb hi off) off (take k (map nb [off..<off + l])))"
  by (auto simp: near_def file_simps byteAt_mixed byteAt_end)

lemma runs_forChunks:
  assumes "goodChunks rd D nb lo hi cs" "length D \<le> hi"
    and "\<And>off l x i. (off, l, x) \<in> set cs \<Longrightarrow> off \<notin> set changed \<Longrightarrow> off \<le> i \<Longrightarrow> i < off + l \<Longrightarrow> nb i = byteAt D i"
    and E: "\<And>v d'. F \<Longrightarrow> at d' U out v \<Longrightarrow> near D nb d' \<Longrightarrow> E v"
  shows "runs F (at (mixed D nb hi lo) U out)
    (forChunks (\<lambda>v. rd (contents Disk v)) cs (\<lambda>off data. if off \<in> set changed then writeFile Disk off data else return ()))
    (\<lambda>_. at (mixed D nb hi hi) U out) E"
  using assms(1,3)
proof (induction cs arbitrary: lo)
  case Nil
  then have "lo \<le> hi \<Longrightarrow> mixed D nb hi lo = mixed D nb hi hi" by (intro mixed_cong) auto
  moreover have "hi \<le> lo \<Longrightarrow> mixed D nb hi lo = mixed D nb hi hi" by (auto simp: mixed_def)
  ultimately show ?case by (cases "lo \<le> hi") (simp_all add: runs_return)
next
  case (Cons c cs)
  obtain off l x where c: "c = (off, l, x)" by (rule prod_cases3)
  have lo: "mixed D nb hi lo = mixed D nb hi off" using Cons.prems(1) by (intro mixed_cong) (auto simp: c)
  let ?data = "map nb [off..<off + l]"
  let ?step = "if off \<in> set changed then writeFile Disk off ?data else return ()"
  let ?rest = "forChunks (\<lambda>v. rd (contents Disk v)) cs (\<lambda>off data. if off \<in> set changed then writeFile Disk off data else return ())"
  have step: "runs F (at (mixed D nb hi off) U out) ?step (\<lambda>_. at (mixed D nb hi (off + l)) U out) E"
  proof (cases "off \<in> set changed")
    case True
    then show ?thesis
      using Cons.prems(1) runs_writeFile [of F "mixed D nb hi off" off ?data U out E] near_write [OF assms(2)] E mixed_write
      by (auto simp: c)
  next
    case False
    then have "mixed D nb hi off = mixed D nb hi (off + l)" using Cons.prems(2) [of off l x] by (intro mixed_cong) (auto simp: c)
    then show ?thesis using False by (simp add: runs_return)
  qed
  have rest: "runs F (at (mixed D nb hi (off + l)) U out) ?rest (\<lambda>_. at (mixed D nb hi hi) U out) E"
    using Cons.prems by (intro Cons.IH) (auto simp: c)
  have rd: "rd (mixed D nb hi off) (off, l, x) = Inr ?data"
    using Cons.prems(1) near_mixed [OF assms(2)] by (simp add: c)
  show ?case
    unfolding lo by (rule runs_eq [OF runs_andThen [OF step rest]]) (simp add: rd c)
qed


section \<open>The undo file of a copy\<close>

text \<open>A record holds the old contents of its place, inside the old disk.\<close>

definition savedRecord :: "byte list \<Rightarrow> nat \<times> byte list \<Rightarrow> bool" where
  "savedRecord D = (\<lambda>(off, data). data \<noteq> [] \<and> length data \<le> compareChunk \<and> off + length data \<le> length D
     \<and> (\<forall>i < length data. data ! i = byteAt D (off + i)))"

lemma savedRecord_ReadAt:
  "off < length D \<Longrightarrow> 0 < l \<Longrightarrow> l \<le> compareChunk \<Longrightarrow> savedRecord D (off, ReadAt D off (min l (length D - off)))"
  by (auto simp: savedRecord_def length_ReadAt nth_ReadAt simp flip: length_greater_0_conv)

lemma ReadAt_eq_new:
  assumes "ReadAt D off l = map nb [off..<off + l]" "off \<le> i" "i < off + l"
  shows "nb i = byteAt D i"
proof -
  have "i - off < length (ReadAt D off l)" using assms by simp
  then have "byteAt D i = ReadAt D off l ! (i - off)" using assms(2) by (simp add: nth_ReadAt)
  then show ?thesis using assms by simp
qed

lemma goodChunks_offsets: "goodChunks rd D nb lo hi cs \<Longrightarrow> (off, l, x) \<in> set cs \<Longrightarrow> lo \<le> off \<and> 0 < l \<and> off + l \<le> hi"
  by (induction cs arbitrary: lo) fastforce+

text \<open>The records and offsets cover all that changes; a chunk that is not noted down has its old contents.\<close>

lemma undoRecords_good:
  assumes "goodChunks (readChunk src) D nb lo hi cs"
  shows "\<exists>recs. undoRecords src D cs = Inr recs \<and> (\<forall>r \<in> set recs. savedRecord D r \<and> lo \<le> fst r) \<and> length recs \<le> length D - lo
    \<and> (\<forall>(off, l, x) \<in> set cs. if off \<in> fst ` set recs then \<exists>data. (off, data) \<in> set recs \<and> length data = min l (length D - off)
         else length D \<le> off \<or> (\<forall>i. off \<le> i \<and> i < off + l \<longrightarrow> nb i = byteAt D i))"
  using assms
proof (induction cs arbitrary: lo)
  case Nil
  then show ?case by simp
next
  case (Cons c cs)
  obtain off l x where c: "c = (off, l, x)" by (rule prod_cases3)
  have pre: "lo \<le> off" "0 < l" "l \<le> compareChunk" and good: "goodChunks (readChunk src) D nb (off + l) hi cs"
    and rd: "readChunk src D c = Inr (map nb [off..<off + l])"
    using Cons.prems near_same by (auto simp: c)
  obtain recs where recs: "undoRecords src D cs = Inr recs" "\<forall>r \<in> set recs. savedRecord D r \<and> off + l \<le> fst r"
    "length recs \<le> length D - (off + l)"
    and cov: "\<forall>(off, l, x) \<in> set cs. if off \<in> fst ` set recs then \<exists>data. (off, data) \<in> set recs \<and> length data = min l (length D - off)
         else length D \<le> off \<or> (\<forall>i. off \<le> i \<and> i < off + l \<longrightarrow> nb i = byteAt D i)"
    using Cons.IH [OF good] by blast
  have off: "off \<notin> fst ` set recs" using recs(2) pre(2) by fastforce
  let ?n = "min l (length D - off)" and ?data = "map nb [off..<off + l]"
  let ?skip = "off \<ge> length D \<or> ReadAt D off ?n = take ?n ?data \<and> length ?data = ?n"
  show ?case
  proof (cases ?skip)
    case True
    then have "length D \<le> off \<or> (\<forall>i. off \<le> i \<and> i < off + l \<longrightarrow> nb i = byteAt D i)"
      using ReadAt_eq_new [of D off l nb] by (auto simp: min_def split: if_splits)
    moreover have "undoRecords src D (c # cs) = Inr recs" using True recs(1) rd by (simp add: c Let_def)
    ultimately show ?thesis using recs cov off pre by (intro exI [of _ recs]) (auto simp: c)
  next
    case False
    let ?r = "(off, ReadAt D off ?n)"
    have "undoRecords src D (c # cs) = Inr (?r # recs)" using False recs(1) rd by (simp add: c Let_def)
    moreover have "savedRecord D ?r" using False pre by (intro savedRecord_ReadAt) auto
    moreover have "length (ReadAt D off ?n) = ?n" by (simp add: length_ReadAt)
    moreover have "\<forall>(off', l, x) \<in> set cs. if off' \<in> fst ` set (?r # recs) then \<exists>data. (off', data) \<in> set (?r # recs) \<and> length data = min l (length D - off')
         else length D \<le> off' \<or> (\<forall>i. off' \<le> i \<and> i < off' + l \<longrightarrow> nb i = byteAt D i)"
      using cov goodChunks_offsets [OF good] pre(2) by (fastforce split: if_splits)
    ultimately show ?thesis using recs pre False by (intro exI [of _ "?r # recs"]) (auto simp: c)
  qed
qed


lemma pastEnd_good:
  assumes "goodChunks (readChunk src) D nb lo hi cs"
  shows "\<exists>past. pastEnd src D cs = Inr past \<and> (\<forall>off \<in> set past. length D \<le> off)
    \<and> (\<forall>(off, l, x) \<in> set cs. length D \<le> off \<and> off \<notin> set past \<longrightarrow> (\<forall>i. off \<le> i \<and> i < off + l \<longrightarrow> nb i = 0))"
  using assms
proof (induction cs arbitrary: lo)
  case Nil
  then show ?case by simp
next
  case (Cons c cs)
  obtain off l x where c: "c = (off, l, x)" by (rule prod_cases3)
  have good: "goodChunks (readChunk src) D nb (off + l) hi cs" and rd: "readChunk src D c = Inr (map nb [off..<off + l])"
    using Cons.prems near_same by (auto simp: c)
  obtain past where past: "pastEnd src D cs = Inr past" "\<forall>off \<in> set past. length D \<le> off"
    "\<forall>(off, l, x) \<in> set cs. length D \<le> off \<and> off \<notin> set past \<longrightarrow> (\<forall>i. off \<le> i \<and> i < off + l \<longrightarrow> nb i = 0)"
    using Cons.IH [OF good] by blast
  have "allZero (map nb [off..<off + l]) \<longleftrightarrow> (\<forall>i. off \<le> i \<and> i < off + l \<longrightarrow> nb i = 0)"
    by (auto simp: allZero_def list_all_iff)
  then show ?case using past rd by (auto simp: c)
qed

lemma goodChunks_gap:
  "goodChunks rd D nb lo hi cs \<Longrightarrow> lo \<le> i \<Longrightarrow> i < hi \<Longrightarrow> nb i = byteAt D i \<or> (\<exists>(off, l, x) \<in> set cs. off \<le> i \<and> i < off + l)"
proof (induction cs arbitrary: lo)
  case (Cons c cs)
  obtain off l x where c: "c = (off, l, x)" by (rule prod_cases3)
  then show ?case using Cons.IH [of "off + l"] Cons.prems by (cases "i < off"; cases "i < off + l") auto
qed simp

definition recordCovers :: "(nat \<times> byte list) list \<Rightarrow> nat \<Rightarrow> bool" where
  "recordCovers recs i \<longleftrightarrow> (\<exists>(off, data) \<in> set recs. off \<le> i \<and> i < off + length data)"

lemma covered_positions: "covered (positions pos recs) i \<longleftrightarrow> recordCovers recs i"
  by (induction pos recs rule: positions.induct) (auto simp: recordCovers_def)

lemma copy_plan:
  assumes good: "goodChunks (readChunk src) D nb 0 hi cs" and le: "length D \<le> hi"
  obtains recs past where "undoRecords src D cs = Inr recs" "(if hi > length D then pastEnd src D cs else Inr []) = Inr past"
    "\<forall>r \<in> set recs. savedRecord D r" "length recs \<le> length D"
    "\<And>off l x i. (off, l, x) \<in> set cs \<Longrightarrow> off \<notin> set (map fst recs @ past) \<Longrightarrow> off \<le> i \<Longrightarrow> i < off + l \<Longrightarrow> nb i = byteAt D i"
    "\<And>i. i < length D \<Longrightarrow> \<not> recordCovers recs i \<Longrightarrow> nb i = byteAt D i"
proof -
  obtain recs where recs: "undoRecords src D cs = Inr recs" "\<forall>r \<in> set recs. savedRecord D r" "length recs \<le> length D"
    and cov: "\<forall>(off, l, x) \<in> set cs. if off \<in> fst ` set recs then \<exists>data. (off, data) \<in> set recs \<and> length data = min l (length D - off)
         else length D \<le> off \<or> (\<forall>i. off \<le> i \<and> i < off + l \<longrightarrow> nb i = byteAt D i)"
    using undoRecords_good [OF good] by auto
  obtain past where past: "(if hi > length D then pastEnd src D cs else Inr []) = Inr past"
    and zero: "\<And>off l x i. (off, l, x) \<in> set cs \<Longrightarrow> length D \<le> off \<Longrightarrow> off \<notin> set past \<Longrightarrow> off \<le> i \<Longrightarrow> i < off + l \<Longrightarrow> nb i = 0"
  proof (cases "hi > length D")
    case True
    then show ?thesis using pastEnd_good [OF good] that by fastforce
  next
    case False
    then show ?thesis using goodChunks_offsets [OF good] that [of "[]"] by fastforce
  qed
  have unchanged: "nb i = byteAt D i"
    if "(off, l, x) \<in> set cs" "off \<notin> set (map fst recs @ past)" "off \<le> i" "i < off + l" for off l x i
  proof (cases "length D \<le> off")
    case True
    then show ?thesis using zero [of off l x i] that by (simp add: byteAt_end)
  next
    case False
    then show ?thesis using cov that by fastforce
  qed
  moreover have "nb i = byteAt D i" if i: "i < length D" "\<not> recordCovers recs i" for i
  proof (rule ccontr)
    assume ne: "nb i \<noteq> byteAt D i"
    then obtain off l x where c: "(off, l, x) \<in> set cs" "off \<le> i" "i < off + l" using goodChunks_gap [OF good, of i] i le by auto
    have "\<not> length D \<le> off" using c(2) i(1) by simp
    then obtain data where "(off, data) \<in> set recs" "length data = min l (length D - off)"
      using bspec [OF cov c(1)] ne c(2,3) by (auto split: if_splits)
    then show False using i c by (auto simp: recordCovers_def)
  qed
  ultimately show ?thesis using recs past by (rule_tac that) auto
qed


section \<open>Applying a copy\<close>

text \<open>A copy that can be applied: it does not shrink the disk, and sizes and times fit the undo file.\<close>

definition copyable :: "CopySource \<Rightarrow> ApplyOptions \<Rightarrow> byte list \<Rightarrow> (nat \<Rightarrow> byte) \<Rightarrow> bool" where
  "copyable src opts D nb \<longleftrightarrow>
     snd (cs_Walk src) = None \<and> goodChunks (readChunk src) D nb 0 (cs_Size src) (chunksVisited src (ao_Full opts)) \<and>
     length D \<le> cs_Size src \<and> int (cs_Size src) \<le> maxDiskBytes \<and> int64_range (ao_From opts) \<and> int64_range (ao_To opts)"

definition newHeader :: "CopySource \<Rightarrow> ApplyOptions \<Rightarrow> byte list \<Rightarrow> undoHeader" where
  "newHeader src opts D = \<lparr>uh_from = ao_From opts, uh_to = ao_To opts, uh_oldSize = int (length D), uh_newSize = int (cs_Size src)\<rparr>"

text \<open>An undo file from which every disk on the way goes back to the old one.\<close>

definition saves :: "CopySource \<Rightarrow> ApplyOptions \<Rightarrow> byte list \<Rightarrow> (nat \<Rightarrow> byte) \<Rightarrow> byte list \<Rightarrow> bool" where
  "saves src opts D nb c \<longleftrightarrow>
     (\<exists>recs. readUndoFrom c = (recs, Inr (newHeader src opts D))) \<and> (\<forall>d. near D nb d \<longrightarrow> rollBack c d = D)"

definition noted :: "CopySource \<Rightarrow> ApplyOptions \<Rightarrow> byte list \<Rightarrow> (nat \<Rightarrow> byte) \<Rightarrow> nat list \<Rightarrow> bool" where
  "noted src opts D nb changed \<longleftrightarrow>
     (\<forall>(off, l, x) \<in> set (chunksVisited src (ao_Full opts)). off \<notin> set changed \<longrightarrow> (\<forall>i. off \<le> i \<and> i < off + l \<longrightarrow> nb i = byteAt D i))"

lemma encoded_saves:
  assumes "copyable src opts D nb" "\<forall>r \<in> set recs. savedRecord D r" "length recs \<le> length D"
    "\<And>i. i < length D \<Longrightarrow> \<not> recordCovers recs i \<Longrightarrow> nb i = byteAt D i"
  shows "saves src opts D nb (encodeUndo (newHeader src opts D) recs)"
proof -
  let ?h = "newHeader src opts D" let ?recs = "positions 40 recs"
  have "headerOk ?h" using assms(1) by (simp add: headerOk_def newHeader_def copyable_def)
  moreover have "list_all (recordOk (uh_oldSize ?h)) recs"
    using assms(2) by (force simp: list_all_iff recordOk_def savedRecord_def newHeader_def)
  moreover have "length recs < 2 ^ 64" using assms(1,3) by (simp add: copyable_def maxDiskBytes_def)
  ultimately have r: "readUndoFrom (encodeUndo ?h recs) = (?recs, Inr ?h)" by (rule readUndoFrom_encode)
  have in_recs: "(off, data) \<in> set recs" if "(off, data, p) \<in> set ?recs" for off data p
  proof -
    have "(off, data) \<in> set (map (\<lambda>(off, data, p). (off, data)) ?recs)"
      using imageI [OF that, of "\<lambda>(off, data, p). (off, data)"] by (simp del: map_positions)
    then show ?thesis by (simp only: map_positions)
  qed
  have "rollBack (encodeUndo ?h recs) d = D" if "near D nb d" for d
    unfolding rollBack_parsed [OF r]
  proof (rule undone_restores)
    show "data ! i = byteAt D (off + i)" if "(off, data, p) \<in> set ?recs" "i < length data" for off data p i
      using in_recs [OF that(1)] assms(2) that(2) by (force simp: savedRecord_def)
    show "byteAt d i = byteAt D i" if "i < length D" "\<not> covered ?recs i" for i
      using assms(4) [of i] that \<open>near D nb d\<close> by (auto simp: near_def covered_positions)
  qed (simp add: newHeader_def)
  then show ?thesis using r by (simp add: saves_def)
qed

lemma nameOf_stages: "pad10 (int m) @ undoPart = nameOf (m, Part)" "pad10 (int m) @ undoReady = nameOf (m, Ready)"
  "pad10 (int m) @ undoApplied = nameOf (m, Applied)"
  by (simp_all add: nameOf_def)

lemma fresh_files:
  assumes "\<forall>p \<in> set S. fst (fst p) < m"
  shows "map_of (files S) (nameOf (m, st)) = None" "nameOf (m, st) \<notin> fst ` set (files S)"
    "filter (\<lambda>p. fst p \<noteq> (m, st) \<and> fst p \<noteq> (m, st')) S = S"
proof -
  show none: "map_of (files S) (nameOf (m, st)) = None" using assms by (force simp: map_of_eq_None_iff)
  then show "nameOf (m, st) \<notin> fst ` set (files S)" by (simp only: map_of_eq_None_iff not_False_eq_True)
  show "filter (\<lambda>p. fst p \<noteq> (m, st) \<and> fst p \<noteq> (m, st')) S = S" using assms by (force simp: filter_id_conv)
qed

lemma runs_writeUndo:
  assumes src: "copyable src opts D nb" and fresh: "\<forall>p \<in> set S. fst (fst p) < m"
    and E0: "\<And>v. F \<Longrightarrow> at D (files S) out v \<Longrightarrow> E v" and E1: "\<And>v x. F \<Longrightarrow> at D (files (((m, Part), x) # S)) out v \<Longrightarrow> E v"
  shows "runs F (at D (files S) out) (writeUndo (nameOf (m, Part)) src (length D) opts)
    (\<lambda>changed v. \<exists>c. (saves src opts D nb c \<and> noted src opts D nb changed) \<and> at D (files (((m, Part), c) # S)) out v) E"
proof -
  let ?name = "nameOf (m, Part)" let ?h = "newHeader src opts D"
  let ?cs = "chunksVisited src (ao_Full opts)"
  have good: "goodChunks (readChunk src) D nb 0 (cs_Size src) ?cs" "length D \<le> cs_Size src" using src by (simp_all add: copyable_def)
  obtain recs past where plan: "undoRecords src D ?cs = Inr recs" "(if cs_Size src > length D then pastEnd src D ?cs else Inr []) = Inr past"
    and r: "\<forall>r \<in> set recs. savedRecord D r" "length recs \<le> length D"
    and same: "\<And>off l x i. (off, l, x) \<in> set ?cs \<Longrightarrow> off \<notin> set (map fst recs @ past) \<Longrightarrow> off \<le> i \<Longrightarrow> i < off + l \<Longrightarrow> nb i = byteAt D i"
    and gap: "\<And>i. i < length D \<Longrightarrow> \<not> recordCovers recs i \<Longrightarrow> nb i = byteAt D i"
    by (rule copy_plan [OF good]) (rule that)
  have saves: "saves src opts D nb (encodeUndo ?h recs)" by (rule encoded_saves [OF src r gap])
  have noted: "noted src opts D nb (map fst recs @ past)" unfolding noted_def using same by blast
  have create: "runs F (at D (files S) out) (createUndo ?name) (\<lambda>_. at D ((?name, []) # files S) out) E"
    by (rule runs_create [OF fresh_files(1) [OF fresh] E0])
  have e1: "F \<Longrightarrow> at D ((?name, x) # files S) out v \<Longrightarrow> E v" for v x using E1 [of x v] by simp
  have get: "runs F (at D ((?name, []) # files S) out) (sysCall (\<lambda>v. (Inr (contents Disk v), v)))
      (\<lambda>d v. d = D \<and> at D ((?name, []) # files S) out v) E"
    by (rule runs_sysCall) (simp_all add: e1)
  have app: "runs F (at D ((?name, []) # files S) out) (appendUndo ?name (encodeUndo ?h recs))
      (\<lambda>_. at D ((?name, encodeUndo ?h recs) # files S) out) E"
    by (rule runs_append [OF fresh_files(2) [OF fresh] e1])
  have sync: "runs F (at D ((?name, encodeUndo ?h recs) # files S) out) syncFile (\<lambda>_. at D ((?name, encodeUndo ?h recs) # files S) out) E"
    by (intro runs_syncFile stable_at e1)
  have ret: "runs F (at D ((?name, encodeUndo ?h recs) # files S) out) (return (map fst recs @ past))
    (\<lambda>changed v. \<exists>c. (saves src opts D nb c \<and> noted src opts D nb changed) \<and> at D (files (((m, Part), c) # S)) out v) E"
    using saves noted by (intro runs_return) auto
  show ?thesis unfolding writeUndo_def
    by (rule runs_andThen [OF create], rule runs_andThen [OF get], rule runs_fact)
      (use src plan runs_andThen [OF app runs_andThen [OF sync ret]] in \<open>simp add: copyable_def newHeader_def Let_def\<close>)
qed


text \<open>The undo folder of a clean volume with the file of the copy on top, from part to applied.\<close>

lemma wellFormed_add:
  assumes "wellFormed n S" "\<forall>p \<in> set S. fst (fst p) < m" "0 < m" "m \<le> Suc n" "Suc n < 2 ^ 63"
    "st = Part \<or> (\<exists>recs h. readUndoFrom c = (recs, Inr h))"
  shows "wellFormed (Suc n) (((m, st), c) # S)"
proof -
  have "(m, st) \<notin> fst ` set S" using assms(2) by fastforce
  then have "distinct (map fst (((m, st), c) # S))" using assms(1) by (simp add: wellFormed_def)
  moreover have "\<forall>p \<in> set S. slotOk (Suc n) p" using assms(1) by (fastforce simp: wellFormed_def slotOk_def)
  moreover have "slotOk (Suc n) ((m, st), c)" using assms by (auto simp: slotOk_def)
  ultimately show ?thesis using assms(5) by (simp only: wellFormed_def set_simps ball_simps simp_thms)
qed

lemma wellFormed_Suc: "wellFormed n S \<Longrightarrow> Suc n < 2 ^ 63 \<Longrightarrow> wellFormed (Suc n) S"
  by (fastforce simp: wellFormed_def slotOk_def)

lemma copy_meaning:
  assumes S: "wellFormed n S" "allApplied S" "points S = ps" and m: "\<forall>p \<in> set S. fst (fst p) < m" "0 < m" "m \<le> Suc n" "Suc n < 2 ^ 63"
  shows "at D (files S) out v \<Longrightarrow> meaning (Suc n) ps D out v"
    and "at D (files (((m, Part), x) # S)) out v \<Longrightarrow> meaning (Suc n) ps D out v"
    and "saves src opts D nb c \<Longrightarrow> near D nb d \<Longrightarrow> at d (files (((m, Ready), c) # S)) out v \<Longrightarrow> meaning (Suc n) ps D out v"
    and "saves src opts D nb c \<Longrightarrow> at D' (files (((m, Applied), c) # S)) out v \<Longrightarrow> clean (Suc n) (ps @ [(int m, c)]) D' out v"
proof -
  note wf = wellFormed_add [OF S(1) m] note id = recovered_allApplied [OF S(2)]
  show "at D (files S) out v \<Longrightarrow> meaning (Suc n) ps D out v"
    by (rule meaningI [OF wellFormed_Suc [OF S(1) m(4)] S(3) id])
  show "at D (files (((m, Part), x) # S)) out v \<Longrightarrow> meaning (Suc n) ps D out v"
    using S(3) by (intro meaningI [OF wf]) (auto simp: points_remove(2) id)
  show "meaning (Suc n) ps D out v" if "saves src opts D nb c" "near D nb d" "at d (files (((m, Ready), c) # S)) out v"
    using S(3) that by (intro meaningI [OF wf _ _ that(3)]) (auto simp: points_remove(2) id saves_def)
  show "clean (Suc n) (ps @ [(int m, c)]) D' out v" if "saves src opts D nb c" "at D' (files (((m, Applied), c) # S)) out v"
    unfolding clean_def using that(2) S(2,3) points_new [OF m(1), of c] that(1)
    by (intro exI [of _ "((m, Applied), c) # S"] conjI wf) (auto simp: saves_def allApplied_def)
qed

lemma runs_removePart: "runs F (meaning n ps D out) (removeUndo (nameOf (m, Part))) (\<lambda>_. meaning n ps D out) (meaning n ps D out)"
  unfolding removeUndo_def
proof (rule runs_sysCall, simp)
  fix v assume "meaning n ps D out v"
  then obtain d S where v: "wellFormed n S" "points S = ps" "recovered S d = D" "at d (files S) out v" by (auto simp: meaning_def)
  let ?T = "filter (\<lambda>p. fst p \<noteq> (m, Part)) S"
  have U: "folder v = files S" using v(4) by (simp add: at_def)
  have "wellFormed n ?T" using v(1) by (rule wellFormed_sub) (use v(1) in \<open>auto simp: wellFormed_def distinct_map_filter\<close>)
  moreover have "recovered ?T d = D" using v(3) recovered_filter [of S "\<lambda>p. fst p \<noteq> (m, Part)"] by auto
  moreover have "at d (files ?T) out (setFolder (files ?T) v)" using v(4) by (simp add: at_def)
  ultimately have "meaning n ps D out (setFolder (files ?T) v)" using v(2) by (intro meaningI) (auto simp: points_remove(1))
  then show "case if map_of (folder v) (nameOf (m, Part)) = None then (Inl ''no such file'', v)
        else (Inr (), setFolder (filter (\<lambda>p. fst p \<noteq> nameOf (m, Part)) (folder v)) v) of
      (Inr x, v') \<Rightarrow> meaning n ps D out v' \<and> vo_faults v' = vo_faults v | (Inl e, v') \<Rightarrow> meaning n ps D out v'"
    using \<open>meaning n ps D out v\<close> by (simp add: U)
qed

lemma rename_slot:
  assumes "\<forall>p \<in> set S. fst (fst p) < m" "st \<noteq> st'" "\<And>v. F \<Longrightarrow> at d (files (((m, st), c) # S)) out v \<Longrightarrow> E v"
  shows "runs F (at d (files (((m, st), c) # S)) out) (renameUndo (nameOf (m, st)) (nameOf (m, st')))
    (\<lambda>_. at d (files (((m, st'), c) # S)) out) E"
proof -
  have "map_of (files (((m, st), c) # S)) (nameOf (m, st)) = Some c" by simp
  moreover have "filter (\<lambda>p. fst p \<noteq> nameOf (m, st) \<and> fst p \<noteq> nameOf (m, st')) (files (((m, st), c) # S)) = files S"
    by (simp add: fresh_files(3) [OF assms(1)])
  ultimately show ?thesis using runs_rename [of "files (((m, st), c) # S)" "nameOf (m, st)" c F d out E "nameOf (m, st')"] assms(3) by simp
qed


definition newDisk :: "CopySource \<Rightarrow> (nat \<Rightarrow> byte) \<Rightarrow> byte list" where
  "newDisk src nb = map nb [0..<cs_Size src]"

definition kept :: "ApplyOptions \<Rightarrow> (int \<times> byte list) list \<Rightarrow> (int \<times> byte list) list" where
  "kept opts qs = (if ao_Keep opts > 0 then dropWhile (old (ao_Now opts - ao_Keep opts)) qs else qs)"

lemma newDisk_mixed: "newDisk src nb = mixed D nb (cs_Size src) (cs_Size src)"
  by (simp add: newDisk_def mixed_def)

lemma mixed_start: "length D \<le> hi \<Longrightarrow> Truncate hi D = mixed D nb hi 0" "length D = hi \<Longrightarrow> D = mixed D nb hi 0"
  by (rule file_eqI; auto simp: file_simps byteAt_mixed byteAt_end)+

lemma runs_overwrite:
  assumes src: "copyable src opts D nb" and S: "wellFormed n S" "allApplied S" "points S = ps"
    and m: "\<forall>p \<in> set S. fst (fst p) < m" "0 < m" "m \<le> Suc n" "Suc n < 2 ^ 63"
    and c: "saves src opts D nb c" "noted src opts D nb changed"
    and E1: "\<And>v. F \<Longrightarrow> meaning (Suc n) ps D out v \<Longrightarrow> E v"
    and E2: "\<And>v. F \<Longrightarrow> clean (Suc n) (ps @ [(int m, c)]) (newDisk src nb) out v \<Longrightarrow> E v"
  shows "runs F (at D (files (((m, Part), c) # S)) out)
    (andThen (renameUndo (nameOf (m, Part)) (nameOf (m, Ready))) (\<lambda>_.
     andThen syncFile (\<lambda>_.
     andThen (if cs_Size src > length D then truncateFile Disk (cs_Size src) else return ()) (\<lambda>_.
     andThen (forEachNewChunk src (ao_Full opts)
       (\<lambda>off data. if off \<in> set changed then writeFile Disk off data else return ())) (\<lambda>_.
     andThen (if cs_Size src < length D then truncateFile Disk (cs_Size src) else return ()) (\<lambda>_.
     andThen syncFile (\<lambda>_.
     andThen (renameUndo (nameOf (m, Ready)) (nameOf (m, Applied))) (\<lambda>_. syncFile))))))))
    (\<lambda>_. clean (Suc n) (ps @ [(int m, c)]) (newDisk src nb) out) E"
proof -
  let ?hi = "cs_Size src" let ?ready = "\<lambda>d. at d (files (((m, Ready), c) # S)) out"
  have le: "length D \<le> ?hi" using src by (simp add: copyable_def)
  note mean = copy_meaning [OF S m, where out = out and D = D]
  have on_way: "F \<Longrightarrow> ?ready d v \<Longrightarrow> near D nb d \<Longrightarrow> E v" for d v using mean(3) [OF c(1)] E1 by blast
  have start: "runs F (at D (files (((m, Part), c) # S)) out) (renameUndo (nameOf (m, Part)) (nameOf (m, Ready))) (\<lambda>_. ?ready D) E"
    using E1 mean(2) by (intro rename_slot [OF m(1)]) auto
  have grow: "runs F (?ready D) (if ?hi > length D then truncateFile Disk ?hi else return ()) (\<lambda>_. ?ready (mixed D nb ?hi 0)) E"
  proof (cases "?hi > length D")
    case True
    then show ?thesis using runs_truncate [of F D "files (((m, Ready), c) # S)" out E ?hi] on_way [OF _ _ near_same] mixed_start(1) [OF le, of nb] by simp
  next
    case False
    then show ?thesis using le mixed_start(2) [of D ?hi nb] by (simp add: runs_return)
  qed
  have loop: "runs F (?ready (mixed D nb ?hi 0)) (forEachNewChunk src (ao_Full opts)
       (\<lambda>off data. if off \<in> set changed then writeFile Disk off data else return ())) (\<lambda>_. ?ready (newDisk src nb)) E"
    unfolding forEachNewChunk_def newDisk_mixed [of src nb D]
  proof (rule runs_andThen [OF runs_forChunks])
    show "goodChunks (readChunk src) D nb 0 ?hi (chunksVisited src (ao_Full opts))" using src by (simp add: copyable_def)
  qed (use src c(2) le on_way in \<open>auto simp: copyable_def noted_def intro!: runs_return\<close>)
  have no_shrink: "(if ?hi < length D then truncateFile Disk ?hi else return ()) = return ()" using le by simp
  have new: "near D nb (newDisk src nb)" unfolding newDisk_mixed [of src nb D] by (rule near_mixed [OF le])
  have sync: "runs F (?ready d) syncFile (\<lambda>_. ?ready d) E" if "near D nb d" for d
    using that by (intro runs_syncFile stable_at) (rule on_way)
  have finish: "runs F (?ready (newDisk src nb)) (renameUndo (nameOf (m, Ready)) (nameOf (m, Applied)))
      (\<lambda>_. clean (Suc n) (ps @ [(int m, c)]) (newDisk src nb) out) E"
    using on_way new by (intro runs_weaken [OF rename_slot [OF m(1)]]) (auto intro!: mean(4) [OF c(1)])
  have last: "runs F (clean (Suc n) (ps @ [(int m, c)]) (newDisk src nb) out) syncFile (\<lambda>_. clean (Suc n) (ps @ [(int m, c)]) (newDisk src nb) out) E"
    by (intro runs_syncFile stable_states E2)
  show ?thesis unfolding no_shrink
    by (rule runs_andThen [OF start runs_andThen [OF sync [OF near_same] runs_andThen [OF grow runs_andThen [OF loop
        runs_andThen [OF runs_return runs_andThen [OF sync [OF new] runs_andThen [OF finish last]]]]]]]) simp
qed


lemma andThen_assoc: "andThen (andThen m k) l = andThen m (\<lambda>x. andThen (k x) l)"
  by (rule ext) (simp add: andThen_def split: prod.splits sum.splits)

lemma runs_changeDisk:
  assumes src: "copyable src opts D nb" and S: "wellFormed n S" "allApplied S" "points S = ps"
    and m: "\<forall>p \<in> set S. fst (fst p) < m" "0 < m" "m \<le> Suc n" "Suc n < 2 ^ 63"
    and E1: "\<And>v. F \<Longrightarrow> meaning (Suc n) ps D out v \<Longrightarrow> E v"
    and E2: "\<And>v p. F \<Longrightarrow> saves src opts D nb (snd p) \<Longrightarrow> clean (Suc n) (ps @ [p]) (newDisk src nb) out v \<Longrightarrow> E v"
  shows "runs F (at D (files S) out) (changeDisk src opts (length D) (pad10 (int m)))
    (\<lambda>_ v. \<exists>p. saves src opts D nb (snd p) \<and> clean (Suc n) (ps @ [p]) (newDisk src nb) out v) E"
proof -
  let ?Q = "\<lambda>_ v. \<exists>p. saves src opts D nb (snd p) \<and> clean (Suc n) (ps @ [p]) (newDisk src nb) out v"
  note mean = copy_meaning [OF S m, where out = out and D = D]
  have undo: "runs F (at D (files S) out) (orElse (writeUndo (nameOf (m, Part)) src (length D) opts) (removeUndo (nameOf (m, Part))))
    (\<lambda>changed v. \<exists>c. (saves src opts D nb c \<and> noted src opts D nb changed) \<and> at D (files (((m, Part), c) # S)) out v) E"
  proof (rule runs_orElse [where E = "\<lambda>v. F \<and> meaning (Suc n) ps D out v"])
    show "runs F (at D (files S) out) (writeUndo (nameOf (m, Part)) src (length D) opts)
      (\<lambda>changed v. \<exists>c. (saves src opts D nb c \<and> noted src opts D nb changed) \<and> at D (files (((m, Part), c) # S)) out v)
      (\<lambda>v. F \<and> meaning (Suc n) ps D out v)"
      by (rule runs_writeUndo [OF src m(1)]) (use mean(1,2) in auto)
    show "runs True (\<lambda>v. F \<and> meaning (Suc n) ps D out v) (removeUndo (nameOf (m, Part))) (\<lambda>_. E) E"
      using E1 by (intro runs_fact runs_weaken [OF runs_removePart]) auto
  qed
  have ret: "runs F (clean (Suc n) (ps @ [(int m, c)]) (newDisk src nb) out) (return changed) ?Q E"
    if "saves src opts D nb c" for c and changed :: "nat list"
    using that by (intro runs_return exI [of _ "(int m, c)"]) simp
  note change = runs_andThen [OF runs_overwrite [OF src S m] ret, unfolded andThen_assoc]
  show ?thesis unfolding changeDisk_def Let_def nameOf_stages
    by (rule runs_andThen [OF undo], rule runs_ex, rule runs_fact) (rule change, use E1 E2 in auto)
qed

lemma runs_ApplyCopy:
  assumes src: "copyable src opts D nb" and n: "Suc n < 2 ^ 63"
    and E1: "\<And>v. F \<Longrightarrow> meaning (Suc n) ps D out v \<Longrightarrow> E v"
    and E2: "\<And>v p k. F \<Longrightarrow> saves src opts D nb (snd p) \<Longrightarrow> clean (Suc n) (drop k (ps @ [p])) (newDisk src nb) out v \<Longrightarrow>
      (0 < k \<Longrightarrow> 0 < ao_Keep opts) \<Longrightarrow> \<forall>q \<in> set (take k (ps @ [p])). old (ao_Now opts - ao_Keep opts) q \<Longrightarrow> E v"
  shows "runs F (meaning n ps D out) (ApplyCopy src opts)
    (\<lambda>_ v. \<exists>p. saves src opts D nb (snd p) \<and> clean (Suc n) (kept opts (ps @ [p])) (newDisk src nb) out v) E"
proof -
  let ?Q = "\<lambda>_ v. \<exists>p. saves src opts D nb (snd p) \<and> clean (Suc n) (kept opts (ps @ [p])) (newDisk src nb) out v"
  have mono: "meaning n ps D out v \<Longrightarrow> meaning (Suc n) ps D out v" for v
    using wellFormed_Suc [OF _ n] unfolding meaning_def by blast
  have "runs F (clean (Suc n) (ps @ [p]) (newDisk src nb) out) (if ao_Keep opts > 0 then pruneUndo (ao_Now opts - ao_Keep opts) else return ())
      (\<lambda>_. clean (Suc n) (kept opts (ps @ [p])) (newDisk src nb) out) E" if "saves src opts D nb (snd p)" for p
    using that by (auto simp: kept_def runs_return intro!: runs_pruneUndo E2)
  then have prune: "runs F (\<lambda>v. \<exists>p. saves src opts D nb (snd p) \<and> clean (Suc n) (ps @ [p]) (newDisk src nb) out v)
      (andThen (if ao_Keep opts > 0 then pruneUndo (ao_Now opts - ao_Keep opts) else return ()) (\<lambda>_. return r)) ?Q E" for r :: ApplyResult
    by (intro runs_ex runs_fact runs_andThen) (assumption, rule runs_return, blast)
  have over: "runs F (at D (files S) out) (applyOver src opts (length D) rolled) ?Q E"
    if S: "wellFormed n S" "points S = ps" "allApplied S" for S rolled
  proof -
    have e: "F \<Longrightarrow> at D (files S) out v \<Longrightarrow> E v" for v
      by (rule E1, assumption, rule mono, rule meaningI [OF S(1,2) recovered_allApplied [OF S(3)]])
    have change: "runs F (at D (files S) out) (changeDisk src opts (length D) (pad10 seq))
        (\<lambda>_ v. \<exists>p. saves src opts D nb (snd p) \<and> clean (Suc n) (ps @ [p]) (newDisk src nb) out v) E"
      if ex: "\<exists>m. seq = int m \<and> 0 < m \<and> m \<le> Suc n \<and> (\<forall>p \<in> set S. fst (fst p) < m)" for seq
    proof -
      obtain m where m: "seq = int m" "0 < m" "m \<le> Suc n" "\<forall>p \<in> set S. fst (fst p) < m" using ex by blast
      have e2: "F \<Longrightarrow> saves src opts D nb (snd p) \<Longrightarrow> clean (Suc n) (ps @ [p]) (newDisk src nb) out v \<Longrightarrow> E v" for v p
        using E2 [where k = 0] by simp
      show ?thesis unfolding m(1) by (rule runs_changeDisk [OF src S(1,3,2) m(4,2,3) n E1 e2])
    qed
    show ?thesis unfolding applyOver_def
      by (intro runs_andThen [OF runs_openDisk [OF e]] runs_andThen [OF runs_mkUndoDir [OF e]]
          runs_andThen [OF runs_nextUndoSeq [OF S(1) e]] runs_fact runs_andThen [OF change prune])
  qed
  have info: "runs F (clean n ps D out) (andThen diskInfo (\<lambda>info.
       case info of
         None \<Rightarrow> andThen (writeNewDiskFrom src) (\<lambda>n. return \<lparr>re_ChangedBytes = n, re_RolledBack = rolled\<rparr>)
       | Some oldSize \<Rightarrow> applyOver src opts oldSize rolled)) ?Q E" for rolled
    unfolding clean_def [of n]
  proof (intro runs_ex runs_fact runs_andThen [OF runs_diskInfo], elim conjE)
    fix S v assume "wellFormed n S" "points S = ps" "allApplied S" "F" "at D (files S) out v"
    then show "E v" by (intro E1 mono clean_meaning) (auto simp: clean_def)
  qed (simp add: over del: split_paired_Ex)
  show ?thesis unfolding ApplyCopy_def using E1 mono by (intro runs_andThen [OF runs_recover info]) auto
qed

end
