(* ===== verification/Copy_Sources.thy ===== *)
theory Copy_Sources
  imports Undo_Copy
begin

text \<open>
  The contract of a copy source, and what applying such a copy does to the meaning of a volume. The image
  reader of \<^verbatim>\<open>pkg/qcow2\<close> and the receiver's stored copies meet the contract.
\<close>

section \<open>The new disk\<close>

text \<open>A byte of the new disk: from the extent that holds it; without one a full copy has a zero there and a
  copy of the changes the old byte.\<close>

definition newByte :: "CopySource \<Rightarrow> bool \<Rightarrow> byte list \<Rightarrow> nat \<Rightarrow> byte" where
  "newByte src full D i =
     (case find (\<lambda>e. holdsByte e i) (fst (cs_Walk src)) of
        Some e \<Rightarrow> if e_Kind e = Zero then 0 else byteAt (cs_DataReader src D e) (i - e_Offset e)
      | None \<Rightarrow> if full then 0 else byteAt D i)"

definition copied :: "CopySource \<Rightarrow> bool \<Rightarrow> byte list \<Rightarrow> byte list" where
  "copied src full D = map (newByte src full D) [0..<cs_Size src]"

lemma goodChunks_lower:
  "goodChunks rd D nb off hi cs \<Longrightarrow> lo \<le> off \<Longrightarrow> (\<And>i. lo \<le> i \<Longrightarrow> i < off \<Longrightarrow> nb i = byteAt D i) \<Longrightarrow> goodChunks rd D nb lo hi cs"
proof (cases cs)
  case (Cons c cs')
  moreover obtain a l x where "c = (a, l, x)" by (rule prod_cases3)
  moreover assume "goodChunks rd D nb off hi cs" "lo \<le> off" "\<And>i. lo \<le> i \<Longrightarrow> i < off \<Longrightarrow> nb i = byteAt D i"
  ultimately show ?thesis by simp (metis not_le)
qed (auto, metis not_le)

lemma goodChunks_region:
  assumes "goodChunks rd D nb (off + n) hi cs" "off + n \<le> hi"
    and "\<And>a l d. off \<le> a \<Longrightarrow> a + l \<le> off + n \<Longrightarrow> near D nb d \<Longrightarrow> rd d (a, l, x) = Inr (map nb [a..<a + l])"
  shows "goodChunks rd D nb off hi (chunksOf off n x @ cs)"
  using assms
proof (induction off n x rule: chunksOf.induct)
  case (1 off n x)
  show ?case
  proof (cases "n = 0")
    case True
    then show ?thesis using 1 by (simp add: chunksOf.simps)
  next
    case False
    define l where "l = min n compareChunk"
    have l: "0 < l" "l \<le> n" "l \<le> compareChunk" using False by (auto simp: l_def compareChunk_def)
    have "goodChunks rd D nb (off + l) hi (chunksOf (off + l) (n - l) x @ cs)"
      using 1 False l by (intro "1.IH" [OF False l_def]) (auto simp: l_def [symmetric])
    then show ?thesis using 1 l False by (auto simp: chunksOf.simps [of off n] l_def [symmetric] Let_def)
  qed
qed

section \<open>The contract\<close>

text \<open>
  The extents are in order, disjoint and on the disk. The data of an extent has its length, and reading it
  again while the disk changes gives the same data as long as each byte of the extent's place is the old one
  or the new one.
\<close>

locale copy_source =
  fixes source :: "'i \<Rightarrow> CopySource" and usable :: "'i \<Rightarrow> byte list \<Rightarrow> bool"
  assumes walk_ends: "usable i D \<Longrightarrow> snd (cs_Walk (source i)) = None"
    and extents_apart: "usable i D \<Longrightarrow> sorted_wrt (\<lambda>a b. e_Offset a + e_Length a \<le> e_Offset b) (fst (cs_Walk (source i)))"
    and extents_on_disk: "usable i D \<Longrightarrow> e \<in> set (fst (cs_Walk (source i))) \<Longrightarrow> 0 < e_Length e \<and> e_Offset e + e_Length e \<le> cs_Size (source i)"
    and data_length: "usable i D \<Longrightarrow> e \<in> set (fst (cs_Walk (source i))) \<Longrightarrow> e_Kind e = Data \<Longrightarrow> length (cs_DataReader (source i) D e) = e_Length e"
    and data_again: "usable i D \<Longrightarrow> e \<in> set (fst (cs_Walk (source i))) \<Longrightarrow> e_Kind e = Data \<Longrightarrow> length D \<le> length d \<Longrightarrow>
      (\<And>p. holdsByte e p \<Longrightarrow> byteAt d p = byteAt D p \<or> byteAt d p = byteAt (cs_DataReader (source i) D e) (p - e_Offset e)) \<Longrightarrow>
      cs_DataReader (source i) d e = cs_DataReader (source i) D e"
begin

lemma newByte_extent:
  assumes "usable i D" "e \<in> set (fst (cs_Walk (source i)))" "holdsByte e p"
  shows "newByte (source i) full D p = (if e_Kind e = Zero then 0 else byteAt (cs_DataReader (source i) D e) (p - e_Offset e))"
proof -
  have "find (\<lambda>e. holdsByte e p) xs = Some e" if "sorted_wrt (\<lambda>a b. e_Offset a + e_Length a \<le> e_Offset b) xs" "e \<in> set xs" for xs
    using that assms(3) by (induction xs) (fastforce simp: holdsByte_def)+
  then show ?thesis using extents_apart [OF assms(1)] assms(2) by (simp add: newByte_def)
qed

lemma read_extent:
  assumes "usable i D" "e \<in> set (fst (cs_Walk (source i)))" "e_Kind e = Data" "near D (newByte (source i) full D) d"
    and "e_Offset e \<le> a" "a + l \<le> e_Offset e + e_Length e"
  shows "readChunk (source i) d (a, l, Some e) = Inr (map (newByte (source i) full D) [a..<a + l])"
proof -
  let ?data = "cs_DataReader (source i) D e"
  have new: "holdsByte e p \<Longrightarrow> newByte (source i) full D p = byteAt ?data (p - e_Offset e)" for p
    using newByte_extent [OF assms(1,2)] assms(3) by simp
  have "cs_DataReader (source i) d e = ?data"
    using assms(4) new by (intro data_again [OF assms(1-3)]) (auto simp: near_def)
  moreover have "length (take l (drop (a - e_Offset e) ?data)) = l" using data_length [OF assms(1-3)] assms(5,6) by simp
  moreover have "take l (drop (a - e_Offset e) ?data) = map (newByte (source i) full D) [a..<a + l]"
  proof (rule nth_equalityI)
    fix j assume "j < length (take l (drop (a - e_Offset e) ?data))"
    then have j: "j < l" by simp
    then have "a + j - e_Offset e < e_Length e" using assms(5,6) by simp
    moreover have "holdsByte e (a + j)" using j assms(5,6) by (simp add: holdsByte_def)
    ultimately show "take l (drop (a - e_Offset e) ?data) ! j = map (newByte (source i) full D) [a..<a + l] ! j"
      using j new data_length [OF assms(1-3)] assms(5,6) by (simp add: byteAt_def)
  qed (use data_length [OF assms(1-3)] assms(5,6) in simp)
  ultimately show ?thesis by (simp only: readChunk_def Let_def prod.case option.case less_irrefl if_False)
qed

lemma newChunks_good:
  assumes "usable i D" "sorted_wrt (\<lambda>a b. e_Offset a + e_Length a \<le> e_Offset b) es" "set es \<subseteq> set (fst (cs_Walk (source i)))"
    and "\<And>e. e \<in> set es \<Longrightarrow> next \<le> e_Offset e" "next \<le> cs_Size (source i)"
    and gap: "\<And>p. next \<le> p \<Longrightarrow> p < cs_Size (source i) \<Longrightarrow> (\<And>e. e \<in> set es \<Longrightarrow> \<not> holdsByte e p) \<Longrightarrow>
      newByte (source i) full D p = (if full then 0 else byteAt D p)"
  shows "goodChunks (readChunk (source i)) D (newByte (source i) full D) next (cs_Size (source i)) (newChunks full (cs_Size (source i)) next es)"
  using assms(2-)
proof (induction es arbitrary: "next")
  case Nil
  let ?nb = "newByte (source i) full D" and ?size = "cs_Size (source i)"
  have zeros: "full \<Longrightarrow> next \<le> a \<Longrightarrow> a + l \<le> ?size \<Longrightarrow> readChunk (source i) d (a, l, None) = Inr (map ?nb [a..<a + l])" for a l d
    using Nil(5) by (auto simp: readChunk_def list_eq_iff_nth_eq)
  show ?case
  proof (cases full)
    case True
    have "goodChunks (readChunk (source i)) D ?nb next ?size (chunksOf next (?size - next) None @ [])"
      by (rule goodChunks_region) (use True zeros Nil(4) in auto)
    then show ?thesis using True by auto
  next
    case False
    then show ?thesis using Nil(5) by simp
  qed
next
  case (Cons e es)
  let ?nb = "newByte (source i) full D" and ?size = "cs_Size (source i)" and ?stop = "e_Offset e + e_Length e"
  have e: "e \<in> set (fst (cs_Walk (source i)))" "next \<le> e_Offset e" using Cons.prems by auto
  have size: "0 < e_Length e" "?stop \<le> ?size" using extents_on_disk [OF assms(1) e(1)] by auto
  have outside: "\<not> holdsByte x p" if "x \<in> set (e # es)" "p < e_Offset e" for x p
    using that Cons.prems(1) by (fastforce simp: holdsByte_def)
  have rest: "goodChunks (readChunk (source i)) D ?nb ?stop ?size (newChunks full ?size ?stop es)"
  proof (rule Cons.IH)
    fix p assume p: "?stop \<le> p" "p < ?size" "\<And>x. x \<in> set es \<Longrightarrow> \<not> holdsByte x p"
    moreover have "\<not> holdsByte e p" using p(1) by (simp add: holdsByte_def)
    ultimately show "?nb p = (if full then 0 else byteAt D p)" using e(2) by (intro Cons.prems(5)) auto
  qed (use Cons.prems size in auto)
  have data: "goodChunks (readChunk (source i)) D ?nb (e_Offset e) ?size
      (chunksOf (e_Offset e) (e_Length e) (if e_Kind e = Zero then None else Some e) @ newChunks full ?size ?stop es)"
  proof (rule goodChunks_region [OF rest size(2)])
    fix a l d assume a: "e_Offset e \<le> a" "a + l \<le> ?stop" "near D ?nb d"
    show "readChunk (source i) d (a, l, if e_Kind e = Zero then None else Some e) = Inr (map ?nb [a..<a + l])"
    proof (cases "e_Kind e")
      case Data
      then show ?thesis using read_extent [OF assms(1) e(1) Data a(3,1,2)] by simp
    next
      case Zero
      then have "?nb p = 0" if "p \<in> {a..<a + l}" for p using that newByte_extent [OF assms(1) e(1)] a by (simp add: holdsByte_def)
      then show ?thesis using Zero by (auto simp: readChunk_def list_eq_iff_nth_eq)
    qed
  qed
  have before: "?nb p = (if full then 0 else byteAt D p)" if "next \<le> p" "p < e_Offset e" for p
    using Cons.prems(5) [of p] that size outside by simp
  show ?case
  proof (cases "full \<and> e_Offset e > next")
    case True
    have "goodChunks (readChunk (source i)) D ?nb (next + (e_Offset e - next)) ?size
      (chunksOf (e_Offset e) (e_Length e) (if e_Kind e = Zero then None else Some e) @ newChunks full ?size ?stop es)"
      using data True by simp
    then have "goodChunks (readChunk (source i)) D ?nb next ?size (chunksOf next (e_Offset e - next) None @
      chunksOf (e_Offset e) (e_Length e) (if e_Kind e = Zero then None else Some e) @ newChunks full ?size ?stop es)"
      by (rule goodChunks_region) (use True before size in \<open>auto simp: readChunk_def list_eq_iff_nth_eq\<close>)
    then show ?thesis using True by simp
  next
    case False
    then have "p < e_Offset e \<Longrightarrow> next \<le> p \<Longrightarrow> ?nb p = byteAt D p" for p using before by auto
    then show ?thesis using goodChunks_lower [OF data e(2)] False by (simp only: newChunks.simps if_False append_Nil)
  qed
qed

lemma source_copyable:
  assumes "usable i D" "length D \<le> cs_Size (source i)" "int (cs_Size (source i)) \<le> maxDiskBytes"
    "int64_range (ao_From opts)" "int64_range (ao_To opts)"
  shows "copyable (source i) opts D (newByte (source i) (ao_Full opts) D)"
proof -
  obtain exts where w: "cs_Walk (source i) = (exts, None)" using walk_ends [OF assms(1)] by (cases "cs_Walk (source i)") simp
  have "newByte (source i) full D p = (if full then 0 else byteAt D p)" if "\<And>e. e \<in> set exts \<Longrightarrow> \<not> holdsByte e p" for full p
  proof -
    have "find (\<lambda>e. holdsByte e p) exts = None" using that by (simp add: find_None_iff)
    then show ?thesis by (simp add: newByte_def w)
  qed
  then have "goodChunks (readChunk (source i)) D (newByte (source i) (ao_Full opts) D) 0 (cs_Size (source i)) (newChunks (ao_Full opts) (cs_Size (source i)) 0 exts)"
    using newChunks_good [OF assms(1), of exts 0 "ao_Full opts"] extents_apart [OF assms(1)] by (simp add: w)
  then show ?thesis using assms w by (simp add: copyable_def chunksVisited_def)
qed

end


section \<open>Images\<close>

text \<open>\<^verbatim>\<open>var _ CopySource = (*qcow2.Image)(nil)\<close>: an image that opens and walks without an error.\<close>

definition imageUsable :: "Image \<Rightarrow> byte list \<Rightarrow> bool" where
  "imageUsable img D \<longleftrightarrow> imageOk img \<and> im_fileSize img \<le> length (im_r img) \<and> snd (Walk img) = None"

interpretation qcow: copy_source qcowSource imageUsable
proof
  fix img D e d assume u: "imageUsable img D"
  obtain exts where w: "Walk img = (exts, None)" using u by (cases "Walk img") (simp add: imageUsable_def)
  have ok: "extentsOk img exts" using Walk_correct [OF _ w] u by (simp add: imageUsable_def)
  show "snd (cs_Walk (qcowSource img)) = None" by (simp add: qcowSource_def w)
  show "sorted_wrt (\<lambda>a b. e_Offset a + e_Length a \<le> e_Offset b) (fst (cs_Walk (qcowSource img)))"
    using ok by (simp add: qcowSource_def w extentsOk_def)
  assume "e \<in> set (fst (cs_Walk (qcowSource img)))"
  then have e: "0 < e_Length e \<and> e_Offset e + e_Length e \<le> im_VirtualSize img \<and> (e_Kind e = Data \<longrightarrow> e_HostOffset e + e_Length e \<le> im_fileSize img)"
    using ok by (simp add: qcowSource_def w extentsOk_def list_all_iff)
  then show "0 < e_Length e \<and> e_Offset e + e_Length e \<le> cs_Size (qcowSource img)" by (simp add: qcowSource_def)
  show "e_Kind e = Data \<Longrightarrow> length (cs_DataReader (qcowSource img) D e) = e_Length e"
    using e u by (auto simp: qcowSource_def DataReader_def length_ReadAt imageUsable_def)
  show "cs_DataReader (qcowSource img) d e = cs_DataReader (qcowSource img) D e" by (simp add: qcowSource_def)
qed

end
