(* ===== verification/Undo_Backup.thy ===== *)
theory Undo_Backup
  imports Copy_Sources
begin

text \<open>
  The backup of a disk as its users see it: the disk and the versions before it. Applying a copy, rolling
  back and rewinding are the operations of that view, whatever fails on the way.
\<close>

section \<open>The backup\<close>

text \<open>
  The abstract view of a volume is its disk and the versions before it, newest first. A copy adds the disk as
  a version and puts the new disk in its place; versions that were replaced too long ago go, oldest first.
\<close>

definition keptVersions :: "ApplyOptions \<Rightarrow> version list \<Rightarrow> version list" where
  "keptVersions opts vs =
     (if ao_Keep opts > 0 then rev (dropWhile (\<lambda>(f, t, P). t < ao_Now opts - ao_Keep opts) (rev vs)) else vs)"

definition applySpec :: "CopySource \<Rightarrow> ApplyOptions \<Rightarrow> byte list \<times> version list \<Rightarrow> byte list \<times> version list" where
  "applySpec src opts = (\<lambda>(D, vs). (copied src (ao_Full opts) D, keptVersions opts ((ao_From opts, ao_To opts, D) # vs)))"

text \<open>What a copy that fails may leave: the old backup, or the new one with some of the pruning done.\<close>

definition failSpec :: "CopySource \<Rightarrow> ApplyOptions \<Rightarrow> byte list \<times> version list \<Rightarrow> byte list \<times> version list \<Rightarrow> bool" where
  "failSpec src opts = (\<lambda>(D, vs) b. b = (D, vs) \<or>
     (\<exists>j. b = (copied src (ao_Full opts) D, take j ((ao_From opts, ao_To opts, D) # vs)) \<and>
        (\<forall>(f, t, P) \<in> set (drop j ((ao_From opts, ao_To opts, D) # vs)). 0 < ao_Keep opts \<and> t < ao_Now opts - ao_Keep opts)))"

abbreviation readable :: "byte list \<Rightarrow> bool" where
  "readable c \<equiv> \<exists>h. snd (readUndoFrom c) = Inr h"

lemma meaning_backup:
  assumes "meaning n ps D out v"
  shows "sound n v" "vo_out v = out" "backup v = (D, versions (rev (map snd ps)) D)" "\<forall>p \<in> set ps. readable (snd p)"
proof -
  obtain d S where S: "wellFormed n S" "points S = ps" "recovered S d = D" "at d (files S) out v"
    using assms by (auto simp: meaning_def)
  then have v: "vo_disk v = Some d" "folder v = files S" "vo_out v = out" by (simp_all add: at_def)
  show "sound n v" using S(1) v by (auto simp: sound_def)
  show "vo_out v = out" by (rule v)
  have "contents Disk v = d" using v by (simp add: contents_def)
  then show "backup v = (D, versions (rev (map snd ps)) D)"
    by (simp add: backup_def Let_def v recoveredDisk_files appliedFiles_files [OF S(1)] S(2,3))
  show "\<forall>p \<in> set ps. readable (snd p)"
  proof
    fix p assume "p \<in> set ps"
    then have "((nat (fst p), Applied), snd p) \<in> set S" using points_member [of "fst p" "snd p" S] S(2) by simp
    then have "slotOk n ((nat (fst p), Applied), snd p)" using S(1) by (simp add: wellFormed_def)
    then show "readable (snd p)" by (auto simp: slotOk_def)
  qed
qed

lemma sound_meaning:
  assumes "sound n v"
  shows "\<exists>ps. meaning n ps (fst (backup v)) (vo_out v) v \<and> snd (backup v) = versions (rev (map snd ps)) (fst (backup v))"
proof -
  obtain d S where S: "wellFormed n S" "vo_disk v = Some d" "folder v = files S" using assms by (auto simp: sound_def)
  then have "meaning n (points S) (recovered S d) (vo_out v) v" by (intro meaningI) (auto simp: at_def)
  then show ?thesis using meaning_backup(3) by fastforce
qed

lemma versions_add:
  assumes "saves src opts D nb c" "near D nb D'"
  shows "versions (c # cs) D' = (ao_From opts, ao_To opts, D) # versions cs D"
  using assms by (auto simp: saves_def newHeader_def)

lemma versions_take: "list_all readable cs \<Longrightarrow> versions (take j cs) d = take j (versions cs d)"
proof (induction cs arbitrary: d j)
  case (Cons c cs)
  then show ?case by (cases j) auto
qed simp

lemma length_versions: "list_all readable cs \<Longrightarrow> length (versions cs d) = length cs"
  by (induction cs arbitrary: d) auto

lemma versions_pruned:
  "list_all (\<lambda>p. readable (snd p)) ps \<Longrightarrow> versions (rev (map snd (dropWhile (old cutoff) ps))) D =
     rev (dropWhile (\<lambda>(f, t, P). t < cutoff) (rev (versions (rev (map snd ps)) D)))"
proof (induction ps)
  case (Cons p ps)
  obtain h where h: "snd (readUndoFrom (snd p)) = Inr h" using Cons.prems by auto
  moreover have "list_all readable (rev (map snd ps))" using Cons.prems by (simp add: list_all_iff)
  ultimately obtain P where P: "versions (rev (map snd (p # ps))) D = versions (rev (map snd ps)) D @ [(uh_from h, uh_to h, P)]"
    using versions_snoc by fastforce
  have "old cutoff p \<longleftrightarrow> uh_to h < cutoff" by (simp add: old_def h)
  then show ?case using Cons P by (cases "old cutoff p") simp_all
qed simp

lemma versions_old:
  assumes "list_all (\<lambda>p. readable (snd p)) ps" "\<forall>q \<in> set (take k ps). old cutoff q"
  shows "\<forall>(f, t, P) \<in> set (drop (length ps - k) (versions (rev (map snd ps)) D)). t < cutoff"
  using assms
proof (induction ps arbitrary: k)
  case (Cons p ps)
  obtain h where h: "snd (readUndoFrom (snd p)) = Inr h" using Cons.prems by auto
  moreover have r: "list_all readable (rev (map snd ps))" using Cons.prems by (simp add: list_all_iff)
  ultimately obtain P where P: "versions (rev (map snd (p # ps))) D = versions (rev (map snd ps)) D @ [(uh_from h, uh_to h, P)]"
    using versions_snoc by fastforce
  show ?case
  proof (cases k)
    case 0
    then show ?thesis using P length_versions [OF r, of D] by simp
  next
    case (Suc k')
    then have p: "old cutoff p" using Cons.prems(2) by simp
    have "\<forall>(f, t, P) \<in> set (drop (length ps - k') (versions (rev (map snd ps)) D)). t < cutoff"
      by (rule Cons.IH) (use Cons.prems Suc in auto)
    then show ?thesis using p P Suc length_versions [OF r, of D] by (auto simp: old_def h)
  qed
qed simp

section \<open>Applying a copy\<close>

text \<open>The operations that take a copy from a source that meets the contract.\<close>

context copy_source
begin

lemma new_disk: "newDisk (source i) (newByte (source i) full D) = copied (source i) full D"
  by (simp add: newDisk_def copied_def)

lemma new_near: "length D \<le> cs_Size (source i) \<Longrightarrow> near D (newByte (source i) full D) (copied (source i) full D)"
  unfolding new_disk [symmetric] newDisk_mixed [of _ _ D] by (rule near_mixed)

lemma added_version:
  assumes "saves (source i) opts D (newByte (source i) (ao_Full opts) D) (snd p)" "length D \<le> cs_Size (source i)"
    "\<forall>p \<in> set ps. readable (snd p)"
  shows "versions (rev (map snd (ps @ [p]))) (copied (source i) (ao_Full opts) D) = (ao_From opts, ao_To opts, D) # versions (rev (map snd ps)) D"
    "list_all (\<lambda>p. readable (snd p)) (ps @ [p])"
  using versions_add [OF assms(1) new_near [OF assms(2)]] assms(1,3) by (simp, force simp: list_all_iff saves_def)

lemma applied_backup:
  assumes p: "saves (source i) opts D (newByte (source i) (ao_Full opts) D) (snd p)" "length D \<le> cs_Size (source i)"
    "\<forall>p \<in> set ps. readable (snd p)"
    and c: "clean n (kept opts (ps @ [p])) (newDisk (source i) (newByte (source i) (ao_Full opts) D)) out v"
  shows "sound n v \<and> backup v = applySpec (source i) opts (D, versions (rev (map snd ps)) D) \<and> vo_out v = out"
proof -
  let ?new = "copied (source i) (ao_Full opts) D"
  have "versions (rev (map snd (kept opts (ps @ [p])))) ?new = keptVersions opts ((ao_From opts, ao_To opts, D) # versions (rev (map snd ps)) D)"
    using versions_pruned [OF added_version(2) [OF p], of _ ?new] added_version(1) [OF p] by (simp add: kept_def keptVersions_def)
  then show ?thesis using meaning_backup [OF clean_meaning [OF c [unfolded new_disk]]] by (simp add: applySpec_def)
qed

lemma failed_backup:
  assumes p: "saves (source i) opts D (newByte (source i) (ao_Full opts) D) (snd p)" "length D \<le> cs_Size (source i)"
    "\<forall>p \<in> set ps. readable (snd p)"
    and c: "clean n (drop k (ps @ [p])) (newDisk (source i) (newByte (source i) (ao_Full opts) D)) out v"
    and k: "0 < k \<Longrightarrow> 0 < ao_Keep opts" "\<forall>q \<in> set (take k (ps @ [p])). old (ao_Now opts - ao_Keep opts) q"
  shows "sound n v \<and> failSpec (source i) opts (D, versions (rev (map snd ps)) D) (backup v) \<and> vo_out v = out"
proof -
  let ?new = "copied (source i) (ao_Full opts) D" let ?j = "length (ps @ [p]) - k" let ?vs = "versions (rev (map snd (ps @ [p]))) ?new"
  note mean = meaning_backup [OF clean_meaning [OF c [unfolded new_disk]]]
  have r: "list_all readable (rev (map snd (ps @ [p])))" using added_version(2) [OF p] by (simp add: list_all_iff)
  have "rev (map snd (drop k (ps @ [p]))) = take ?j (rev (map snd (ps @ [p])))" by (metis drop_map length_map rev_drop)
  then have "versions (rev (map snd (drop k (ps @ [p])))) ?new = take ?j ?vs" using versions_take [OF r] by simp
  moreover have "\<forall>(f, t, P) \<in> set (drop ?j ?vs). 0 < ao_Keep opts \<and> t < ao_Now opts - ao_Keep opts"
  proof (cases "k = 0")
    case True
    then show ?thesis using length_versions [OF r, of ?new] by simp
  next
    case False
    then show ?thesis using versions_old [OF added_version(2) [OF p] k(2), of ?new] k(1) by blast
  qed
  ultimately show ?thesis using mean added_version(1) [OF p] by (auto simp: failSpec_def)
qed

lemma apply_runs:
  assumes u: "usable i D" and fits: "length D \<le> cs_Size (source i)" "int (cs_Size (source i)) \<le> maxDiskBytes"
    "int64_range (ao_From opts)" "int64_range (ao_To opts)" and n: "Suc n < 2 ^ 63"
  shows "runs F (\<lambda>v. sound n v \<and> backup v = (D, vs) \<and> vo_out v = out) (ApplyCopy (source i) opts)
    (\<lambda>_ v. sound (Suc n) v \<and> backup v = applySpec (source i) opts (D, vs) \<and> vo_out v = out)
    (\<lambda>v. F \<and> sound (Suc n) v \<and> failSpec (source i) opts (D, vs) (backup v) \<and> vo_out v = out)"
    (is "runs F _ _ ?Q ?E")
proof -
  have src: "copyable (source i) opts D (newByte (source i) (ao_Full opts) D)" by (rule source_copyable [OF u fits])
  have "runs F (meaning n ps D out) (ApplyCopy (source i) opts) ?Q ?E"
    if rd: "\<forall>p \<in> set ps. readable (snd p)" and vs: "vs = versions (rev (map snd ps)) D" for ps
    unfolding vs
  proof (rule runs_weaken [OF runs_ApplyCopy [OF src n]])
    show "F \<and> sound (Suc n) v \<and> failSpec (source i) opts (D, versions (rev (map snd ps)) D) (backup v) \<and> vo_out v = out"
      if "F" "meaning (Suc n) ps D out v" for v using meaning_backup [OF that(2)] that(1) by (simp add: failSpec_def)
  qed (use applied_backup [OF _ fits(1) rd] failed_backup [OF _ fits(1) rd] in blast)+
  then have "runs F (\<lambda>v. \<exists>ps. (\<forall>p \<in> set ps. readable (snd p)) \<and> vs = versions (rev (map snd ps)) D \<and> meaning n ps D out v)
    (ApplyCopy (source i) opts) ?Q ?E"
    by (intro runs_ex runs_fact)
  then show ?thesis
    by (rule runs_pre) (metis fst_conv meaning_backup(4) snd_conv sound_meaning)
qed

end

section \<open>Rewinding\<close>

text \<open>The undo files that are applied, newest first, up to the newest one that starts at the wanted time.\<close>

definition rewound :: "(int \<times> byte list) list \<Rightarrow> byte list \<Rightarrow> byte list" where
  "rewound us D = foldl (\<lambda>f p. rollBack (snd p) f) D us"

definition later :: "int \<Rightarrow> (int \<times> byte list) list \<Rightarrow> nat" where
  "later to ps = length (takeWhile (\<lambda>p. uh_from (hdrOf (snd p)) \<noteq> to) (rev ps))"

lemma later_le: "later to ps \<le> length ps"
  using length_takeWhile_le [of _ "rev ps"] by (simp add: later_def)

lemma stopAt_fileOf:
  "stopAt to (map fileOf ps) = (if later to ps = length ps then None else Some (map fileOf (drop (length ps - Suc (later to ps)) ps)))"
proof -
  have "uh_from (uf_hdr (fileOf p)) = uh_from (hdrOf (snd p))" for p by (cases p) (simp add: fileOf_def)
  then have "takeWhile (\<lambda>u. uh_from (uf_hdr u) \<noteq> to) (rev (map fileOf ps)) = map fileOf (takeWhile (\<lambda>p. uh_from (hdrOf (snd p)) \<noteq> to) (rev ps))"
    by (simp add: rev_map takeWhile_map comp_def)
  then show ?thesis by (simp add: stopAt_def later_def drop_map)
qed

lemma runs_rewindLoop:
  assumes S: "wellFormed n S" "set us \<subseteq> set (points S)" and E: "\<And>v f. F \<Longrightarrow> at D (files S) (Some f) v \<Longrightarrow> E v"
  shows "runs F (at D (files S) (Some f)) (rewindLoop (map fileOf us)) (\<lambda>_. at D (files S) (Some (rewound us f))) E"
  using S(2)
proof (induction us arbitrary: f)
  case Nil
  then show ?case by (simp add: rewound_def runs_return)
next
  case (Cons p us)
  obtain s c where p: "p = (s, c)" by (cases p)
  then have m: "((nat s, Applied), c) \<in> set S" using Cons.prems points_member [of s c S] by simp
  then obtain recs h where c: "readUndoFrom c = (recs, Inr h)" using S(1) by (fastforce simp: wellFormed_def slotOk_def)
  have "map_of (files S) (nameOf (nat s, Applied)) = Some c" using m S(1) by (simp add: wellFormed_def)
  then have "runs F (on Out D (files S) None f) (applyUndo Out (nameOf (nat s, Applied))) (\<lambda>_. on Out D (files S) None (undone h recs f)) E"
    by (rule runs_applyUndo [OF _ c]) (simp add: on_def E)
  then have step: "runs F (at D (files S) (Some f)) (applyUndo Out (uf_path (fileOf p))) (\<lambda>_. at D (files S) (Some (rollBack c f))) E"
    by (simp add: on_def p fileOf_def rollBack_parsed [OF c])
  have "runs F (at D (files S) (Some (rollBack c f))) (rewindLoop (map fileOf us)) (\<lambda>_. at D (files S) (Some (rewound us (rollBack c f)))) E"
    using Cons.prems by (intro Cons.IH) simp
  then show ?case using runs_andThen [OF step] by (simp add: rewound_def p)
qed

lemma runs_rewindCopy:
  assumes S: "wellFormed n S" "points S = ps" "allApplied S" "set us \<subseteq> set ps" and E: "\<And>v out. F \<Longrightarrow> meaning n ps D out v \<Longrightarrow> E v"
  shows "runs F (at D (files S) None) (rewindCopy (map fileOf us)) (\<lambda>_. clean n ps D (Some (rewound us D))) E"
proof -
  have mean: "at D (files S) out v \<Longrightarrow> meaning n ps D out v" for out v
    by (rule meaningI [OF S(1,2) recovered_allApplied [OF S(3)]])
  let ?W = "\<lambda>v. F \<and> (\<exists>out. meaning n ps D out v)"
  have W: "F \<Longrightarrow> at D (files S) out v \<Longrightarrow> ?W v" for out v using mean by blast
  have new: "runs F (at D (files S) None) (sysCall (\<lambda>v. if vo_out v \<noteq> None then (Inl ''file exists'', v) else (Inr (), v\<lparr>vo_out := Some []\<rparr>)))
      (\<lambda>_. at D (files S) (Some [])) E"
    by (rule runs_sysCall) (use mean E in \<open>auto simp: at_def folder_def\<close>)
  have "WriteAt [] 0 D = D" by (rule file_eqI) (simp_all add: file_simps, simp add: byteAt_def)
  then have "runs F (at D (files S) (Some [])) (writeFile Out 0 D) (\<lambda>_. at D (files S) (Some D)) ?W"
    using runs_writeOut [of F D "files S" "[]" 0 D ?W] W by simp
  then have copy: "runs F (at D (files S) (Some [])) (\<lambda>v. writeFile Out 0 (contents Disk v) v) (\<lambda>_. at D (files S) (Some D)) ?W"
    by (rule runs_eq) simp
  have loop: "runs F (at D (files S) (Some D)) (rewindLoop (map fileOf us)) (\<lambda>_. at D (files S) (Some (rewound us D))) ?W"
    by (rule runs_rewindLoop [OF S(1)]) (use S in blast, rule W)
  have sync: "runs F (at D (files S) (Some (rewound us D))) syncFile (\<lambda>_. clean n ps D (Some (rewound us D))) ?W"
    by (rule runs_weaken [OF runs_syncFile [OF stable_at(1) W]]) (use S in \<open>auto simp: clean_def\<close>)
  have "meaning n ps D out v \<Longrightarrow> meaning n ps D None (v\<lparr>vo_out := None\<rparr>)" for out v by (auto simp: meaning_def at_def folder_def)
  moreover have "stable (\<lambda>v. \<exists>out. meaning n ps D out v)" using stable_states(1) unfolding stable_def by blast
  ultimately have undo: "runs True ?W (sysCall (\<lambda>v. (Inr (), v\<lparr>vo_out := None\<rparr>))) (\<lambda>_. E) E"
    using E by (intro runs_fact runs_sysCall) auto
  show ?thesis unfolding rewindCopy_def
    by (rule runs_andThen [OF runs_openDisk runs_andThen [OF new runs_orElse [OF runs_andThen [OF copy runs_andThen [OF loop sync]] undo]]])
      (use mean E in blast)
qed

lemma runs_Rewind:
  assumes E: "\<And>v out. F \<Longrightarrow> meaning n ps D out v \<Longrightarrow> E v"
    and none: "\<And>v. later to ps = length ps \<Longrightarrow> clean n ps D None v \<Longrightarrow> E v"
  shows "runs F (meaning n ps D None) (Rewind to)
    (\<lambda>_ v. later to ps < length ps \<and> clean n ps D (Some (rewound (take (Suc (later to ps)) (rev ps)) D)) v) E"
proof -
  let ?k = "later to ps" let ?us = "take (Suc ?k) (rev ps)"
  let ?Q = "\<lambda>_ v. ?k < length ps \<and> clean n ps D (Some (rewound ?us D)) v"
  have rev_us: "rev (map fileOf (drop (length ps - Suc ?k) ps)) = map fileOf ?us"
    by (simp only: rev_map take_rev)
  have opened: "runs F (at D (files S) None) (andThen appliedUndo (\<lambda>files.
       case stopAt to files of None \<Rightarrow> fail ''no restore point'' | Some chosen \<Rightarrow> rewindCopy (rev chosen))) ?Q E"
    if S: "wellFormed n S" "points S = ps" "allApplied S" for S
  proof -
    have e: "F \<Longrightarrow> at D (files S) None v \<Longrightarrow> E v" for v
      by (rule E, assumption, rule meaningI [OF S(1,2) recovered_allApplied [OF S(3)]])
    have c: "at D (files S) None v \<Longrightarrow> clean n ps D None v" for v using S by (auto simp: clean_def)
    have us: "set ?us \<subseteq> set ps" using set_take_subset [of _ "rev ps"] by simp
    have "runs F (at D (files S) None) (case stopAt to (map fileOf ps) of None \<Rightarrow> fail ''no restore point'' | Some chosen \<Rightarrow> rewindCopy (rev chosen)) ?Q E"
    proof (cases "?k = length ps")
      case True
      then show ?thesis using none c by (simp add: stopAt_fileOf runs_fail)
    next
      case False
      then show ?thesis using runs_rewindCopy [OF S us E] later_le [of to ps] by (simp add: stopAt_fileOf rev_us)
    qed
    then show ?thesis using S(2) by (intro runs_andThen [OF runs_appliedUndo [OF S(1) e]] runs_fact) (simp_all only:)
  qed
  then have rest: "runs F (clean n ps D None) (andThen appliedUndo (\<lambda>files.
       case stopAt to files of None \<Rightarrow> fail ''no restore point'' | Some chosen \<Rightarrow> rewindCopy (rev chosen))) ?Q E"
    unfolding clean_def [of n ps D None] by (intro runs_ex runs_fact) blast
  show ?thesis unfolding Rewind_def by (rule runs_andThen [OF runs_recover [OF E] rest])
qed


text \<open>In terms of the versions: the newest one made at the wanted time.\<close>

lemma versions_nth:
  "list_all (\<lambda>p. readable (snd p)) us \<Longrightarrow> k < length us \<Longrightarrow>
   versions (map snd us) D ! k = (uh_from (hdrOf (snd (us ! k))), uh_to (hdrOf (snd (us ! k))), rewound (take (Suc k) us) D)"
proof (induction us arbitrary: D k)
  case (Cons p us)
  then show ?case by (cases k) (auto simp: rewound_def)
qed simp

lemma find_version:
  assumes "\<forall>p \<in> set ps. readable (snd p)"
  shows "find (\<lambda>(f, t, P). f = to) (versions (rev (map snd ps)) D) =
    (if later to ps = length ps then None else
       Some (to, uh_to (hdrOf (snd (rev ps ! later to ps))), rewound (take (Suc (later to ps)) (rev ps)) D))"
proof -
  have "find (\<lambda>(f, t, P). f = to) (versions (map snd us) D) =
    (let k = length (takeWhile (\<lambda>p. uh_from (hdrOf (snd p)) \<noteq> to) us) in
     if k = length us then None else Some (to, uh_to (hdrOf (snd (us ! k))), rewound (take (Suc k) us) D))"
    if "list_all (\<lambda>p. readable (snd p)) us" for us
    using that
  proof (induction us arbitrary: D)
    case (Cons p us)
    then show ?case by (auto simp: rewound_def Let_def)
  qed simp
  from this [of "rev ps"] assms show ?thesis by (simp add: rev_map later_def list_all_iff Let_def)
qed

lemma Rewind_runs:
  "runs F (\<lambda>v. sound n v \<and> backup v = (D, vs) \<and> vo_out v = None) (Rewind to)
    (\<lambda>_ v. sound n v \<and> backup v = (D, vs) \<and> (\<exists>t P. find (\<lambda>(f, t, P). f = to) vs = Some (to, t, P) \<and> vo_out v = Some P))
    (\<lambda>v. sound n v \<and> backup v = (D, vs) \<and> (F \<or> find (\<lambda>(f, t, P). f = to) vs = None \<and> vo_out v = None))"
  (is "runs F _ _ ?Q ?E")
proof -
  have "runs F (meaning n ps D None) (Rewind to) ?Q ?E"
    if rd: "\<forall>p \<in> set ps. readable (snd p)" and vs: "vs = versions (rev (map snd ps)) D" for ps
  proof (rule runs_weaken [OF runs_Rewind [where F = F and E = ?E]])
    show "?E v" if "F" "meaning n ps D out v" for v out using meaning_backup [OF that(2)] that(1) vs by simp
    show "?E v" if "later to ps = length ps" "clean n ps D None v" for v
      using meaning_backup [OF clean_meaning [OF that(2)]] find_version [OF rd, of to D] that(1) vs by simp
    show "?Q x v" if "later to ps < length ps \<and> clean n ps D (Some (rewound (take (Suc (later to ps)) (rev ps)) D)) v" for x v
      using meaning_backup [OF clean_meaning [OF conjunct2 [OF that]]] find_version [OF rd, of to D] conjunct1 [OF that] vs by simp
  qed
  then have "runs F (\<lambda>v. \<exists>ps. (\<forall>p \<in> set ps. readable (snd p)) \<and> vs = versions (rev (map snd ps)) D \<and> meaning n ps D None v) (Rewind to) ?Q ?E"
    by (intro runs_ex runs_fact)
  then show ?thesis
    by (rule runs_pre) (metis fst_conv meaning_backup(4) snd_conv sound_meaning)
qed

end
