(* ===== verification/Undo_Properties.thy ===== *)
theory Undo_Properties
  imports Undo_Backup
begin

text \<open>
  The properties of applying, rolling back and rewinding copies, over images that open and walk without an
  error.
\<close>

section \<open>Sequences of copies\<close>

definition fitsImage :: "byte list \<Rightarrow> Image \<Rightarrow> ApplyOptions \<Rightarrow> bool" where
  "fitsImage D img opts \<longleftrightarrow> length D \<le> im_VirtualSize img \<and> im_VirtualSize img \<le> 2 ^ 50 \<and>
     int64_range (ao_From opts) \<and> int64_range (ao_To opts)"

lemma opened_usable: "Open f (length f) = Inr img \<Longrightarrow> Walk img = (exts, None) \<Longrightarrow> imageUsable img D"
  using Open_header [of f "length f" img] by (simp add: imageUsable_def)

lemma ApplyCopy_image:
  assumes "imageUsable img (fst (backup v))" "sound n v" "Suc n < 2 ^ 63" "fitsImage (fst (backup v)) img opts"
  shows "case ApplyCopy (qcowSource img) opts v of
      (Inr _, v') \<Rightarrow> sound (Suc n) v' \<and> backup v' = applySpec (qcowSource img) opts (backup v) \<and> vo_out v' = vo_out v
    | (Inl _, v') \<Rightarrow> vo_faults v \<noteq> [] \<and> sound (Suc n) v' \<and> failSpec (qcowSource img) opts (backup v) (backup v') \<and> vo_out v' = vo_out v"
proof -
  obtain D vs where b: "backup v = (D, vs)" by (rule prod.exhaust)
  have fits: "length D \<le> cs_Size (qcowSource img)" "int (cs_Size (qcowSource img)) \<le> maxDiskBytes"
    "int64_range (ao_From opts)" "int64_range (ao_To opts)"
    using assms(4) by (simp_all add: fitsImage_def b qcowSource_def maxDiskBytes_def)
  have u: "imageUsable img D" using assms(1) by (simp add: b)
  note runs = qcow.apply_runs [OF u fits assms(3), of "vo_faults v \<noteq> []" vs "vo_out v"]
  have start: "sound n v \<and> backup v = (D, vs) \<and> vo_out v = vo_out v" "calm (vo_faults v \<noteq> []) v" using assms(2) b by (simp_all add: calm_def)
  obtain r v' where "ApplyCopy (qcowSource img) opts v = (r, v')" by (rule prod.exhaust)
  then show ?thesis using runs_success [OF runs start] runs_failure [OF runs start] by (cases r) (simp_all add: b)
qed


text \<open>
  Copies applied one after the other, each whether or not the one before it failed, and what that may do to
  the backup.
\<close>

fun applyAll :: "(Image \<times> ApplyOptions) list \<Rightarrow> volume \<Rightarrow> volume" where
  "applyAll [] v = v"
| "applyAll ((img, opts) # cs) v = applyAll cs (snd (ApplyCopy (qcowSource img) opts v))"

inductive specRun :: "(Image \<times> ApplyOptions) list \<Rightarrow> byte list \<times> version list \<Rightarrow> byte list \<times> version list \<Rightarrow> bool" where
  none: "specRun [] b b"
| applied: "specRun cs (applySpec (qcowSource img) opts b) b' \<Longrightarrow> specRun ((img, opts) # cs) b b'"
| failed: "failSpec (qcowSource img) opts b b1 \<Longrightarrow> specRun cs b1 b' \<Longrightarrow> specRun ((img, opts) # cs) b b'"

text \<open>The images open and walk, and none is smaller than the ones before it or than the disk.\<close>

fun fitting :: "nat \<Rightarrow> (Image \<times> ApplyOptions) list \<Rightarrow> bool" where
  "fitting n [] = True"
| "fitting n ((img, opts) # cs) \<longleftrightarrow>
     n \<le> im_VirtualSize img \<and> im_VirtualSize img \<le> 2 ^ 50 \<and> int64_range (ao_From opts) \<and> int64_range (ao_To opts) \<and>
     imageUsable img [] \<and> fitting (im_VirtualSize img) cs"

lemma imageUsable_any: "imageUsable img D \<longleftrightarrow> imageUsable img []"
  by (simp add: imageUsable_def)

lemma fitting_mono: "fitting n cs \<Longrightarrow> m \<le> n \<Longrightarrow> fitting m cs"
  by (cases cs) auto

lemma length_applySpec: "length (fst (applySpec (qcowSource img) opts b)) = im_VirtualSize img"
  by (cases b) (simp add: applySpec_def copied_def qcowSource_def)

lemma length_failSpec:
  "failSpec (qcowSource img) opts b b' \<Longrightarrow> length (fst b) \<le> im_VirtualSize img \<Longrightarrow> length (fst b') \<le> im_VirtualSize img"
  by (cases b) (auto simp: failSpec_def copied_def qcowSource_def)

section \<open>Examples\<close>

text \<open>A disk of two bytes without restore points, and options for a copy of the changes.\<close>

definition exampleVolume :: volume where
  "exampleVolume = \<lparr>vo_disk = Some [5, 6], vo_new = None, vo_staging = None, vo_undo = None, vo_out = None, vo_moment = None,
     vo_mtime = 0, vo_now = 0, vo_faults = []\<rparr>"

definition exampleOptions :: ApplyOptions where
  "exampleOptions = \<lparr>ao_From = 100, ao_To = 200, ao_Full = False, ao_Keep = 0, ao_Now = 300\<rparr>"

lemma example_sound: "sound 0 exampleVolume" "backup exampleVolume = ([5, 6], [])"
proof -
  have "wellFormed 0 []" by (simp add: wellFormed_def)
  then show "sound 0 exampleVolume" unfolding sound_def by (intro exI [of _ "[5, 6]"] exI [of _ "[]"]) (simp add: exampleVolume_def folder_def)
  show "backup exampleVolume = ([5, 6], [])"
    by (simp add: backup_def exampleVolume_def folder_def contents_def recoveredDisk_def appliedFiles_def List.map_filter_simps)
qed

lemma example_usable: "imageUsable exampleOpened D" "im_VirtualSize exampleOpened = 1536"
  using opened_usable [OF _ exampleImage_Walk, of exampleImage] exampleImage_Open by (simp_all add: exampleOpened_def)

lemma example_fits: "fitsImage [5, 6] exampleOpened exampleOptions"
  by (simp add: fitsImage_def example_usable(2) exampleOptions_def int64_range_def)

lemma example_copied: "byteAt (copied (qcowSource exampleOpened) False [5, 6]) 5 = 7"
proof -
  have "byteAt exampleImage 1541 = 7" by (simp add: byteAt_def exampleImage_def nth_append)
  moreover have "im_r exampleOpened = exampleImage" by (simp add: exampleOpened_def)
  ultimately have "newByte (qcowSource exampleOpened) False [5, 6] 5 = 7"
    by (simp add: newByte_def qcowSource_def exampleImage_Walk exampleExtents_def holdsByte_def DataReader_def byteAt_ReadAt)
  moreover have "cs_Size (qcowSource exampleOpened) = 1536" by (simp add: qcowSource_def example_usable(2))
  ultimately show ?thesis by (simp add: copied_def byteAt_def)
qed

lemma example_after:
  "\<exists>r v. ApplyCopy (qcowSource exampleOpened) exampleOptions exampleVolume = (Inr r, v) \<and> sound 1 v
     \<and> snd (backup v) = [(100, 200, [5, 6])] \<and> vo_out v = None \<and> vo_faults v = []"
proof -
  have "length [5, 6 :: byte] \<le> cs_Size (qcowSource exampleOpened)" "int (cs_Size (qcowSource exampleOpened)) \<le> maxDiskBytes"
    "int64_range (ao_From exampleOptions)" "int64_range (ao_To exampleOptions)"
    using example_fits by (simp_all add: fitsImage_def qcowSource_def maxDiskBytes_def)
  note run = qcow.apply_runs [OF example_usable(1) this, of 0 False "[]" None]
  have "vo_out exampleVolume = None" "vo_faults exampleVolume = []" by (simp_all add: exampleVolume_def)
  then show ?thesis
    using runs_returns [of "\<lambda>v. sound 0 v \<and> backup v = ([5, 6], []) \<and> vo_out v = None"] run example_sound
    by (fastforce simp: applySpec_def keptVersions_def exampleOptions_def)
qed

section \<open>Properties\<close>

text \<open>
  C25: applying a copy to a disk that exists and is not larger than the copy, with fewer than \<open>2 ^ 63\<close> undo files
  and a copy of at most \<open>2 ^ 50\<close> bytes, is atomic on the backup, whatever call fails on the way and wherever the process stops.
  On success the disk holds the copy, the disk before it is a new restore point with the right times, and
  restore points past their time are gone. Without failing calls the operation succeeds. After a failure the
  backup is still the old one, or already the new one with part of the pruning done; the volume stays sound, so
  the next copy starts from there.
\<close>

theorem ApplyCopy_atomic:
  assumes "Open f (length f) = Inr img" "Walk img = (exts, None)" "sound n v" "Suc n < 2 ^ 63"
    "fitsImage (fst (backup v)) img opts"
  shows "case ApplyCopy (qcowSource img) opts v of
      (Inr _, v') \<Rightarrow> sound (Suc n) v' \<and> backup v' = applySpec (qcowSource img) opts (backup v) \<and> vo_out v' = vo_out v
    | (Inl _, v') \<Rightarrow> vo_faults v \<noteq> [] \<and> sound (Suc n) v' \<and> failSpec (qcowSource img) opts (backup v) (backup v') \<and> vo_out v' = vo_out v"
  by (rule ApplyCopy_image [OF opened_usable [OF assms(1,2)] assms(3-5)])

theorem ApplyCopy_atomic_witness:
  "\<exists>res v'. ApplyCopy (qcowSource exampleOpened) exampleOptions exampleVolume = (Inr res, v')
     \<and> byteAt (fst (backup v')) 5 = 7 \<and> snd (backup v') = [(100, 200, [5, 6])]"
proof -
  obtain r v' where m: "ApplyCopy (qcowSource exampleOpened) exampleOptions exampleVolume = (r, v')" by (rule prod.exhaust)
  have "Open exampleImage (length exampleImage) = Inr exampleOpened" using exampleImage_Open by simp
  from ApplyCopy_atomic [OF this exampleImage_Walk example_sound(1), of exampleOptions] m
  have "(\<exists>res. r = Inr res) \<and> backup v' = applySpec (qcowSource exampleOpened) exampleOptions ([5, 6], [])"
    by (cases r) (simp_all add: example_sound example_fits, simp add: exampleVolume_def)
  then show ?thesis using m example_copied by (auto simp: applySpec_def exampleOptions_def keptVersions_def)
qed

text \<open>
  C26: rewinding gives back the version of the wanted time. When it returns, the new file has the contents the
  disk had at the newest restore point of that time; without failing calls it fails only when there is no such
  restore point, and then leaves no file. The disk and its restore points are the same afterwards in any case.
\<close>

theorem Rewind_returns_version:
  assumes "sound n v" "vo_out v = None"
  shows "case Rewind to v of
      (Inr _, v') \<Rightarrow> backup v' = backup v \<and> sound n v' \<and>
        (\<exists>t P. find (\<lambda>(f, t, P). f = to) (snd (backup v)) = Some (to, t, P) \<and> vo_out v' = Some P)
    | (Inl _, v') \<Rightarrow> backup v' = backup v \<and> sound n v' \<and>
        (vo_faults v \<noteq> [] \<or> find (\<lambda>(f, t, P). f = to) (snd (backup v)) = None \<and> vo_out v' = None)"
proof -
  obtain D vs where b: "backup v = (D, vs)" by (rule prod.exhaust)
  obtain r v' where m: "Rewind to v = (r, v')" by (rule prod.exhaust)
  have start: "sound n v \<and> backup v = (D, vs) \<and> vo_out v = None" using assms b by simp
  have c: "calm (vo_faults v \<noteq> []) v" by (simp add: calm_def)
  show ?thesis
    using runs_success [OF Rewind_runs start c, of to] runs_failure [OF Rewind_runs start c, of to] m by (cases r) (simp_all add: b)
qed

theorem Rewind_returns_version_witness:
  "\<exists>v v'. snd (ApplyCopy (qcowSource exampleOpened) exampleOptions exampleVolume) = v \<and> Rewind 100 v = (Inr (), v') \<and> vo_out v' = Some [5, 6]"
proof -
  obtain v where v: "snd (ApplyCopy (qcowSource exampleOpened) exampleOptions exampleVolume) = v" "sound 1 v"
    "snd (backup v) = [(100, 200, [5, 6])]" "vo_out v = None" "vo_faults v = []"
    using example_after by auto
  obtain r v' where m: "Rewind 100 v = (r, v')" by (rule prod.exhaust)
  show ?thesis using Rewind_returns_version [OF v(2,4), of 100] m v(1,3,5) by (cases r) simp_all
qed

text \<open>
  C27: along any sequence of copies to a disk that exists, none smaller than the one before it or than the
  disk, each tried whatever became of the ones before it and with any calls failing, the files of the volume stand
  after every copy for a backup that the specification reaches by the same sequence: each copy is applied as a
  whole or not at all. The files stay sound, so all of this can go on.
\<close>

theorem copies_refine_backup:
  assumes "sound n v" "n + length cs < 2 ^ 63" "fitting (length (fst (backup v))) cs"
  shows "sound (n + length cs) (applyAll cs v) \<and> specRun cs (backup v) (backup (applyAll cs v))"
  using assms
proof (induction cs arbitrary: n v)
  case Nil
  then show ?case by (simp add: specRun.none)
next
  case (Cons c cs)
  obtain img opts where c: "c = (img, opts)" by (cases c)
  obtain r v' where m: "ApplyCopy (qcowSource img) opts v = (r, v')" by (rule prod.exhaust)
  have fits: "fitsImage (fst (backup v)) img opts" "imageUsable img (fst (backup v))" "fitting (im_VirtualSize img) cs"
    using Cons.prems(3) by (simp_all add: c fitsImage_def imageUsable_any [of img "fst (backup v)"])
  have step: "case (r, v') of
      (Inr _, v') \<Rightarrow> sound (Suc n) v' \<and> backup v' = applySpec (qcowSource img) opts (backup v) \<and> vo_out v' = vo_out v
    | (Inl _, v') \<Rightarrow> vo_faults v \<noteq> [] \<and> sound (Suc n) v' \<and> failSpec (qcowSource img) opts (backup v) (backup v') \<and> vo_out v' = vo_out v"
    using ApplyCopy_image [OF fits(2) Cons.prems(1) _ fits(1)] Cons.prems(2) unfolding m by simp
  then have v': "sound (Suc n) v'" "backup v' = applySpec (qcowSource img) opts (backup v) \<or> failSpec (qcowSource img) opts (backup v) (backup v')"
    by (cases r; simp)+
  then have "length (fst (backup v')) \<le> im_VirtualSize img"
    using length_applySpec [of img opts "backup v"] length_failSpec [of img opts "backup v" "backup v'"] fits(1) by (auto simp: fitsImage_def)
  then have "sound (Suc n + length cs) (applyAll cs v') \<and> specRun cs (backup v') (backup (applyAll cs v'))"
    using Cons.prems(2) v'(1) fitting_mono [OF fits(3)] by (intro Cons.IH) auto
  then show ?case using v'(2) m by (auto simp: c intro: specRun.applied specRun.failed)
qed

theorem copies_refine_backup_witness:
  "specRun [(exampleOpened, exampleOptions), (exampleOpened, exampleOptions)] (backup exampleVolume)
     (backup (applyAll [(exampleOpened, exampleOptions), (exampleOpened, exampleOptions)] exampleVolume))"
proof -
  have fit: "fitting (length (fst (backup exampleVolume))) [(exampleOpened, exampleOptions), (exampleOpened, exampleOptions)]"
    using example_usable(1) example_fits by (simp add: example_sound fitsImage_def example_usable(2))
  show ?thesis by (rule conjunct2 [OF copies_refine_backup [OF example_sound(1) _ fit]]) simp
qed


section \<open>Limits\<close>

text \<open>A copy that is not too old for the restore point it makes to be kept.\<close>

definition keepsPoint :: "ApplyOptions \<Rightarrow> bool" where
  "keepsPoint opts \<longleftrightarrow> ao_Keep opts \<le> 0 \<or> ao_Now opts - ao_Keep opts \<le> ao_To opts"

lemma keptVersions_prefix:
  assumes "keepsPoint opts" "list_all (\<lambda>(f, t, P). t = ao_To opts) us"
  shows "\<exists>ws. keptVersions opts (us @ vs) = us @ ws"
proof (cases "ao_Keep opts > 0")
  case True
  let ?P = "\<lambda>(f :: int, t, P :: byte list). t < ao_Now opts - ao_Keep opts"
  have "list_all (\<lambda>x. \<not> ?P x) (rev us)"
    using assms True by (auto simp: keepsPoint_def list_all_iff)
  then have "dropWhile ?P (rev us) = rev us" by (cases "rev us") simp_all
  then have "dropWhile ?P (rev vs @ rev us) = dropWhile ?P (rev vs) @ rev us"
    by (simp add: dropWhile_append)
  then show ?thesis using True by (simp add: keptVersions_def)
qed (simp add: keptVersions_def)

lemma copied_again: "copied (qcowSource img) full (copied (qcowSource img) full D) = copied (qcowSource img) full D"
proof -
  have "newByte (qcowSource img) full (copied (qcowSource img) full D) i = newByte (qcowSource img) full D i"
    if "i < cs_Size (qcowSource img)" for i
  proof -
    have "byteAt (copied (qcowSource img) full D) i = newByte (qcowSource img) full D i"
      using that by (simp add: copied_def byteAt_def)
    then show ?thesis by (cases full) (simp_all add: newByte_def qcowSource_def split: option.splits)
  qed
  then show ?thesis by (simp add: copied_def)
qed

lemma ApplyCopy_done:
  assumes "imageUsable img []" "sound n v" "Suc n < 2 ^ 63" "fitsImage (fst (backup v)) img opts"
    "ApplyCopy (qcowSource img) opts v = (Inr r, v')"
  shows "sound (Suc n) v'" "backup v' = applySpec (qcowSource img) opts (backup v)" "vo_out v' = vo_out v"
    "fitsImage (fst (backup v')) img opts"
proof -
  have u: "imageUsable img (fst (backup v))" using assms(1) imageUsable_any by blast
  show s: "sound (Suc n) v'" "backup v' = applySpec (qcowSource img) opts (backup v)" "vo_out v' = vo_out v"
    using ApplyCopy_image [OF u assms(2-4)] assms(5) by simp_all
  show "fitsImage (fst (backup v')) img opts"
    using length_applySpec [of img opts "backup v"] s(2) assms(4) by (simp add: fitsImage_def)
qed

lemma ApplyCopy_calm:
  assumes "imageUsable img []" "sound n v" "Suc n < 2 ^ 63" "fitsImage (fst (backup v)) img opts" "vo_faults v = []"
  shows "\<exists>r v'. ApplyCopy (qcowSource img) opts v = (Inr r, v') \<and> vo_faults v' = []"
proof -
  have fits: "length (fst (backup v)) \<le> cs_Size (qcowSource img)" "int (cs_Size (qcowSource img)) \<le> maxDiskBytes"
    "int64_range (ao_From opts)" "int64_range (ao_To opts)"
    using assms(4) by (simp_all add: fitsImage_def qcowSource_def maxDiskBytes_def)
  have u: "imageUsable img (fst (backup v))" using assms(1) imageUsable_any by blast
  note run = qcow.apply_runs [OF u fits assms(3), of False "snd (backup v)" "vo_out v", simplified]
  have "runs False (\<lambda>w. sound n w \<and> backup w = backup v \<and> vo_out w = vo_out v) (ApplyCopy (qcowSource img) opts)
      (\<lambda>_ _. True) (\<lambda>_. False)"
    by (rule runs_weaken [OF run]) simp_all
  then show ?thesis using runs_returns [of _ _ "\<lambda>_ _. True" v] assms(2,5) by fastforce
qed

text \<open>
  C28: a copy that is applied again with the same times, as after a failure to remove its staging file. The
  disk is the same as after the first time, but there are now two restore points for the same moment, and the newer
  one has the new disk: rewinding to the moment gives the new disk, and no longer the one
  the copy replaced. It holds as long as the retry comes before the restore point is due for
  pruning.
\<close>

theorem repeated_copy_hides_version:
  assumes "Open f (length f) = Inr img" "Walk img = (exts, None)" "sound n v" "Suc (Suc n) < 2 ^ 63"
    "fitsImage D img opts" "backup v = (D, vs)" "vo_out v = None" "keepsPoint opts" "keepsPoint again"
    "ao_From again = ao_From opts \<and> ao_To again = ao_To opts \<and> ao_Full again = ao_Full opts"
    "ApplyCopy (qcowSource img) opts v = (Inr r1, v1)" "ApplyCopy (qcowSource img) again v1 = (Inr r2, v2)"
    "Rewind (ao_From opts) v2 = (Inr (), v3)"
  shows "\<exists>D' ws. D' = copied (qcowSource img) (ao_Full opts) D \<and> fst (backup v1) = D' \<and> vo_out v3 = Some D'
    \<and> backup v2 = (D', (ao_From opts, ao_To opts, D') # (ao_From opts, ao_To opts, D) # ws)"
proof -
  let ?D' = "copied (qcowSource img) (ao_Full opts) D"
  have u: "imageUsable img []" by (rule opened_usable [OF assms(1,2)])
  have fit: "fitsImage (fst (backup v)) img opts" using assms(5,6) by simp
  note v1 = ApplyCopy_done [OF u assms(3) _ fit assms(11)]
  then have "fitsImage (fst (backup v1)) img again" using assms(4,10) by (simp add: fitsImage_def)
  note v2 = ApplyCopy_done [OF u v1(1) assms(4) this assms(12)]
  obtain ws where ws: "backup v1 = (?D', (ao_From opts, ao_To opts, D) # ws)"
    using v1(2) assms(4,6) keptVersions_prefix [OF assms(8), of "[(ao_From opts, ao_To opts, D)]" vs]
    by (auto simp: applySpec_def)
  obtain xs where b2: "backup v2 = (?D', (ao_From opts, ao_To opts, ?D') # (ao_From opts, ao_To opts, D) # xs)"
    using v2(2) ws assms(4,10) copied_again [of img "ao_Full opts" D]
      keptVersions_prefix [OF assms(9), of "[(ao_From opts, ao_To opts, ?D'), (ao_From opts, ao_To opts, D)]" ws]
    by (auto simp: applySpec_def)
  have out: "sound (Suc (Suc n)) v2" "vo_out v2 = None" using v1(3) v2(1,3) assms(4,7) by simp_all
  obtain F where c: "calm F v2" by (auto simp: calm_def)
  have "vo_out v3 = Some ?D'"
    using runs_success [OF Rewind_runs _ c assms(13), of "Suc (Suc n)" "fst (backup v2)" "snd (backup v2)"] out b2 by simp
  then show ?thesis using ws b2 by simp
qed

theorem repeated_copy_hides_version_witness:
  "\<exists>r1 v1 r2 v2 v3 D'. ApplyCopy (qcowSource exampleOpened) exampleOptions exampleVolume = (Inr r1, v1)
     \<and> ApplyCopy (qcowSource exampleOpened) exampleOptions v1 = (Inr r2, v2)
     \<and> Rewind 100 v2 = (Inr (), v3) \<and> byteAt D' 5 = 7 \<and> vo_out v3 = Some D'
     \<and> snd (backup v2) = [(100, 200, D'), (100, 200, [5, 6])]"
proof -
  let ?opts = exampleOptions
  obtain r1 v1 where v1: "ApplyCopy (qcowSource exampleOpened) ?opts exampleVolume = (Inr r1, v1)" "sound 1 v1"
    "snd (backup v1) = [(100, 200, [5, 6])]" "vo_out v1 = None" "vo_faults v1 = []"
    using example_after by blast
  have fit: "fitsImage (fst (backup exampleVolume)) exampleOpened ?opts" using example_fits by (simp add: example_sound)
  have b1: "backup v1 = applySpec (qcowSource exampleOpened) ?opts (backup exampleVolume)"
    and fit1: "fitsImage (fst (backup v1)) exampleOpened ?opts"
    using ApplyCopy_done [OF example_usable(1) example_sound(1) _ fit v1(1)] by simp_all
  obtain r2 v2 where r2: "ApplyCopy (qcowSource exampleOpened) ?opts v1 = (Inr r2, v2)" "vo_faults v2 = []"
    using ApplyCopy_calm [OF example_usable(1) v1(2) _ fit1 v1(5)] by auto
  have v2: "sound (Suc 1) v2" "backup v2 = applySpec (qcowSource exampleOpened) ?opts (backup v1)" "vo_out v2 = None"
    using ApplyCopy_done [OF example_usable(1) v1(2) _ fit1 r2(1)] v1(4) by simp_all
  have "calm False v2" using r2(2) by (simp add: calm_def)
  obtain x v3 where m: "Rewind 100 v2 = (x, v3)" by (rule prod.exhaust)
  have "find (\<lambda>(f, t, P). f = 100) (snd (backup v2)) \<noteq> None"
    unfolding v2(2) by (cases "backup v1") (simp add: applySpec_def keptVersions_def exampleOptions_def)
  then have "x = Inr ()"
  proof (cases x)
    case (Inl e)
    have "sound (Suc 1) v2 \<and> backup v2 = (fst (backup v2), snd (backup v2)) \<and> vo_out v2 = None" using v2(1,3) by simp
    from runs_failure [OF Rewind_runs this \<open>calm False v2\<close> m [unfolded Inl]]
    show ?thesis using \<open>find (\<lambda>(f, t, P). f = 100) (snd (backup v2)) \<noteq> None\<close> by simp
  qed simp
  note r3 = m [unfolded this]
  have opened: "Open exampleImage (length exampleImage) = Inr exampleOpened" using exampleImage_Open by simp
  have k: "keepsPoint ?opts" and f: "ao_From ?opts = 100" "ao_To ?opts = 200" "vo_out exampleVolume = None" "ao_Full ?opts = False"
    by (simp_all add: keepsPoint_def exampleOptions_def exampleVolume_def)
  have "snd (backup v2) = (100, 200, fst (backup v1)) # [(100, 200, [5, 6])]"
    unfolding v2(2) using v1(3) by (cases "backup v1") (simp add: applySpec_def keptVersions_def exampleOptions_def)
  then show ?thesis
    using repeated_copy_hides_version [OF opened exampleImage_Walk example_sound(1) _ example_fits example_sound(2) f(3) k k _ v1(1) r2(1)
      r3 [folded f(1)]] example_copied v1(1) r2(1) r3 f by auto
qed

end
