(* ===== verification/Disk_View.thy ===== *)
theory Disk_View
  imports Undo_Volume "HOL-Library.List_Lexorder" "HOL-Library.Char_ord"
begin

text \<open>
  \<^verbatim>\<open>pkg/replication/diskview.go\<close> and \<^verbatim>\<open>diskview_source.go\<close>: a read-only view of a backup disk at an
  earlier moment that reads the undo files in place of writing a rewound disk. An open undo file is its bytes,
  since no operation writes an undo file after it was applied and a removed file stays readable through its handle. The disk of
  a volume is read from the volume at the time of the read. A view is read by one goroutine at a time here,
  so the compare-and-swap of its last check always succeeds, and the disk of a volume is one file throughout.
  The clock is an argument.
\<close>

section \<open>Views\<close>

record viewRec =
  vr_off :: nat
  vr_n :: nat
  vr_pos :: nat

record viewLayer =
  vl_f :: "byte list"
  vl_recs :: "viewRec list"
  vl_oldSize :: nat

text \<open>The disk of the volume that the view watches, or a disk that was handed in.\<close>

datatype viewBase = Watched | Given "byte list"

record DiskView =
  dv_disk :: viewBase
  dv_diskSize :: nat
  dv_diskMtime :: int
  dv_layers :: "viewLayer list"
  dv_size :: nat
  dv_moment :: int
  dv_momentKnown :: bool
  dv_latest :: bool
  dv_undoNames :: string
  dv_lastCheck :: int
  dv_changed :: bool

definition checkEvery :: int where
  "checkEvery = 2 * 10 ^ 9"

section \<open>Opening the undo files\<close>

definition readUndoHeaderFrom :: "byte list \<Rightarrow> string + undoHeader" where
  "readUndoHeaderFrom f =
     (let trailer = length undoEndMagic + 8; hdr = ReadAt f 0 40; stop = ReadAt f (length f - trailer) trailer in
      if length f < 40 + trailer then Inl ''not complete''
      else if take 8 hdr \<noteq> undoMagic then Inl ''no valid header''
      else if take (length undoEndMagic) stop \<noteq> undoEndMagic then Inl ''not complete''
      else
        let h = \<lparr>uh_from = sint (Uint64 (drop 8 hdr)), uh_to = sint (Uint64 (drop 16 hdr)),
                 uh_oldSize = sint (Uint64 (drop 24 hdr)), uh_newSize = sint (Uint64 (drop 32 hdr))\<rparr> in
        if uh_oldSize h < 0 \<or> uh_newSize h < 0 \<or> uh_oldSize h > maxDiskBytes \<or> uh_newSize h > maxDiskBytes
        then Inl ''bad header'' else Inr h)"

definition readUndoHeader :: "string \<Rightarrow> undoHeader action" where
  "readUndoHeader name = andThen (readFileUndo name) (\<lambda>f.
     case readUndoHeaderFrom f of Inl e \<Rightarrow> fail e | Inr h \<Rightarrow> return h)"

fun headerEntries :: "string list \<Rightarrow> undoFile list action" where
  "headerEntries [] = return []"
| "headerEntries (name # names) =
     (if \<not> has_suffix name undoApplied then headerEntries names
      else
        case atoi (trimSuffix name undoApplied) of
          None \<Rightarrow> headerEntries names
        | Some seq \<Rightarrow>
            andThen (readUndoHeader name) (\<lambda>h.
            andThen (headerEntries names) (\<lambda>files. return (\<lparr>uf_seq = seq, uf_path = name, uf_hdr = h\<rparr> # files))))"

definition undoHeaders :: "undoFile list action" where
  "undoHeaders =
     andThen undoEntries (\<lambda>entries.
     andThen (headerEntries (case entries of None \<Rightarrow> [] | Some names \<Rightarrow> names)) (\<lambda>files.
     return (sort_key uf_seq files)))"

text \<open>The call-back of \<open>indexUndo\<close> on the records of the file, with the end of the record before.\<close>

fun indexRecs :: "nat \<Rightarrow> (nat \<times> byte list \<times> nat) list \<Rightarrow> string + viewRec list" where
  "indexRecs prevEnd [] = Inr []"
| "indexRecs prevEnd ((off, data, pos) # recs) =
     (if off < prevEnd then Inl ''ErrUndoOrder''
      else case indexRecs (off + length data) recs of
        Inl e \<Rightarrow> Inl e
      | Inr rs \<Rightarrow> Inr (\<lparr>vr_off = off, vr_n = length data, vr_pos = pos\<rparr> # rs))"

definition indexUndo :: "string \<Rightarrow> viewLayer action" where
  "indexUndo name =
     andThen (readFileUndo name) (\<lambda>c.
       case readUndoFrom c of (recs, res) \<Rightarrow>
         (case indexRecs 0 recs of
            Inl e \<Rightarrow> fail e
          | Inr rs \<Rightarrow>
              (case res of
                 Inl e \<Rightarrow> fail e
               | Inr h \<Rightarrow> andThen (readFileUndo name) (\<lambda>f. return \<lparr>vl_f = f, vl_recs = rs, vl_oldSize = nat (uh_oldSize h)\<rparr>))))"

fun indexAll :: "undoFile list \<Rightarrow> viewLayer list action" where
  "indexAll [] = return []"
| "indexAll (u # us) = andThen (indexUndo (uf_path u)) (\<lambda>l. andThen (indexAll us) (\<lambda>ls. return (l # ls)))"

definition undoNames :: "string action" where
  "undoNames = andThen undoEntries (\<lambda>entries.
     return (join ''\<newline>'' (sort (case entries of None \<Rightarrow> [] | Some names \<Rightarrow> names))))"

section \<open>Opening a view\<close>

text \<open>The last file that starts at the chosen moment.\<close>

fun startIndex :: "int \<Rightarrow> nat \<Rightarrow> undoFile list \<Rightarrow> nat option \<Rightarrow> nat option" where
  "startIndex chosen i [] start = start"
| "startIndex chosen i (u # us) start =
     startIndex chosen (Suc i) us (if uh_from (uf_hdr u) = chosen then Some i else start)"

definition diskStat :: "(nat \<times> int) action" where
  "diskStat = sysCall (\<lambda>v. case vo_disk v of None \<Rightarrow> (Inl ''no such file'', v) | Some d \<Rightarrow> (Inr (length d, vo_mtime v), v))"

definition viewLayers :: "int option \<Rightarrow> undoFile list \<Rightarrow> viewLayer list action" where
  "viewLayers chosen fs =
     (case chosen of
        None \<Rightarrow> return []
      | Some c \<Rightarrow>
          (case startIndex c 0 fs None of
             None \<Rightarrow> fail ''no restore point''
           | Some start \<Rightarrow> indexAll (drop start fs)))"

definition OpenDiskView :: "int \<Rightarrow> int \<Rightarrow> DiskView action" where
  "OpenDiskView at now =
     andThen undoHeaders (\<lambda>files.
     andThen (stateFrom files) (\<lambda>st.
       if dt_Unfinished st then fail ''ErrCopyInProgress''
       else if dt_Modified st then fail ''the backup disk changed after its last copy''
       else
         case chooseMoment st at of
           Inl e \<Rightarrow> fail e
         | Inr chosen \<Rightarrow>
             andThen openDisk (\<lambda>_.
             andThen diskStat (\<lambda>(size, mtime).
             andThen (viewLayers chosen files) (\<lambda>layers.
             andThen undoNames (\<lambda>names.
             return \<lparr>dv_disk = Watched, dv_diskSize = size, dv_diskMtime = mtime, dv_layers = layers,
               dv_size = (if chosen = None then size else vl_oldSize (hd layers)),
               dv_moment = (case chosen of None \<Rightarrow> dt_Moment st | Some c \<Rightarrow> c),
               dv_momentKnown = (if chosen = None then dt_MomentKnown st else True), dv_latest = (chosen = None),
               dv_undoNames = names, dv_lastCheck = now, dv_changed = False\<rparr>))))))"

section \<open>A view on an undo source\<close>

text \<open>
  The interface \<^verbatim>\<open>UndoSource\<close>: the names in the folder and the bytes of a file. A read of an opened file that
  fails while it is scanned is a failure to open it here; a failing read for a view is one of \<open>readFull\<close>.
\<close>

datatype UndoUse = UndoHeader | UndoScan | UndoRead

record UndoSource =
  us_Names :: "string + string list"
  us_Open :: "string \<Rightarrow> UndoUse \<Rightarrow> string + byte list"

definition maxViewRecords :: int where
  "maxViewRecords = 2 * 2 ^ 20"

definition maxViewLayers :: nat where
  "maxViewLayers = 1024"

definition maxUndoFiles :: nat where
  "maxUndoFiles = 100000"

text \<open>\<^verbatim>\<open>^[0-9]{10,18}\.undo$\<close>.\<close>

definition undoNameRE :: "string \<Rightarrow> bool" where
  "undoNameRE s \<longleftrightarrow> has_suffix s undoApplied \<and> 15 \<le> length s \<and> length s \<le> 23 \<and> list_all is_digit (take (length s - 5) s)"

definition ValidUndoName :: "string \<Rightarrow> bool" where
  "ValidUndoName name \<longleftrightarrow> undoNameRE name \<and>
     (case atoi (trimSuffix name undoApplied) of None \<Rightarrow> False | Some seq \<Rightarrow> seq \<ge> 1 \<and> pad10 seq @ undoApplied = name)"

definition readHeaderOf :: "UndoSource \<Rightarrow> string \<Rightarrow> string + undoHeader" where
  "readHeaderOf src name = (case us_Open src name UndoHeader of Inl e \<Rightarrow> Inl e | Inr f \<Rightarrow> readUndoHeaderFrom f)"

text \<open>The numbers and names of the undo files, then their headers, each of which continues from the one before.\<close>

fun sourceNames :: "string list \<Rightarrow> (int \<times> string) list" where
  "sourceNames [] = []"
| "sourceNames (n # ns) =
     (if \<not> ValidUndoName n then sourceNames ns
      else case atoi (trimSuffix n undoApplied) of None \<Rightarrow> sourceNames ns | Some seq \<Rightarrow> (seq, n) # sourceNames ns)"

fun chainHeaders :: "UndoSource \<Rightarrow> int option \<Rightarrow> (int \<times> string) list \<Rightarrow> string + undoFile list" where
  "chainHeaders src prev [] = Inr []"
| "chainHeaders src prev ((seq, n) # ns) =
     (case readHeaderOf src n of
        Inl e \<Rightarrow> Inl e
      | Inr h \<Rightarrow>
          if (case prev of None \<Rightarrow> False | Some t \<Rightarrow> uh_from h \<noteq> t) then Inl ''ErrUndoOrder''
          else case chainHeaders src (Some (uh_to h)) ns of
            Inl e \<Rightarrow> Inl e
          | Inr us \<Rightarrow> Inr (\<lparr>uf_seq = seq, uf_path = n, uf_hdr = h\<rparr> # us))"

definition headersFrom :: "UndoSource \<Rightarrow> string + undoFile list" where
  "headersFrom src =
     (case us_Names src of
        Inl e \<Rightarrow> Inl e
      | Inr names \<Rightarrow>
          if length (sourceNames names) > maxUndoFiles then Inl ''too many undo files''
          else chainHeaders src None (sort_key fst (sourceNames names)))"

definition RestorePointsFrom :: "UndoSource \<Rightarrow> string + int list" where
  "RestorePointsFrom src =
     (case headersFrom src of Inl e \<Rightarrow> Inl e | Inr us \<Rightarrow> Inr (filter afterEpoch (map (\<lambda>u. uh_from (uf_hdr u)) us)))"

text \<open>The call-back of \<open>indexFrom\<close>, which also counts the records of all layers.\<close>

fun budgetRecs :: "nat \<Rightarrow> int \<Rightarrow> (nat \<times> byte list \<times> nat) list \<Rightarrow> string + viewRec list \<times> int" where
  "budgetRecs prevEnd budget [] = Inr ([], budget)"
| "budgetRecs prevEnd budget ((off, data, pos) # recs) =
     (if off < prevEnd then Inl ''ErrUndoOrder''
      else if budget - 1 < 0 then Inl ''too large to browse''
      else case budgetRecs (off + length data) (budget - 1) recs of
        Inl e \<Rightarrow> Inl e
      | Inr (rs, b) \<Rightarrow> Inr (\<lparr>vr_off = off, vr_n = length data, vr_pos = pos\<rparr> # rs, b))"

definition indexFrom :: "UndoSource \<Rightarrow> string \<Rightarrow> int \<Rightarrow> string + viewLayer \<times> int" where
  "indexFrom src name budget =
     (case us_Open src name UndoScan of
        Inl e \<Rightarrow> Inl e
      | Inr c \<Rightarrow>
          (case readUndoFrom c of (recs, res) \<Rightarrow>
            (case budgetRecs 0 budget recs of
               Inl e \<Rightarrow> Inl e
             | Inr (rs, b) \<Rightarrow>
                 (case res of
                    Inl e \<Rightarrow> Inl e
                  | Inr h \<Rightarrow>
                      (case us_Open src name UndoRead of
                         Inl e \<Rightarrow> Inl e
                       | Inr f \<Rightarrow> Inr (\<lparr>vl_f = f, vl_recs = rs, vl_oldSize = nat (uh_oldSize h)\<rparr>, b))))))"

fun indexAllFrom :: "UndoSource \<Rightarrow> int \<Rightarrow> undoFile list \<Rightarrow> string + viewLayer list" where
  "indexAllFrom src budget [] = Inr []"
| "indexAllFrom src budget (u # us) =
     (case indexFrom src (uf_path u) budget of
        Inl e \<Rightarrow> Inl e
      | Inr (l, b) \<Rightarrow> (case indexAllFrom src b us of Inl e \<Rightarrow> Inl e | Inr ls \<Rightarrow> Inr (l # ls)))"

definition OpenDiskViewFrom :: "byte list \<Rightarrow> nat \<Rightarrow> int \<Rightarrow> UndoSource \<Rightarrow> int \<Rightarrow> string + DiskView" where
  "OpenDiskViewFrom disk diskSize latest src at =
     (let d = \<lparr>dv_disk = Given disk, dv_diskSize = diskSize, dv_diskMtime = 0, dv_layers = [], dv_size = diskSize,
               dv_moment = zeroTime, dv_momentKnown = True, dv_latest = False, dv_undoNames = '''', dv_lastCheck = 0,
               dv_changed = False\<rparr> in
      case headersFrom src of
        Inl e \<Rightarrow> Inl e
      | Inr us \<Rightarrow>
          let points = filter afterEpoch (map (\<lambda>u. uh_from (uf_hdr u)) us);
              chosen = foldl (\<lambda>chosen p. if \<not> p > at then p else chosen) zeroTime points in
          if at = zeroTime \<or> \<not> at < latest then Inr (d\<lparr>dv_latest := True, dv_moment := latest\<rparr>)
          else if chosen = zeroTime then Inl ''ErrNoRestorePoint''
          else
            (case startIndex chosen 0 us None of
               None \<Rightarrow> Inl ''no restore point''
             | Some start \<Rightarrow>
                 if length us - start > maxViewLayers then Inl ''a view reaches back too far''
                 else
                   (case indexAllFrom src maxViewRecords (drop start us) of
                      Inl e \<Rightarrow> Inl e
                    | Inr layers \<Rightarrow> Inr (d\<lparr>dv_moment := chosen, dv_layers := layers, dv_size := vl_oldSize (hd layers)\<rparr>))))"

section \<open>Reading\<close>

definition viewCheck :: "DiskView \<Rightarrow> int \<Rightarrow> volume \<Rightarrow> (string + unit) \<times> DiskView \<times> volume" where
  "viewCheck d now v =
     (if dv_disk d \<noteq> Watched then (Inr (), d, v)
      else if dv_changed d then (Inl ''ErrDiskChanged'', d, v)
      else if now - dv_lastCheck d < checkEvery then (Inr (), d, v)
      else
        let d1 = d\<lparr>dv_lastCheck := now\<rparr>; (names, v1) = undoNames v; (info, v2) = diskStat v1 in
        if names = Inr (dv_undoNames d) \<and> info = Inr (dv_diskSize d, dv_diskMtime d) then (Inr (), d1, v2)
        else (Inl ''ErrDiskChanged'', d1\<lparr>dv_changed := True\<rparr>, v2))"

text \<open>\<^verbatim>\<open>sort.Search\<close>: a binary search for the first index with the property.\<close>

function searchLoop :: "(nat \<Rightarrow> bool) \<Rightarrow> nat \<Rightarrow> nat \<Rightarrow> nat" where
  "searchLoop f i j =
     (if i < j then let h = (i + j) div 2 in if \<not> f h then searchLoop f (Suc h) j else searchLoop f i h else i)"
  by auto
termination
  by (relation "measure (\<lambda>(f, i, j). j - i)") auto

declare searchLoop.simps [simp del]

definition sortSearch :: "nat \<Rightarrow> (nat \<Rightarrow> bool) \<Rightarrow> nat" where
  "sortSearch n f = searchLoop f 0 n"

text \<open>A read that must fill the buffer.\<close>

definition readFull :: "byte list \<Rightarrow> nat \<Rightarrow> nat \<Rightarrow> byte list action" where
  "readFull f pos n = sysCall (\<lambda>v. if length (ReadAt f pos n) < n then (Inl ''EOF'', v) else (Inr (ReadAt f pos n), v))"

fun fillRecs :: "byte list \<Rightarrow> viewRec list \<Rightarrow> nat \<Rightarrow> nat \<Rightarrow> byte list \<Rightarrow> byte list action" where
  "fillRecs f [] off stop win = return win"
| "fillRecs f (r # rs) off stop win =
     (if \<not> vr_off r < stop then return win
      else
        let from = max off (vr_off r); to = min stop (vr_off r + vr_n r) in
        andThen (readFull f (vr_pos r + (from - vr_off r)) (to - from)) (\<lambda>data.
        fillRecs f rs off stop (WriteAt win (from - off) data)))"

definition fillLayer :: "viewLayer \<Rightarrow> nat \<Rightarrow> nat \<Rightarrow> byte list \<Rightarrow> byte list action" where
  "fillLayer l off stop win =
     (let i = sortSearch (length (vl_recs l)) (\<lambda>i. vr_off (vl_recs l ! i) + vr_n (vl_recs l ! i) > off) in
      andThen (fillRecs (vl_f l) (drop i (vl_recs l)) off stop win) (\<lambda>win.
      return (if vl_oldSize l < stop then
          let k = max (vl_oldSize l) off - off in take k win @ replicate (length win - k) 0
        else win)))"

fun fillLayers :: "viewLayer list \<Rightarrow> nat \<Rightarrow> nat \<Rightarrow> byte list \<Rightarrow> byte list action" where
  "fillLayers [] off stop win = return win"
| "fillLayers (l # ls) off stop win = andThen (fillLayer l off stop win) (fillLayers ls off stop)"

definition readBase :: "DiskView \<Rightarrow> nat \<Rightarrow> nat \<Rightarrow> byte list action" where
  "readBase d off n = sysCall (\<lambda>v. (Inr (ReadAt (case dv_disk d of Watched \<Rightarrow> contents Disk v | Given f \<Rightarrow> f) off n), v))"

definition fill :: "DiskView \<Rightarrow> nat \<Rightarrow> nat \<Rightarrow> byte list action" where
  "fill d n off =
     (let stop = off + n; win = replicate n 0 in
      andThen (if off < dv_diskSize d then readBase d off (min stop (dv_diskSize d) - off) else return []) (\<lambda>data.
      fillLayers (rev (dv_layers d)) off stop (WriteAt win 0 data)))"

text \<open>The bytes read into a buffer of the length and whether the end of the disk was reached.\<close>

definition DiskView_ReadAt :: "DiskView \<Rightarrow> int \<Rightarrow> nat \<Rightarrow> int \<Rightarrow> volume \<Rightarrow> (string + byte list \<times> bool) \<times> DiskView \<times> volume" where
  "DiskView_ReadAt d now want off v =
     (if off < 0 then (Inl ''negative offset'', d, v)
      else
        case viewCheck d now v of
          (Inl e, d1, v1) \<Rightarrow> (Inl e, d1, v1)
        | (Inr _, d1, v1) \<Rightarrow>
            if off \<ge> int (dv_size d) then (Inr ([], True), d1, v1)
            else
              let n = min want (dv_size d - nat off) in
              (case fill d1 n (nat off) v1 of
                 (Inl e, v2) \<Rightarrow> (Inl e, d1, v2)
               | (Inr win, v2) \<Rightarrow> (Inr (win, n < want), d1, v2)))"

end
