(* ===== verification/Disk_View_Properties.thy ===== *)
theory Disk_View_Properties
  imports Undo_Properties Disk_View
begin

text \<open>
  A view shows the disk of its moment: what it reads is the part of the rewound disk that was asked for, byte by
  byte the same as the disk that rewinding writes.
\<close>

section \<open>Searching\<close>

definition splitsAt :: "(nat \<Rightarrow> bool) \<Rightarrow> nat \<Rightarrow> nat \<Rightarrow> nat \<Rightarrow> bool" where
  "splitsAt f n i j \<longleftrightarrow> i \<le> j \<and> j \<le> n \<and> (\<forall>k < i. \<not> f k) \<and> (\<forall>k. j \<le> k \<and> k < n \<longrightarrow> f k)"

lemma searchLoop_splits:
  assumes "\<And>k l. k \<le> l \<Longrightarrow> l < n \<Longrightarrow> f k \<Longrightarrow> f l"
  shows "splitsAt f n i j \<Longrightarrow> splitsAt f n (searchLoop f i j) (searchLoop f i j)"
proof (induction "j - i" arbitrary: i j rule: less_induct)
  case less
  define h where "h = (i + j) div 2"
  show ?case
  proof (cases "i < j")
    case True
    then have h: "i \<le> h" "h < j" "h < n" using less.prems by (auto simp: h_def splitsAt_def)
    have step: "searchLoop f i j = (if f h then searchLoop f i h else searchLoop f (Suc h) j)"
      using True by (subst searchLoop.simps) (simp add: h_def Let_def)
    have "\<not> f k" if "\<not> f h" "k \<le> h" for k using that assms [of k h] h by blast
    then have "splitsAt f n (Suc h) j" if "\<not> f h" using that less.prems h by (auto simp: splitsAt_def less_Suc_eq_le)
    moreover have "f k" if "f h" "h \<le> k" "k < n" for k using that assms [of h k] by blast
    then have "splitsAt f n i h" if "f h" using that less.prems h by (auto simp: splitsAt_def)
    ultimately show ?thesis using less.hyps [of h i] less.hyps [of j "Suc h"] h unfolding step by auto
  next
    case False
    then have "searchLoop f i j = i" by (subst searchLoop.simps) simp
    moreover have "i = j" using False less.prems by (simp add: splitsAt_def)
    ultimately show ?thesis using less.prems by simp
  qed
qed

lemma sortSearch_first:
  assumes "\<And>k l. k \<le> l \<Longrightarrow> l < n \<Longrightarrow> f k \<Longrightarrow> f l"
  shows "sortSearch n f \<le> n" "k < sortSearch n f \<Longrightarrow> \<not> f k" "sortSearch n f \<le> k \<Longrightarrow> k < n \<Longrightarrow> f k"
proof -
  have "splitsAt f n (sortSearch n f) (sortSearch n f)"
    unfolding sortSearch_def by (rule searchLoop_splits [OF assms]) (auto simp: splitsAt_def)
  then show "sortSearch n f \<le> n" "k < sortSearch n f \<Longrightarrow> \<not> f k" "sortSearch n f \<le> k \<Longrightarrow> k < n \<Longrightarrow> f k"
    by (auto simp: splitsAt_def)
qed

section \<open>Reading a volume\<close>

lemma runs_outcome:
  "runs F P m Q E \<Longrightarrow> P v \<Longrightarrow> calm F v \<Longrightarrow> m v = (r, v') \<Longrightarrow> case r of Inr x \<Rightarrow> Q x v' \<and> calm F v' | Inl e \<Rightarrow> E v'"
  using runs_success [of F P m Q E v _ v'] runs_failure [of F P m Q E v _ v'] by (cases r) simp_all

text \<open>The actions of a view only read: the volume stays the same but for the calls to come.\<close>

definition seen :: "volume \<Rightarrow> volume \<Rightarrow> bool" where
  "seen v0 v \<longleftrightarrow> (\<exists>fs. v = v0\<lparr>vo_faults := fs\<rparr>)"

lemma seen_refl [simp]: "seen v v"
  unfolding seen_def by (rule exI [of _ "vo_faults v"]) simp

lemma seen_fields:
  "seen v0 v \<Longrightarrow> vo_disk v = vo_disk v0 \<and> folder v = folder v0 \<and> vo_moment v = vo_moment v0 \<and> vo_mtime v = vo_mtime v0
     \<and> vo_undo v = vo_undo v0 \<and> contents Disk v = contents Disk v0 \<and> vo_out v = vo_out v0"
  by (auto simp: seen_def folder_def contents_def)

lemma seen_backup: "seen v0 v \<Longrightarrow> backup v = backup v0 \<and> (sound n v \<longleftrightarrow> sound n v0)"
  using seen_fields [of v0 v] by (simp add: backup_def sound_def)

lemma stable_seen [simp, intro]: "stable (seen v0)" "stable (\<lambda>v. A \<and> seen v0 v)"
  by (auto simp: stable_def seen_def)

text \<open>A call that reads gives what the volume holds, or an error with a reason.\<close>

lemma runs_reads:
  assumes "\<And>v. seen v0 v \<Longrightarrow> m v = (r, v)"
  shows "runs F (seen v0) (sysCall m) (\<lambda>x v. r = Inr x \<and> seen v0 v) (\<lambda>v. (F \<or> (\<exists>e. r = Inl e)) \<and> seen v0 v)"
  by (rule runs_sysCall) (use assms in \<open>auto split: sum.splits\<close>)

lemma runs_seen_file:
  "runs F (seen v0) (readFileUndo name) (\<lambda>c v. map_of (folder v0) name = Some c \<and> seen v0 v)
    (\<lambda>v. (F \<or> map_of (folder v0) name = None) \<and> seen v0 v)"
  unfolding readFileUndo_def
  by (rule runs_weaken [OF runs_reads [where r = "case_option (Inl ''no such file'') Inr (map_of (folder v0) name)"]])
    (auto dest: seen_fields split: option.splits)

lemma runs_seen_entries:
  "runs F (seen v0) undoEntries (\<lambda>x v. (case x of None \<Rightarrow> [] | Some ns \<Rightarrow> ns) = map fst (folder v0) \<and> seen v0 v) (\<lambda>v. F \<and> seen v0 v)"
  unfolding undoEntries_def
  by (rule runs_weaken [OF runs_reads [where r = "Inr (map_option (map fst) (vo_undo v0))"]])
    (auto dest: seen_fields simp: folder_def split: option.splits)

lemma runs_seen_names:
  "runs F (seen v0) undoNames (\<lambda>x v. x = join ''\<newline>'' (sort (map fst (folder v0))) \<and> seen v0 v) (\<lambda>v. F \<and> seen v0 v)"
  unfolding undoNames_def by (rule runs_andThen [OF runs_seen_entries]) (auto intro: runs_fact runs_return)

lemma runs_seen_stat:
  "vo_disk v0 = Some D \<Longrightarrow> runs F (seen v0) diskStat (\<lambda>x v. x = (length D, vo_mtime v0) \<and> seen v0 v) (\<lambda>v. F \<and> seen v0 v)"
  unfolding diskStat_def
  by (rule runs_weaken [OF runs_reads [where r = "Inr (length D, vo_mtime v0)"]]) (auto dest: seen_fields)

section \<open>The window of a read\<close>

text \<open>The bytes of a disk from an offset, with zeros past its end.\<close>

definition window :: "byte list \<Rightarrow> nat \<Rightarrow> byte list \<Rightarrow> bool" where
  "window D off win \<longleftrightarrow> (\<forall>i < length win. win ! i = byteAt D (off + i))"

definition toRec :: "nat \<times> byte list \<times> nat \<Rightarrow> viewRec" where
  "toRec = (\<lambda>(off, data, pos). \<lparr>vr_off = off, vr_n = length data, vr_pos = pos\<rparr>)"

abbreviation writeAll :: "byte list \<Rightarrow> (nat \<times> byte list \<times> nat) list \<Rightarrow> byte list" where
  "writeAll \<equiv> foldl (\<lambda>f (off, data, _). WriteAt f off data)"

text \<open>Records in order: each starts where the one before ends, or later.\<close>

fun inOrder :: "nat \<Rightarrow> (nat \<times> byte list \<times> nat) list \<Rightarrow> bool" where
  "inOrder e [] = True"
| "inOrder e ((off, data, pos) # recs) \<longleftrightarrow> e \<le> off \<and> inOrder (off + length data) recs"

lemma indexRecs_iff: "indexRecs e recs = (if inOrder e recs then Inr (map toRec recs) else Inl ''ErrUndoOrder'')"
  by (induction e recs rule: indexRecs.induct) (auto simp: toRec_def)

lemma inOrder_ge: "inOrder e recs \<Longrightarrow> r \<in> set recs \<Longrightarrow> e \<le> fst r"
  by (induction e recs rule: inOrder.induct) fastforce+

lemma inOrder_nth:
  "inOrder e recs \<Longrightarrow> k < l \<Longrightarrow> l < length recs \<Longrightarrow> fst (recs ! k) + length (fst (snd (recs ! k))) \<le> fst (recs ! l)"
proof (induction e recs arbitrary: k l rule: inOrder.induct)
  case (2 e off data pos recs)
  obtain l' where l: "l = Suc l'" using 2(3) by (cases l) auto
  show ?case
  proof (cases k)
    case 0
    then show ?thesis using 2 l inOrder_ge [of "off + length data" recs "recs ! l'"] by simp
  next
    case (Suc k')
    then show ?thesis using 2 l by simp
  qed
qed simp

lemma not_covered:
  "(\<And>r. r \<in> set recs \<Longrightarrow> i < fst r \<or> fst r + length (fst (snd r)) \<le> i) \<Longrightarrow> \<not> covered recs i"
  by (force simp: covered_def)

lemma window_skip:
  assumes "window D off win" "\<And>r. r \<in> set recs \<Longrightarrow> off + length win \<le> fst r \<or> fst r + length (fst (snd r)) \<le> off"
  shows "window (writeAll D recs) off win"
  unfolding window_def
proof (intro allI impI)
  fix i assume i: "i < length win"
  have "\<not> covered recs (off + i)" using assms(2) i by (intro not_covered) (meson add_le_cancel_left add_less_cancel_left le_add1 order_trans order.strict_trans2)
  then show "win ! i = byteAt (writeAll D recs) (off + i)"
    using byteAt_records [of D recs "off + i"] assms(1) i by (simp add: window_def)
qed

lemma window_write:
  assumes "window D off win" "data \<noteq> []" "o' < off + length win" "off < o' + length data" "ReadAt f pos (length data) = data"
  defines "lo \<equiv> max off o'" and "hi \<equiv> min (off + length win) (o' + length data)"
  defines "piece \<equiv> ReadAt f (pos + (lo - o')) (hi - lo)"
  shows "length piece = hi - lo" "length (WriteAt win (lo - off) piece) = length win"
    "window (WriteAt D o' data) off (WriteAt win (lo - off) piece)"
proof -
  have f: "lo \<le> hi" "off \<le> lo" "o' \<le> lo" "hi \<le> off + length win" "hi \<le> o' + length data" using assms(2-4) by (auto simp: lo_def hi_def)
  have lf: "length data \<le> length f - pos" using arg_cong [OF assms(5), of length] by (simp add: length_ReadAt min_def split: if_splits)
  have "0 < length data" using assms(2) by simp
  then show len: "length piece = hi - lo" using f lf by (simp add: piece_def length_ReadAt)
  show "length (WriteAt win (lo - off) piece) = length win" using len f by (auto simp: length_WriteAt)
  then show "window (WriteAt D o' data) off (WriteAt win (lo - off) piece)" unfolding window_def
  proof (intro allI impI)
    fix i assume i: "i < length (WriteAt win (lo - off) piece)" 
    then have iw: "i < length win" using \<open>length (WriteAt win (lo - off) piece) = length win\<close> by simp
    have "WriteAt win (lo - off) piece ! i = byteAt (WriteAt win (lo - off) piece) i" using i by (simp add: byteAt_def)
    also have "\<dots> = (if lo \<le> off + i \<and> off + i < hi then piece ! (i - (lo - off)) else byteAt win i)"
      using f len by (auto simp: byteAt_WriteAt)
    also have "\<dots> = byteAt (WriteAt D o' data) (off + i)"
    proof (cases "lo \<le> off + i \<and> off + i < hi")
      case True
      then have j: "i - (lo - off) < length piece" using len f by linarith
      have "piece ! (i - (lo - off)) = byteAt f (pos + (lo - o') + (i - (lo - off)))"
        using nth_ReadAt [OF j [unfolded piece_def]] by (simp add: piece_def)
      also have "pos + (lo - o') + (i - (lo - off)) = pos + (off + i - o')" using True f by linarith
      also have "byteAt f \<dots> = data ! (off + i - o')"
      proof -
        have "off + i - o' < length data" using True f by linarith
        then show ?thesis using nth_ReadAt [of "off + i - o'" f pos "length data"] assms(5) by simp
      qed
      finally show ?thesis using True f by (simp add: byteAt_WriteAt)
    next
      case False
      then have "\<not> (o' \<le> off + i \<and> off + i < o' + length data)" using iw by (auto simp: lo_def hi_def)
      then show ?thesis using False assms(1) iw by (simp add: byteAt_WriteAt window_def) (auto simp: byteAt_def)
    qed
    finally show "WriteAt win (lo - off) piece ! i = byteAt (WriteAt D o' data) (off + i)" .
  qed
qed

section \<open>Layers\<close>

text \<open>The data of a record is where the index says.\<close>

lemma positions_data:
  "(off, data, p) \<in> set (positions pos rs) \<Longrightarrow> length pre = pos \<Longrightarrow> ReadAt (pre @ concat (map encodeRecord rs) @ post) p (length data) = data"
proof (induction pos rs arbitrary: pre rule: positions.induct)
  case (2 pos o1 d1 recs)
  show ?case
  proof (cases "(off, data, p) = (o1, d1, pos + 16)")
    case True
    then show ?thesis using 2(3) by (simp add: ReadAt_def encodeRecord_def)
  next
    case False
    then have "(off, data, p) \<in> set (positions (pos + 16 + length d1) recs)" using 2(2) by auto
    then show ?thesis using 2(1) [of "pre @ encodeRecord (o1, d1)"] 2(3) by (simp add: length_encodeRecord)
  qed
qed simp

lemma undo_data:
  assumes "readUndoFrom c = (recs, Inr h)" "(off, data, p) \<in> set recs"
  shows "ReadAt c p (length data) = data" "data \<noteq> []"
proof -
  obtain rs where rs: "recs = positions 40 rs" "c = encodeUndo h rs" "list_all (recordOk (uh_oldSize h)) rs"
    using readUndoFrom_parsed [OF assms(1)] by blast
  then show "ReadAt c p (length data) = data"
    using positions_data [of off data p 40 rs "encodeHeader h"] assms(2) by (simp add: encodeUndo_def)
  have "(off, data) \<in> set (map (\<lambda>(off, data, p). (off, data)) recs)" using assms(2) by force
  then have "(off, data) \<in> set rs" by (simp add: rs(1))
  then show "data \<noteq> []" using rs(3) by (auto simp: list_all_iff recordOk_def)
qed

lemma runs_readFull:
  assumes "length (ReadAt f pos n) = n"
  shows "runs F (seen v0) (readFull f pos n) (\<lambda>x v. x = ReadAt f pos n \<and> seen v0 v) (\<lambda>v. F \<and> seen v0 v)"
  unfolding readFull_def by (rule runs_weaken [OF runs_reads [where r = "Inr (ReadAt f pos n)"]]) (use assms in auto)

lemma runs_fillRecs:
  assumes "inOrder e recs" "\<And>off data p. (off, data, p) \<in> set recs \<Longrightarrow> ReadAt f p (length data) = data \<and> data \<noteq> [] \<and> off0 < off + length data"
    and "window D off0 win" "length win = n"
  shows "runs F (seen v0) (fillRecs f (map toRec recs) off0 (off0 + n) win)
    (\<lambda>win' v. (window (writeAll D recs) off0 win' \<and> length win' = n) \<and> seen v0 v) (\<lambda>v. F \<and> seen v0 v)"
  using assms
proof (induction recs arbitrary: e D win)
  case Nil
  then show ?case by (simp add: runs_return)
next
  case (Cons r recs)
  obtain off data p where r: "r = (off, data, p)" by (rule prod_cases3)
  show ?case
  proof (cases "off < off0 + n")
    case True
    define lo hi where "lo = max off0 off" and "hi = min (off0 + n) (off + length data)"
    note w = window_write [OF Cons.prems(3), of data off f p, unfolded Cons.prems(4), folded lo_def hi_def]
    have d: "data \<noteq> []" "off0 < off + length data" "ReadAt f p (length data) = data" using Cons.prems(2) [of off data p] r by auto
    have read: "runs F (seen v0) (readFull f (p + (lo - off)) (hi - lo))
        (\<lambda>x v. x = ReadAt f (p + (lo - off)) (hi - lo) \<and> seen v0 v) (\<lambda>v. F \<and> seen v0 v)"
      by (rule runs_readFull [OF w(1) [OF d(1) True d(2,3)]])
    have rest: "runs F (seen v0) (fillRecs f (map toRec recs) off0 (off0 + n) (WriteAt win (lo - off0) (ReadAt f (p + (lo - off)) (hi - lo))))
        (\<lambda>win' v. (window (writeAll (WriteAt D off data) recs) off0 win' \<and> length win' = n) \<and> seen v0 v) (\<lambda>v. F \<and> seen v0 v)"
      using Cons.prems w(2,3) [OF d(1) True d(2,3)] by (intro Cons.IH [where e = "off + length data"]) (auto simp: r)
    have "runs F (seen v0) (andThen (readFull f (p + (lo - off)) (hi - lo))
        (\<lambda>data. fillRecs f (map toRec recs) off0 (off0 + n) (WriteAt win (lo - off0) data)))
        (\<lambda>win' v. (window (writeAll (WriteAt D off data) recs) off0 win' \<and> length win' = n) \<and> seen v0 v) (\<lambda>v. F \<and> seen v0 v)"
      by (rule runs_andThen [OF read runs_fact]) (simp only: rest)
    then show ?thesis using True by (simp add: r toRec_def Let_def lo_def hi_def)
  next
    case False
    have "window (writeAll D (r # recs)) off0 win"
    proof (rule window_skip [OF Cons.prems(3)])
      fix q assume "q \<in> set (r # recs)"
      then show "off0 + length win \<le> fst q \<or> fst q + length (fst (snd q)) \<le> off0"
        using inOrder_ge [of "off + length data" recs q] Cons.prems(1,4) False by (auto simp: r)
    qed
    then show ?thesis using False Cons.prems(4) by (simp add: r toRec_def runs_return)
  qed
qed

text \<open>The layer that indexing an undo file gives.\<close>

definition layerOf :: "byte list \<Rightarrow> viewLayer \<Rightarrow> bool" where
  "layerOf c l \<longleftrightarrow> (\<exists>recs h. readUndoFrom c = (recs, Inr h) \<and> inOrder 0 recs \<and>
     l = \<lparr>vl_f = c, vl_recs = map toRec recs, vl_oldSize = nat (uh_oldSize h)\<rparr>)"

lemma inOrder_drop: "inOrder e recs \<Longrightarrow> \<exists>e'. inOrder e' (drop k recs)"
proof (induction e recs arbitrary: k rule: inOrder.induct)
  case (2 e off data pos recs)
  then show ?case by (cases k) auto
qed simp

lemma search_records:
  fixes off :: nat
  assumes "inOrder 0 recs"
  defines "k \<equiv> sortSearch (length recs) (\<lambda>i. vr_off (map toRec recs ! i) + vr_n (map toRec recs ! i) > off)"
  shows "r \<in> set (take k recs) \<Longrightarrow> fst r + length (fst (snd r)) \<le> off" "r \<in> set (drop k recs) \<Longrightarrow> off < fst r + length (fst (snd r))"
proof -
  have at: "vr_off (map toRec recs ! i) + vr_n (map toRec recs ! i) = fst (recs ! i) + length (fst (snd (recs ! i)))" if "i < length recs" for i
    using that by (simp add: toRec_def split: prod.splits)
  have mono: "off < vr_off (map toRec recs ! j) + vr_n (map toRec recs ! j)"
    if "i \<le> j" "j < length recs" "off < vr_off (map toRec recs ! i) + vr_n (map toRec recs ! i)" for i j
    using that inOrder_nth [OF assms(1), of i j] at [of i] at [of j] by (cases "i = j") simp_all
  have first: "\<not> off < vr_off (map toRec recs ! i) + vr_n (map toRec recs ! i)" if "i < k" for i
    using that unfolding k_def by (rule sortSearch_first(2) [rotated]) (rule mono)
  have last: "off < vr_off (map toRec recs ! i) + vr_n (map toRec recs ! i)" if "k \<le> i" "i < length recs" for i
    using that unfolding k_def by (rule sortSearch_first(3) [rotated]) (rule mono)
  show "fst r + length (fst (snd r)) \<le> off" if r: "r \<in> set (take k recs)"
  proof -
    obtain i where i: "i < k" "i < length recs" "r = recs ! i" using r by (auto simp: in_set_conv_nth)
    then show ?thesis using first [of i] at [of i] by simp
  qed
  show "off < fst r + length (fst (snd r))" if r: "r \<in> set (drop k recs)"
  proof -
    obtain i where i: "i < length recs - k" "r = recs ! (k + i)" using r by (auto simp: in_set_conv_nth)
    then show ?thesis using last [of "k + i"] at [of "k + i"] by simp
  qed
qed

lemma window_cut:
  fixes size :: nat
  assumes "window D off win" "length win = n"
  defines "win' \<equiv> (if size < off + n then let k = max size off - off in take k win @ replicate (length win - k) 0 else win)"
  shows "window (Truncate size D) off win'" "length win' = n"
proof -
  have k: "max size off - off \<le> n" if "size < off + n" using that by simp
  then show "length win' = n" using assms(2) by (simp add: win'_def Let_def)
  have "win' ! i = (if off + i < size then win ! i else 0)" if "i < n" for i
    using that k assms(2) by (auto simp: win'_def Let_def nth_append max_def)
  then show "window (Truncate size D) off win'"
    using assms(1,2) \<open>length win' = n\<close> by (simp add: window_def byteAt_Truncate)
qed

lemma runs_fillLayer:
  assumes "layerOf c l" "window D off win" "length win = n"
  shows "runs F (seen v0) (fillLayer l off (off + n) win) (\<lambda>win' v. (window (rollBack c D) off win' \<and> length win' = n) \<and> seen v0 v) (\<lambda>v. F \<and> seen v0 v)"
proof -
  obtain recs h where c: "readUndoFrom c = (recs, Inr h)" "inOrder 0 recs"
    and l: "l = \<lparr>vl_f = c, vl_recs = map toRec recs, vl_oldSize = nat (uh_oldSize h)\<rparr>" using assms(1) by (auto simp: layerOf_def)
  define k where "k = sortSearch (length recs) (\<lambda>i. vr_off (map toRec recs ! i) + vr_n (map toRec recs ! i) > off)"
  note found = search_records [OF c(2), of _ off, folded k_def]
  obtain e where e: "inOrder e (drop k recs)" using inOrder_drop [OF c(2)] by blast
  have skip: "window (writeAll D (take k recs)) off win" using found(1) by (intro window_skip [OF assms(2)]) blast
  have data: "ReadAt c p (length data) = data \<and> data \<noteq> [] \<and> off < o' + length data" if "(o', data, p) \<in> set (drop k recs)" for o' data p
    using undo_data [OF c(1) in_set_dropD [OF that]] found(2) [OF that] by simp
  have all: "writeAll (writeAll D (take k recs)) (drop k recs) = writeAll D recs"
    by (simp flip: foldl_append)
  have rolled: "rollBack c D = Truncate (nat (uh_oldSize h)) (writeAll D recs)" by (simp add: rollBack_parsed [OF c(1)] undone_def)
  note cut = window_cut [of "writeAll D recs" off _ n "nat (uh_oldSize h)", unfolded Let_def]
  show ?thesis
    unfolding fillLayer_def l Let_def viewLayer.simps length_map k_def [symmetric] drop_map rolled
    by (rule runs_andThen [OF runs_fillRecs [OF e data skip assms(3)]], assumption, intro runs_fact runs_return conjI)
      (unfold all, (erule conjE, rule cut; assumption)+, assumption)
qed

lemma runs_fillLayers:
  assumes "list_all2 layerOf cs ls" "window D off win" "length win = n"
  shows "runs F (seen v0) (fillLayers ls off (off + n) win)
    (\<lambda>win' v. (window (foldl (\<lambda>f c. rollBack c f) D cs) off win' \<and> length win' = n) \<and> seen v0 v) (\<lambda>v. F \<and> seen v0 v)"
  using assms
proof (induction cs ls arbitrary: D win rule: list_all2_induct)
  case Nil
  then show ?case by (simp add: runs_return)
next
  case (Cons c cs l ls)
  show ?case unfolding fillLayers.simps foldl_Cons
    by (intro runs_andThen [OF runs_fillLayer [OF Cons(1,4,5)]] runs_fact Cons(3)) simp_all
qed

section \<open>Reading a view\<close>

definition baseOf :: "DiskView \<Rightarrow> volume \<Rightarrow> byte list" where
  "baseOf d v = (case dv_disk d of Watched \<Rightarrow> contents Disk v | Given f \<Rightarrow> f)"

text \<open>The view stands for a disk, and the backup it watches is as it was when the view was opened.\<close>

definition showing :: "DiskView \<Rightarrow> byte list \<Rightarrow> volume \<Rightarrow> bool" where
  "showing d P v \<longleftrightarrow> (\<exists>cs. list_all2 layerOf cs (dv_layers d) \<and> P = foldl (\<lambda>f c. rollBack c f) (baseOf d v) (rev cs))
     \<and> dv_size d = length P \<and> dv_diskSize d = length (baseOf d v)
     \<and> (dv_disk d = Watched \<longrightarrow> vo_disk v \<noteq> None \<and> dv_undoNames d = join ''\<newline>'' (sort (map fst (folder v))) \<and> dv_diskMtime d = vo_mtime v)"

lemma baseOf_seen: "seen v0 v \<Longrightarrow> baseOf d v = baseOf d v0"
  by (auto simp: baseOf_def dest: seen_fields split: viewBase.splits)

lemma showing_seen: "seen v0 v \<Longrightarrow> showing d P v \<longleftrightarrow> showing d P v0"
  using seen_fields [of v0 v] by (simp add: showing_def baseOf_seen)

lemma showing_update [simp]:
  "showing (d\<lparr>dv_lastCheck := t\<rparr>) P v \<longleftrightarrow> showing d P v" "showing (d\<lparr>dv_changed := b\<rparr>) P v \<longleftrightarrow> showing d P v"
  by (simp_all add: showing_def baseOf_def)

lemma runs_fill:
  assumes "showing d P v0" "off + n \<le> length P"
  shows "runs F (seen v0) (fill d n off) (\<lambda>win v. win = take n (drop off P) \<and> seen v0 v) (\<lambda>v. F \<and> seen v0 v)"
proof -
  define D where "D = baseOf d v0"
  obtain cs where cs: "list_all2 layerOf cs (dv_layers d)" "P = foldl (\<lambda>f c. rollBack c f) D (rev cs)" and size: "dv_diskSize d = length D"
    using assms(1) by (auto simp: showing_def D_def)
  let ?m = "if off < length D then ReadAt D off (min (off + n) (length D) - off) else []"
  have base: "runs F (seen v0) (if off < dv_diskSize d then readBase d off (min (off + n) (dv_diskSize d) - off) else return [])
      (\<lambda>x v. x = ?m \<and> seen v0 v) (\<lambda>v. F \<and> seen v0 v)"
  proof (cases "off < length D")
    case True
    have "runs F (seen v0) (readBase d off (min (off + n) (length D) - off)) (\<lambda>x v. x = ?m \<and> seen v0 v) (\<lambda>v. F \<and> seen v0 v)"
      unfolding readBase_def baseOf_def [symmetric]
      by (rule runs_weaken [OF runs_reads [where r = "Inr ?m"]]) (use True in \<open>auto simp: D_def baseOf_seen\<close>)
    then show ?thesis using True size by simp
  qed (simp add: size runs_return)
  have len: "length (WriteAt (replicate n 0) 0 ?m) = n" by (simp add: length_WriteAt length_ReadAt)
  have win: "window D off (WriteAt (replicate n 0) 0 ?m)" unfolding window_def
  proof (intro allI impI)
    fix i assume "i < length (WriteAt (replicate n 0) 0 ?m)"
    then have i: "i < n" using len by simp
    then have "WriteAt (replicate n 0) 0 ?m ! i = byteAt (WriteAt (replicate n 0) 0 ?m) i" using len by (simp add: byteAt_def)
    also have "\<dots> = (if i < length ?m then ?m ! i else 0)" by (simp add: byteAt_WriteAt)
    also have "\<dots> = byteAt D (off + i)" using i nth_ReadAt [of i D off "min (off + n) (length D) - off"] by (auto simp: length_ReadAt byteAt_end)
    finally show "WriteAt (replicate n 0) 0 ?m ! i = byteAt D (off + i)" .
  qed
  have layers: "runs F (seen v0) (fillLayers (rev (dv_layers d)) off (off + n) (WriteAt (replicate n 0) 0 ?m))
      (\<lambda>win v. (window P off win \<and> length win = n) \<and> seen v0 v) (\<lambda>v. F \<and> seen v0 v)"
    unfolding cs(2) by (rule runs_fillLayers [OF _ win len]) (use cs(1) in simp)
  have "win = take n (drop off P)" if "window P off win" "length win = n" for win
    using that assms(2) by (intro nth_equalityI) (auto simp: window_def byteAt_def)
  then have "runs F (seen v0) (fillLayers (rev (dv_layers d)) off (off + n) (WriteAt (replicate n 0) 0 ?m))
      (\<lambda>win v. win = take n (drop off P) \<and> seen v0 v) (\<lambda>v. F \<and> seen v0 v)"
    by (intro runs_weaken [OF layers]) blast+
  then show ?thesis unfolding fill_def Let_def by (intro runs_andThen [OF base] runs_fact) (simp only:)
qed

lemma viewCheck_showing:
  assumes "showing d P v" "viewCheck d now v = (r, d', v')"
  shows "seen v v' \<and> showing d' P v' \<and> dv_size d' = dv_size d \<and> (vo_faults v = [] \<longrightarrow> vo_faults v' = [])
    \<and> (vo_faults v = [] \<and> \<not> dv_changed d \<longrightarrow> r = Inr () \<and> \<not> dv_changed d')"
proof (cases "dv_disk d \<noteq> Watched \<or> dv_changed d \<or> now - dv_lastCheck d < checkEvery")
  case True
  then show ?thesis using assms by (auto simp: viewCheck_def split: if_splits)
next
  case False
  obtain D where D: "vo_disk v = Some D" "dv_diskSize d = length D" "dv_undoNames d = join ''\<newline>'' (sort (map fst (folder v)))" "dv_diskMtime d = vo_mtime v"
    using assms(1) False by (auto simp: showing_def baseOf_def contents_def)
  obtain names v1 where n: "undoNames v = (names, v1)" by (rule prod.exhaust)
  obtain info v2 where i: "diskStat v1 = (info, v2)" by (rule prod.exhaust)
  let ?F = "vo_faults v \<noteq> []"
  have c: "calm ?F v" by (simp add: calm_def)
  have 1: "seen v v1 \<and> calm ?F v1 \<and> (?F \<or> names = Inr (dv_undoNames d))"
    using runs_outcome [OF runs_seen_names seen_refl c n] D(3) by (cases names) (simp_all add: calm_def)
  have "case info of Inr x \<Rightarrow> (x = (length D, vo_mtime v) \<and> seen v v2) \<and> calm ?F v2 | Inl e \<Rightarrow> ?F \<and> seen v v2"
    using 1 by (intro runs_outcome [OF runs_seen_stat [OF D(1)] _ _ i]) simp_all
  then have 2: "seen v v2 \<and> calm ?F v2 \<and> (?F \<or> info = Inr (dv_diskSize d, dv_diskMtime d))"
    using D(2,4) by (cases info) (simp_all add: calm_def)
  let ?ok = "names = Inr (dv_undoNames d) \<and> info = Inr (dv_diskSize d, dv_diskMtime d)"
  have "(r, d', v') = (if ?ok then (Inr (), d\<lparr>dv_lastCheck := now\<rparr>, v2) else (Inl ''ErrDiskChanged'', d\<lparr>dv_lastCheck := now, dv_changed := True\<rparr>, v2))"
    using assms(2) False by (simp add: viewCheck_def Let_def n i)
  then show ?thesis using 1 2 assms(1) False showing_seen [of v v2 d P] by (cases ?ok) (simp_all add: calm_def)
qed

text \<open>A read at the end of the disk or past it says so; any other gives the bytes asked for.\<close>

definition goodRead :: "byte list \<Rightarrow> bool \<Rightarrow> nat \<Rightarrow> int \<Rightarrow> string + byte list \<times> bool \<Rightarrow> bool" where
  "goodRead P F want off res \<longleftrightarrow>
     (case res of
        Inr (data, eof) \<Rightarrow> 0 \<le> off \<and> data = take want (drop (nat off) P) \<and> (eof \<longleftrightarrow> int (length P) \<le> off \<or> length data < want)
      | Inl e \<Rightarrow> off < 0 \<or> F)"

lemma ReadAt_showing:
  assumes "showing d P v" "DiskView_ReadAt d now want off v = (res, d', v')" "dv_changed d \<longrightarrow> F" "calm F v"
  shows "goodRead P F want off res \<and> showing d' P v' \<and> seen v v' \<and> (dv_changed d' \<longrightarrow> F) \<and> calm F v'"
proof (cases "off < 0")
  case True
  then show ?thesis using assms by (auto simp: DiskView_ReadAt_def goodRead_def)
next
  case False
  obtain r d1 v1 where ch: "viewCheck d now v = (r, d1, v1)" by (rule prod_cases3)
  have size: "dv_size d = length P" using assms(1) by (simp add: showing_def)
  have c: "seen v v1" "showing d1 P v1" "vo_faults v = [] \<longrightarrow> vo_faults v1 = []" "vo_faults v = [] \<and> \<not> dv_changed d \<longrightarrow> r = Inr () \<and> \<not> dv_changed d1"
    using viewCheck_showing [OF assms(1) ch] by simp_all
  have calm1: "calm F v1" "dv_changed d1 \<longrightarrow> F" "F \<or> r = Inr ()" using c(3,4) assms(3,4) by (auto simp: calm_def)
  show ?thesis
  proof (cases "(\<exists>e. r = Inl e) \<or> int (length P) \<le> off")
    case True
    have "(res, d', v') = (case r of Inl e \<Rightarrow> (Inl e, d1, v1) | Inr _ \<Rightarrow> (Inr ([], True), d1, v1))"
      using assms(2) False True by (cases r) (simp_all add: DiskView_ReadAt_def ch size)
    then have "res = (case r of Inl e \<Rightarrow> Inl e | Inr _ \<Rightarrow> Inr ([], True))" "d' = d1" "v' = v1" by (cases r; simp)+
    then show ?thesis using True False c(1,2) calm1 by (cases r) (simp_all add: goodRead_def)
  next
    case ok: False
    then have off: "nat off < length P" and r: "r = Inr ()" using False by (cases r; auto)+
    let ?n = "min want (length P - nat off)"
    obtain x v2 where f: "fill d1 ?n (nat off) v1 = (x, v2)" by (rule prod.exhaust)
    have fill: "runs F (seen v1) (fill d1 ?n (nat off)) (\<lambda>win v. win = take ?n (drop (nat off) P) \<and> seen v1 v) (\<lambda>v. F \<and> seen v1 v)"
      using off by (intro runs_fill [OF c(2)]) simp
    note x = runs_outcome [OF fill seen_refl calm1(1) f]
    have "take ?n (drop (nat off) P) = take want (drop (nat off) P)" by (simp add: min_def)
    moreover have "seen v v2" if "seen v1 v2" using that c(1) by (auto simp: seen_def)
    moreover have "(res, d', v') = (case x of Inl e \<Rightarrow> (Inl e, d1, v2) | Inr win \<Rightarrow> (Inr (win, ?n < want), d1, v2))"
      using assms(2) False ok by (simp add: DiskView_ReadAt_def Let_def ch r f size)
    then have "res = (case x of Inl e \<Rightarrow> Inl e | Inr win \<Rightarrow> Inr (win, ?n < want))" "d' = d1" "v' = v2" by (cases x; simp)+
    ultimately show ?thesis using x calm1 c(2) off False showing_seen [of v1 v2 d1 P]
      by (cases x) (simp_all add: goodRead_def calm_def min_def not_less split: if_splits)
  qed
qed

section \<open>Opening a view\<close>

lemma readUndoHeaderFrom_valid:
  assumes "readUndoFrom c = (recs, Inr h)"
  shows "readUndoHeaderFrom c = Inr h"
proof -
  obtain rs where c: "c = encodeUndo h rs" and h: "headerOk h" using readUndoFrom_parsed [OF assms] by blast
  have rng: "int64_range (uh_oldSize h)" "int64_range (uh_newSize h)"
    using h by (simp_all add: headerOk_def maxDiskBytes_def int64_range_def)
  have hdr: "ReadAt c 0 40 = encodeHeader h" by (simp add: ReadAt_def c encodeUndo_def)
  have stop: "ReadAt c (length c - 16) 16 = undoEndMagic @ PutUint64 (of_nat (length rs))"
    by (simp add: ReadAt_def c encodeUndo_def)
  have "take 8 (encodeHeader h) = undoMagic" "sint (Uint64 (drop 8 (encodeHeader h))) = uh_from h" "sint (Uint64 (drop 16 (encodeHeader h))) = uh_to h"
    "sint (Uint64 (drop 24 (encodeHeader h))) = uh_oldSize h" "sint (Uint64 (drop 32 (encodeHeader h))) = uh_newSize h"
    using h rng by (simp_all add: encodeHeader_def headerOk_def int64_uint64)
  moreover have "40 + 16 \<le> length c" by (simp add: c encodeUndo_def)
  ultimately show ?thesis using h by (simp add: readUndoHeaderFrom_def Let_def hdr stop headerOk_def)
qed

text \<open>The disk of the volume and its undo files by number and stage.\<close>

definition holds :: "nat \<Rightarrow> slot list \<Rightarrow> byte list \<Rightarrow> volume \<Rightarrow> bool" where
  "holds n S D v \<longleftrightarrow> wellFormed n S \<and> vo_disk v = Some D \<and> folder v = files S"

lemma seen_slot:
  assumes "holds n S D v0" "((s, st), c) \<in> set S"
  shows "runs F (seen v0) (readFileUndo (nameOf (s, st))) (\<lambda>x v. x = c \<and> seen v0 v) (\<lambda>v. F \<and> seen v0 v)"
proof -
  have "map_of (folder v0) (nameOf (s, st)) = Some c" using assms by (simp add: holds_def wellFormed_def)
  then show ?thesis by (intro runs_weaken [OF runs_seen_file]) auto
qed

lemma runs_headerEntries:
  assumes "holds n S D v0" "set T \<subseteq> set S"
  shows "runs F (seen v0) (headerEntries (map nameOf (map fst T)))
    (\<lambda>fs v. fs = map (\<lambda>((s, st), c). fileOf (int s, c)) (filter (\<lambda>((s, st), c). st = Applied) T) \<and> seen v0 v) (\<lambda>v. F \<and> seen v0 v)"
  using assms(2)
proof (induction T)
  case Nil
  then show ?case by (simp add: runs_return)
next
  case (Cons p T)
  obtain s st c where p: "p = ((s, st), c)" by (cases p) auto
  have s: "s < 2 ^ 63" and c: "st = Applied \<Longrightarrow> \<exists>recs h. readUndoFrom c = (recs, Inr h)"
    using assms(1) Cons.prems by (auto simp: holds_def wellFormed_def slotOk_def p)
  show ?case
  proof (cases "st = Applied")
    case True
    then obtain recs h where h: "readUndoFrom c = (recs, Inr h)" using c by blast
    have head: "runs F (seen v0) (readUndoHeader (nameOf (s, st))) (\<lambda>x v. x = h \<and> seen v0 v) (\<lambda>v. F \<and> seen v0 v)"
      unfolding readUndoHeader_def using Cons.prems
      by (intro runs_andThen [OF seen_slot [OF assms(1), of s st c]] runs_fact) (simp_all add: p readUndoHeaderFrom_valid [OF h] runs_return)
    let ?tail = "map (\<lambda>((s, st), c). fileOf (int s, c)) (filter (\<lambda>((s, st), c). st = Applied) T)"
    have tail: "runs F (seen v0) (headerEntries (map nameOf (map fst T))) (\<lambda>fs v. fs = ?tail \<and> seen v0 v) (\<lambda>v. F \<and> seen v0 v)"
      using Cons by simp
    have "runs F (seen v0) (andThen (readUndoHeader (nameOf (s, st))) (\<lambda>h. andThen (headerEntries (map nameOf (map fst T))) (\<lambda>files.
        return (\<lparr>uf_seq = int s, uf_path = nameOf (s, st), uf_hdr = h\<rparr> # files)))) (\<lambda>fs v. fs = fileOf (int s, c) # ?tail \<and> seen v0 v) (\<lambda>v. F \<and> seen v0 v)"
      by (rule runs_andThen [OF head runs_fact], rule runs_andThen [OF tail runs_fact], rule runs_return) (simp add: fileOf_def h True)
    then show ?thesis using True s by (simp add: p atoi_pad10)
  next
    case False
    then show ?thesis using Cons by (simp add: p)
  qed
qed

lemma runs_undoHeaders:
  assumes "holds n S D v0"
  shows "runs F (seen v0) undoHeaders (\<lambda>fs v. fs = map fileOf (points S) \<and> seen v0 v) (\<lambda>v. F \<and> seen v0 v)"
  unfolding undoHeaders_def
proof (intro runs_andThen [OF runs_seen_entries] runs_fact)
  fix x :: "string list option"
  assume "(case x of None \<Rightarrow> [] | Some ns \<Rightarrow> ns) = map fst (folder v0)"
  then have x: "(case x of None \<Rightarrow> [] | Some ns \<Rightarrow> ns) = map nameOf (map fst S)" using assms by (simp add: holds_def)
  show "runs F (seen v0) (andThen (headerEntries (case x of None \<Rightarrow> [] | Some names \<Rightarrow> names)) (\<lambda>files. return (sort_key uf_seq files)))
    (\<lambda>fs v. fs = map fileOf (points S) \<and> seen v0 v) (\<lambda>v. F \<and> seen v0 v)"
    unfolding x by (intro runs_andThen [OF runs_headerEntries [OF assms subset_refl]] runs_fact runs_return) (simp add: files_points)
qed

lemma runs_indexUndo:
  assumes "holds n S D v0" "((s, Applied), c) \<in> set S"
  shows "runs F (seen v0) (indexUndo (nameOf (s, Applied))) (\<lambda>l v. layerOf c l \<and> seen v0 v)
    (\<lambda>v. (F \<or> \<not> inOrder 0 (fst (readUndoFrom c))) \<and> seen v0 v)"
proof -
  obtain recs h where c: "readUndoFrom c = (recs, Inr h)" using assms by (fastforce simp: holds_def wellFormed_def slotOk_def)
  let ?E = "\<lambda>v. (F \<or> \<not> inOrder 0 recs) \<and> seen v0 v"
  have read: "runs F (seen v0) (readFileUndo (nameOf (s, Applied))) (\<lambda>x v. x = c \<and> seen v0 v) ?E"
    by (rule runs_weaken [OF seen_slot [OF assms]]) simp_all
  let ?rest = "\<lambda>c. case readUndoFrom c of (recs, res) \<Rightarrow> (case indexRecs 0 recs of Inl e \<Rightarrow> fail e | Inr rs \<Rightarrow> (case res of Inl e \<Rightarrow> fail e
    | Inr h \<Rightarrow> andThen (readFileUndo (nameOf (s, Applied))) (\<lambda>f. return \<lparr>vl_f = f, vl_recs = rs, vl_oldSize = nat (uh_oldSize h)\<rparr>)))"
  have "runs F (seen v0) (?rest c) (\<lambda>l v. layerOf c l \<and> seen v0 v) ?E"
  proof (cases "inOrder 0 recs")
    case True
    then have "layerOf c \<lparr>vl_f = c, vl_recs = map toRec recs, vl_oldSize = nat (uh_oldSize h)\<rparr>" using c by (auto simp: layerOf_def)
    then have "runs F (seen v0) (andThen (readFileUndo (nameOf (s, Applied)))
        (\<lambda>f. return \<lparr>vl_f = f, vl_recs = map toRec recs, vl_oldSize = nat (uh_oldSize h)\<rparr>)) (\<lambda>l v. layerOf c l \<and> seen v0 v) ?E"
      by (intro runs_andThen [OF read runs_fact] runs_return) simp
    then show ?thesis using True by (simp add: c indexRecs_iff)
  qed (simp add: c indexRecs_iff runs_fail)
  then have "runs F (seen v0) (indexUndo (nameOf (s, Applied))) (\<lambda>l v. layerOf c l \<and> seen v0 v) ?E"
    unfolding indexUndo_def by (intro runs_andThen [OF read runs_fact]) (simp only:)
  then show ?thesis by (simp add: c)
qed

lemma runs_indexAll:
  assumes "holds n S D v0" "set us \<subseteq> set (points S)"
  shows "runs F (seen v0) (indexAll (map fileOf us)) (\<lambda>ls v. list_all2 layerOf (map snd us) ls \<and> seen v0 v)
    (\<lambda>v. (F \<or> (\<exists>p \<in> set us. \<not> inOrder 0 (fst (readUndoFrom (snd p))))) \<and> seen v0 v)"
  using assms(2)
proof (induction us)
  case Nil
  then show ?case by (simp add: runs_return)
next
  case (Cons p us)
  obtain s c where p: "p = (s, c)" by (cases p)
  let ?E = "\<lambda>v. (F \<or> (\<exists>p \<in> set (p # us). \<not> inOrder 0 (fst (readUndoFrom (snd p))))) \<and> seen v0 v"
  have m: "((nat s, Applied), c) \<in> set S" using Cons.prems points_member [of s c S] p by simp
  have path: "uf_path (fileOf p) = nameOf (nat s, Applied)" by (simp add: p fileOf_def)
  have head: "runs F (seen v0) (indexUndo (uf_path (fileOf p))) (\<lambda>l v. layerOf c l \<and> seen v0 v) ?E"
    unfolding path by (rule runs_weaken [OF runs_indexUndo [OF assms(1) m]]) (auto simp: p)
  have tail: "runs F (seen v0) (indexAll (map fileOf us)) (\<lambda>ls v. list_all2 layerOf (map snd us) ls \<and> seen v0 v) ?E"
    by (rule runs_weaken [OF Cons.IH]) (use Cons.prems in auto)
  show ?case unfolding list.map indexAll.simps
    by (rule runs_andThen [OF head runs_fact], rule runs_andThen [OF tail runs_fact], rule runs_return) (simp add: p)
qed

text \<open>Both ways to find the restore point take the last file that starts at the moment.\<close>

lemma startIndex_snoc:
  "startIndex c i (us @ [u]) st = (if uh_from (uf_hdr u) = c then Some (i + length us) else startIndex c i us st)"
  by (induction us arbitrary: i st) auto

lemma startIndex_stopAt: "map_option (\<lambda>i. drop i us) (startIndex c 0 us None) = stopAt c us \<and> (\<forall>i. startIndex c 0 us None = Some i \<longrightarrow> i < length us)"
proof (induction us rule: rev_induct)
  case (snoc u us)
  show ?case
  proof (cases "uh_from (uf_hdr u) = c")
    case True
    then show ?thesis by (simp add: startIndex_snoc stopAt_def)
  next
    case False
    let ?l = "length (takeWhile (\<lambda>u. uh_from (uf_hdr u) \<noteq> c) (rev us))"
    have "?l \<le> length us" using length_takeWhile_le [of _ "rev us"] by simp
    then have "stopAt c (us @ [u]) = map_option (\<lambda>l. l @ [u]) (stopAt c us)"
      using False by (auto simp: stopAt_def Let_def)
    then show ?thesis using False snoc [THEN conjunct1, symmetric] snoc [THEN conjunct2]
      by (cases "startIndex c 0 us None") (auto simp: startIndex_snoc)
  qed
qed (simp add: stopAt_def)

section \<open>The state of a disk\<close>

text \<open>
  The state of a disk by its backup: its moment is when its newest version was replaced, or what the moment
  file says, and the restore points are the versions made after the epoch, oldest first.
\<close>

definition momentOf :: "volume \<Rightarrow> int option" where
  "momentOf v = (case snd (backup v) of
     (f, t, P) # vs \<Rightarrow> Some t
   | [] \<Rightarrow> (case vo_moment v of None \<Rightarrow> None | Some m \<Rightarrow> if mf_Moment m = zeroTime then None else Some (mf_Moment m)))"

definition unfinished :: "volume \<Rightarrow> bool" where
  "unfinished v \<longleftrightarrow> (\<exists>(name, c) \<in> set (folder v). has_suffix name undoReady)"

definition stateOf :: "volume \<Rightarrow> DiskState" where
  "stateOf v = \<lparr>dt_Moment = (case momentOf v of None \<Rightarrow> zeroTime | Some t \<Rightarrow> t), dt_MomentKnown = (momentOf v \<noteq> None),
     dt_VMGroup = (case vo_moment v of None \<Rightarrow> '''' | Some m \<Rightarrow> mf_VMGroup m),
     dt_RestorePoints = filter afterEpoch (rev (map fst (snd (backup v)))),
     dt_Unfinished = unfinished v,
     dt_Modified = (case vo_moment v of None \<Rightarrow> False
       | Some m \<Rightarrow> mf_DiskMtimeNs m \<noteq> 0 \<and> vo_mtime v \<noteq> mf_DiskMtimeNs m \<and> \<not> unfinished v)\<rparr>"

lemma versions_times:
  "list_all (\<lambda>p. readable (snd p)) us \<Longrightarrow>
   map (\<lambda>(f, t, P). (f, t)) (versions (map snd us) D) = map (\<lambda>p. (uh_from (hdrOf (snd p)), uh_to (hdrOf (snd p)))) us"
  by (induction us arbitrary: D) auto

lemma holds_sound: "holds n S D v \<Longrightarrow> sound n v"
  by (auto simp: holds_def sound_def)

lemma holds_backup:
  assumes "holds n S D v"
  shows "backup v = (recovered S D, versions (rev (map snd (points S))) (recovered S D))" "\<forall>p \<in> set (points S). readable (snd p)"
proof -
  have "meaning n (points S) (recovered S D) (vo_out v) v"
    using assms by (intro meaningI) (auto simp: holds_def at_def)
  from meaning_backup [OF this] show "backup v = (recovered S D, versions (rev (map snd (points S))) (recovered S D))" "\<forall>p \<in> set (points S). readable (snd p)"
    by simp_all
qed

lemma runs_readMoment: "runs F (seen v0) readMomentFile (\<lambda>x v. x = vo_moment v0 \<and> seen v0 v) (\<lambda>v. F \<and> seen v0 v)"
  unfolding readMomentFile_def by (rule runs_weaken [OF runs_reads [where r = "Inr (vo_moment v0)"]]) (auto dest: seen_fields)

lemma runs_hasUnfinished: "runs F (seen v0) hasUnfinishedCopy (\<lambda>x v. x = unfinished v0 \<and> seen v0 v) (\<lambda>v. F \<and> seen v0 v)"
  unfolding hasUnfinishedCopy_def
  by (rule runs_andThen [OF runs_seen_entries]) (force intro!: runs_fact runs_return simp: unfinished_def list_ex_iff)

lemma runs_seen_seal:
  assumes "vo_disk v0 = Some D"
  shows "runs F (seen v0) diskSeal (\<lambda>x v. (x = Some (length D, vo_mtime v0) \<or> F \<and> x = None) \<and> seen v0 v) (\<lambda>v. F \<and> seen v0 v)"
proof -
  have info: "runs F (seen v0) diskInfo (\<lambda>x v. x = Some (length D) \<and> seen v0 v) (\<lambda>v. F \<and> seen v0 v)"
    unfolding diskInfo_def
    by (rule runs_weaken [OF runs_reads [where r = "Inr (Some (length D))"]]) (use assms in \<open>auto dest: seen_fields\<close>)
  show ?thesis
  proof (rule runsI)
    fix v x v' assume v: "seen v0 v" "calm F v" "diskSeal v = (Inr x, v')"
    obtain r v1 where r: "diskInfo v = (r, v1)" by (rule prod.exhaust)
    show "((x = Some (length D, vo_mtime v0) \<or> F \<and> x = None) \<and> seen v0 v') \<and> calm F v'"
      using runs_outcome [OF info v(1,2) r] v(3) r seen_fields [of v0 v1]
      by (cases r) (auto simp: diskSeal_def calm_def)
  qed (auto simp: diskSeal_def split: prod.splits sum.splits option.splits)
qed

lemma runs_stateFrom:
  assumes "holds n S D v0"
  shows "runs F (seen v0) (stateFrom (map fileOf (points S)))
    (\<lambda>st v. (st = stateOf v0 \<or> F \<and> st = (stateOf v0)\<lparr>dt_Modified := False\<rparr>) \<and> seen v0 v) (\<lambda>v. F \<and> seen v0 v)"
proof -
  define ps where "ps = points S"
  have rd: "list_all (\<lambda>p. readable (snd p)) (rev ps)" and b: "snd (backup v0) = versions (map snd (rev ps)) (recovered S D)"
    using holds_backup [OF assms] by (simp_all add: ps_def list_all_iff rev_map)
  have times: "map (\<lambda>(f, t, P). (f, t)) (snd (backup v0)) = map (\<lambda>p. (uh_from (hdrOf (snd p)), uh_to (hdrOf (snd p)))) (rev ps)"
    unfolding b by (rule versions_times [OF rd])
  have fields: "uh_from (uf_hdr (fileOf p)) = uh_from (hdrOf (snd p))" "uh_to (uf_hdr (fileOf p)) = uh_to (hdrOf (snd p))" for p
    by (simp_all add: fileOf_def split: prod.splits)
  have froms: "map (\<lambda>u. uh_from (uf_hdr u)) (map fileOf ps) = rev (map fst (snd (backup v0)))"
    using arg_cong [OF times, of "\<lambda>xs. rev (map fst xs)"] by (simp add: fields comp_def case_prod_beta rev_map)
  have moment: "runs F (seen v0) (momentFrom (map fileOf ps)) (\<lambda>x v. x = momentOf v0 \<and> seen v0 v) (\<lambda>v. F \<and> seen v0 v)"
  proof (cases "ps = []")
    case True
    then have "snd (backup v0) = []" using times by simp
    then show ?thesis using True unfolding momentFrom_def
      by (intro runs_if) (simp, rule runs_andThen [OF runs_readMoment runs_fact], rule runs_return, simp add: momentOf_def split: option.splits)
  next
    case False
    then obtain f t P vs where vs: "snd (backup v0) = (f, t, P) # vs" using times by (cases "snd (backup v0)") auto
    then have "uh_to (uf_hdr (last (map fileOf ps))) = t" using times False by (cases ps rule: rev_cases) (simp_all add: fields)
    then show ?thesis using False vs by (simp add: momentFrom_def momentOf_def runs_return)
  qed
  let ?seal = "if vo_moment v0 = None then return None else diskSeal"
  have disk: "vo_disk v0 = Some D" using assms by (simp add: holds_def)
  have seal: "runs F (seen v0) ?seal (\<lambda>x v. (if vo_moment v0 = None then x = None else x = Some (length D, vo_mtime v0) \<or> F \<and> x = None) \<and> seen v0 v)
      (\<lambda>v. F \<and> seen v0 v)"
    by (cases "vo_moment v0") (simp_all add: runs_return runs_seen_seal [OF disk])
  show ?thesis unfolding stateFrom_def ps_def [symmetric]
    by (rule runs_andThen [OF moment runs_fact], rule runs_andThen [OF runs_readMoment runs_fact],
        rule runs_andThen [OF runs_hasUnfinished runs_fact], simp only:, rule runs_andThen [OF seal runs_fact], rule runs_return)
      (auto simp: stateOf_def froms [symmetric] split: option.splits if_splits)
qed

section \<open>A view of a volume\<close>

lemma chooseMoment_member:
  assumes "chooseMoment st wanted = Inr (Some c)"
  shows "c \<in> set (dt_RestorePoints st)" "c \<le> wanted"
proof -
  have "foldl (\<lambda>chosen p. if \<not> p > wanted then p else chosen) z xs = z \<or>
      foldl (\<lambda>chosen p. if \<not> p > wanted then p else chosen) z xs \<in> {x \<in> set xs. x \<le> wanted}" for z xs
    by (induction xs rule: rev_induct) auto
  then show "c \<in> set (dt_RestorePoints st)" "c \<le> wanted"
    using assms by (fastforce simp: chooseMoment_def Let_def split: if_splits)+
qed

lemma recovered_finished:
  assumes "holds n S D v" "\<not> unfinished v"
  shows "recovered S D = D"
proof (rule recovered_id, rule ballI)
  fix p assume p: "p \<in> set S"
  obtain s st c where q: "p = ((s, st), c)" by (cases p) auto
  have "(nameOf (s, st), c) \<in> set (folder v)" using assms(1) p by (force simp: holds_def files_def q)
  then have "\<not> has_suffix (nameOf (s, st)) undoReady" using assms(2) by (auto simp: unfinished_def)
  then show "snd (fst p) \<noteq> Ready" by (simp add: q)
qed

lemma layers_length:
  assumes "list_all2 layerOf cs ls" "ls \<noteq> []"
  shows "vl_oldSize (hd ls) = length (foldl (\<lambda>f c. rollBack c f) D (rev cs))"
proof -
  obtain c cs' l ls' where c: "cs = c # cs'" "ls = l # ls'" "layerOf c l" using assms by (cases cs; cases ls) auto
  then obtain recs h where "readUndoFrom c = (recs, Inr h)" "vl_oldSize l = nat (uh_oldSize h)" by (auto simp: layerOf_def)
  then show ?thesis by (simp add: c rollBack_parsed)
qed

text \<open>The layers for a moment, and the version they lead back to.\<close>

lemma runs_viewLayers:
  assumes "holds n S D v0" "c \<in> set (map fst (snd (backup v0)))" "\<not> unfinished v0"
  shows "runs F (seen v0) (viewLayers (Some c) (map fileOf (points S)))
    (\<lambda>ls v. (\<exists>cs t. ls \<noteq> [] \<and> list_all2 layerOf cs ls
       \<and> find (\<lambda>(f, t, P). f = c) (snd (backup v0)) = Some (c, t, foldl (\<lambda>f c. rollBack c f) D (rev cs))) \<and> seen v0 v)
    (\<lambda>v. (F \<or> (\<exists>q \<in> snd ` set (folder v0). \<not> inOrder 0 (fst (readUndoFrom q)))) \<and> seen v0 v)"
proof -
  define ps where "ps = points S"
  have D: "recovered S D = D" by (rule recovered_finished [OF assms(1,3)])
  have b: "snd (backup v0) = versions (rev (map snd ps)) D" "\<forall>p \<in> set ps. readable (snd p)"
    using holds_backup [OF assms(1)] by (simp_all add: ps_def D)
  define us where "us = drop (length ps - Suc (later c ps)) ps"
  have "find (\<lambda>(f, t, P). f = c) (snd (backup v0)) \<noteq> None" using assms(2) by (auto simp: find_None_iff) blast
  then have found: "later c ps \<noteq> length ps" and v: "find (\<lambda>(f, t, P). f = c) (snd (backup v0)) =
      Some (c, uh_to (hdrOf (snd (rev ps ! later c ps))), rewound (take (Suc (later c ps)) (rev ps)) D)"
    using find_version [OF b(2), of c D] b(1) by (auto split: if_splits)
  have "rewound (take (Suc (later c ps)) (rev ps)) D = foldl (\<lambda>f p. rollBack (snd p) f) D (rev us)"
    by (simp add: rewound_def us_def take_rev)
  also have "\<dots> = foldl (\<lambda>f c. rollBack c f) D (rev (map snd us))" by (simp only: rev_map foldl_map)
  finally have P: "find (\<lambda>(f, t, P). f = c) (snd (backup v0)) =
      Some (c, uh_to (hdrOf (snd (rev ps ! later c ps))), foldl (\<lambda>f c. rollBack c f) D (rev (map snd us)))" using v by simp
  have "stopAt c (map fileOf ps) = Some (map fileOf us)" using found by (simp add: stopAt_fileOf us_def)
  then obtain i where i: "startIndex c 0 (map fileOf ps) None = Some i" "drop i (map fileOf ps) = map fileOf us"
    using startIndex_stopAt [of "map fileOf ps" c] by (cases "startIndex c 0 (map fileOf ps) None") auto
  have ne: "us \<noteq> []" using found later_le [of c ps] by (auto simp: us_def)
  have sub: "set us \<subseteq> set (points S)" by (auto simp: us_def ps_def dest: in_set_dropD)
  have disk: "snd p \<in> snd ` set (folder v0)" if "p \<in> set us" for p
  proof -
    obtain s q where p: "p = (s, q)" by (cases p)
    then have "((nat s, Applied), q) \<in> set S" using points_member [of s q S] subsetD [OF sub that] by simp
    then show ?thesis using assms(1) by (force simp: holds_def files_def p)
  qed
  have "runs F (seen v0) (indexAll (map fileOf us))
      (\<lambda>ls v. (\<exists>cs t. ls \<noteq> [] \<and> list_all2 layerOf cs ls
         \<and> find (\<lambda>(f, t, P). f = c) (snd (backup v0)) = Some (c, t, foldl (\<lambda>f c. rollBack c f) D (rev cs))) \<and> seen v0 v)
      (\<lambda>v. (F \<or> (\<exists>q \<in> snd ` set (folder v0). \<not> inOrder 0 (fst (readUndoFrom q)))) \<and> seen v0 v)"
    by (rule runs_weaken [OF runs_indexAll [OF assms(1) sub]]) (use P ne disk in \<open>fastforce+\<close>)
  then show ?thesis by (simp add: viewLayers_def i flip: ps_def)
qed

text \<open>The disk that a view for a time shows: the latest, or the version of the chosen restore point.\<close>

definition versionAt :: "int \<Rightarrow> volume \<Rightarrow> DiskView \<Rightarrow> byte list \<Rightarrow> bool" where
  "versionAt wanted v d P \<longleftrightarrow>
     (case chooseMoment (stateOf v) wanted of
        Inl e \<Rightarrow> False
      | Inr None \<Rightarrow> dv_latest d \<and> dv_moment d = dt_Moment (stateOf v) \<and> P = fst (backup v)
      | Inr (Some c) \<Rightarrow> \<not> dv_latest d \<and> dv_moment d = c \<and> c \<le> wanted \<and> (\<exists>t. find (\<lambda>(f, t, P). f = c) (snd (backup v)) = Some (c, t, P)))"

definition cannotView :: "int \<Rightarrow> volume \<Rightarrow> bool" where
  "cannotView wanted v \<longleftrightarrow> unfinished v \<or> dt_Modified (stateOf v) \<or> (\<exists>e. chooseMoment (stateOf v) wanted = Inl e)
     \<or> (\<exists>q \<in> snd ` set (folder v). \<not> inOrder 0 (fst (readUndoFrom q)))"

abbreviation viewOf :: "int \<Rightarrow> DiskState \<Rightarrow> int option \<Rightarrow> nat \<Rightarrow> int \<Rightarrow> viewLayer list \<Rightarrow> string \<Rightarrow> DiskView" where
  "viewOf now st chosen sz mtime layers names \<equiv> \<lparr>dv_disk = Watched, dv_diskSize = sz, dv_diskMtime = mtime, dv_layers = layers,
     dv_size = (if chosen = None then sz else vl_oldSize (hd layers)),
     dv_moment = (case chosen of None \<Rightarrow> dt_Moment st | Some c \<Rightarrow> c),
     dv_momentKnown = (if chosen = None then dt_MomentKnown st else True), dv_latest = (chosen = None),
     dv_undoNames = names, dv_lastCheck = now, dv_changed = False\<rparr>"

text \<open>A view that is open and shows the disk of its moment, and layers that such a view may have.\<close>

abbreviation opened :: "int \<Rightarrow> volume \<Rightarrow> DiskView \<Rightarrow> bool" where
  "opened wanted v d \<equiv> \<exists>P. showing d P v \<and> \<not> dv_changed d \<and> versionAt wanted v d P"

abbreviation layered :: "int \<Rightarrow> int \<Rightarrow> DiskState \<Rightarrow> int option \<Rightarrow> volume \<Rightarrow> byte list \<Rightarrow> viewLayer list \<Rightarrow> bool" where
  "layered wanted now st chosen v D ls \<equiv> \<exists>P cs. list_all2 layerOf cs ls \<and> P = foldl (\<lambda>f c. rollBack c f) D (rev cs)
     \<and> (ls = [] \<longleftrightarrow> chosen = None) \<and> (\<forall>size mtime names. versionAt wanted v (viewOf now st chosen size mtime ls names) P)"

lemma runs_chosenLayers:
  assumes "holds n S D v0" "\<not> unfinished v0" "chooseMoment (stateOf v0) wanted = Inr chosen" "dt_Moment st = dt_Moment (stateOf v0)"
  shows "runs F (seen v0) (viewLayers chosen (map fileOf (points S))) (\<lambda>ls v. layered wanted now st chosen v0 D ls \<and> seen v0 v)
    (\<lambda>v. (F \<or> cannotView wanted v0) \<and> seen v0 v)"
proof (cases chosen)
  case None
  have "recovered S D = D" by (rule recovered_finished [OF assms(1,2)])
  then show ?thesis using None assms(3,4) holds_backup(1) [OF assms(1)] by (auto simp: viewLayers_def versionAt_def intro!: runs_return)
next
  case (Some c)
  then have c: "c \<in> set (map fst (snd (backup v0)))" "c \<le> wanted" using chooseMoment_member assms(3) by (fastforce simp: stateOf_def)+
  show ?thesis unfolding Some
    by (rule runs_weaken [OF runs_viewLayers [OF assms(1) c(1) assms(2)]])
      (use assms(3) c Some in \<open>auto simp: versionAt_def cannotView_def\<close>)
qed

lemma layered_opened:
  assumes "layered wanted now st chosen v0 D ls" "vo_disk v0 = Some D" "names = join ''\<newline>'' (sort (map fst (folder v0)))"
  shows "opened wanted v0 (viewOf now st chosen (length D) (vo_mtime v0) ls names)" (is "opened _ _ ?d")
proof -
  obtain P cs where cs: "list_all2 layerOf cs ls" "P = foldl (\<lambda>f c. rollBack c f) D (rev cs)" "(ls = []) = (chosen = None)" "versionAt wanted v0 ?d P"
    using assms(1) by blast
  have "dv_size ?d = length P" using layers_length [OF cs(1), of D] cs(1-3) by (cases "ls = []") auto
  moreover have "baseOf ?d v0 = D" using assms(2) by (simp add: baseOf_def contents_def)
  ultimately have "showing ?d P v0" using cs(1,2) assms(2,3) by (auto simp: showing_def)
  then show ?thesis using cs(4) by auto
qed

lemma runs_viewRest:
  assumes "holds n S D v0" "\<not> unfinished v0" "chooseMoment (stateOf v0) wanted = Inr chosen" "dt_Moment st = dt_Moment (stateOf v0)"
  shows "runs F (seen v0) (andThen openDisk (\<lambda>_. andThen diskStat (\<lambda>(size, mtime). andThen (viewLayers chosen (map fileOf (points S))) (\<lambda>layers.
     andThen undoNames (\<lambda>names. return (viewOf now st chosen size mtime layers names))))))
    (\<lambda>d v. opened wanted v0 d \<and> seen v0 v) (\<lambda>v. (F \<or> cannotView wanted v0) \<and> seen v0 v)" (is "runs F _ _ ?Q ?E")
proof -
  have disk: "vo_disk v0 = Some D" using assms(1) by (simp add: holds_def)
  have open': "runs F (seen v0) openDisk (\<lambda>_. seen v0) ?E"
    unfolding openDisk_def by (rule runs_sysCall) (use disk in \<open>auto dest: seen_fields\<close>)
  have stat: "runs F (seen v0) diskStat (\<lambda>x v. x = (length D, vo_mtime v0) \<and> seen v0 v) ?E"
    by (rule runs_weaken [OF runs_seen_stat [OF disk]]) auto
  have names: "runs F (seen v0) undoNames (\<lambda>x v. x = join ''\<newline>'' (sort (map fst (folder v0))) \<and> seen v0 v) ?E"
    by (rule runs_weaken [OF runs_seen_names]) auto
  have "runs F (seen v0) (andThen undoNames (\<lambda>names. return (viewOf now st chosen (length D) (vo_mtime v0) ls names))) ?Q ?E"
    if "layered wanted now st chosen v0 D ls" for ls
    by (rule runs_andThen [OF names runs_fact], rule runs_return) (use layered_opened [OF that disk] in blast)
  then have "runs F (seen v0) (andThen (viewLayers chosen (map fileOf (points S))) (\<lambda>layers. andThen undoNames (\<lambda>names.
      return (viewOf now st chosen (length D) (vo_mtime v0) layers names)))) ?Q ?E"
    by (intro runs_andThen [OF runs_chosenLayers [OF assms] runs_fact])
  then show ?thesis by (intro runs_andThen [OF open'] runs_andThen [OF stat runs_fact]) (simp only: prod.case)
qed

lemma runs_OpenDiskView:
  assumes "holds n S D v0"
  shows "runs F (seen v0) (OpenDiskView wanted now) (\<lambda>d v. opened wanted v0 d \<and> seen v0 v) (\<lambda>v. (F \<or> cannotView wanted v0) \<and> seen v0 v)"
    (is "runs F _ _ ?Q ?E")
proof -
  let ?rest = "\<lambda>st chosen. andThen openDisk (\<lambda>_. andThen diskStat (\<lambda>(size, mtime). andThen (viewLayers chosen (map fileOf (points S))) (\<lambda>layers.
     andThen undoNames (\<lambda>names. return (viewOf now st chosen size mtime layers names)))))"
  have decide: "runs F (seen v0) (if dt_Unfinished st then fail ''ErrCopyInProgress''
       else if dt_Modified st then fail ''the backup disk changed after its last copy''
       else case chooseMoment st wanted of Inl e \<Rightarrow> fail e | Inr chosen \<Rightarrow> ?rest st chosen) ?Q ?E"
    if st: "st = stateOf v0 \<or> F \<and> st = (stateOf v0)\<lparr>dt_Modified := False\<rparr>" for st
  proof -
    have s: "dt_Unfinished st = unfinished v0" "dt_Moment st = dt_Moment (stateOf v0)" "chooseMoment st wanted = chooseMoment (stateOf v0) wanted"
      "dt_Modified st \<longrightarrow> dt_Modified (stateOf v0)"
      using st by (auto simp: stateOf_def chooseMoment_def)
    show ?thesis
    proof (cases "unfinished v0 \<or> dt_Modified st \<or> (\<exists>e. chooseMoment (stateOf v0) wanted = Inl e)")
      case True
      then have "cannotView wanted v0" using s by (auto simp: cannotView_def)
      then show ?thesis using True by (auto simp: s intro!: runs_fail)
    next
      case False
      then obtain chosen where ch: "chooseMoment (stateOf v0) wanted = Inr chosen" by (cases "chooseMoment (stateOf v0) wanted") auto
      have no: "\<not> unfinished v0" "\<not> dt_Modified st" "\<not> dt_Unfinished st" using False s(1) by simp_all
      show ?thesis unfolding if_not_P [OF no(2)] if_not_P [OF no(3)] s(3) ch sum.case by (rule runs_viewRest [OF assms no(1) ch s(2)])
    qed
  qed
  have headers: "runs F (seen v0) undoHeaders (\<lambda>fs v. fs = map fileOf (points S) \<and> seen v0 v) ?E"
    by (rule runs_weaken [OF runs_undoHeaders [OF assms]]) auto
  have state: "runs F (seen v0) (stateFrom (map fileOf (points S)))
      (\<lambda>st v. (st = stateOf v0 \<or> F \<and> st = (stateOf v0)\<lparr>dt_Modified := False\<rparr>) \<and> seen v0 v) ?E"
    by (rule runs_weaken [OF runs_stateFrom [OF assms]]) auto
  note tail = runs_andThen [OF state runs_fact [OF decide]]
  show ?thesis unfolding OpenDiskView_def by (rule runs_andThen [OF headers runs_fact]) (simp only:, rule tail)
qed

text \<open>A sequence of reads, each with its time, length and offset.\<close>

fun readAll :: "(int \<times> nat \<times> int) list \<Rightarrow> DiskView \<Rightarrow> volume \<Rightarrow> (string + byte list \<times> bool) list" where
  "readAll [] d v = []"
| "readAll ((now, want, off) # rs) d v = (case DiskView_ReadAt d now want off v of (res, d', v') \<Rightarrow> res # readAll rs d' v')"

lemma readAll_good:
  assumes "showing d P v" "dv_changed d \<longrightarrow> F" "calm F v"
  shows "list_all2 (\<lambda>(now, want, off). goodRead P F want off) rs (readAll rs d v)"
  using assms
proof (induction rs arbitrary: d v)
  case (Cons r rs)
  obtain now want off where r: "r = (now, want, off)" by (rule prod_cases3)
  obtain res d' v' where m: "DiskView_ReadAt d now want off v = (res, d', v')" by (rule prod_cases3)
  show ?case using ReadAt_showing [OF Cons.prems(1) m Cons.prems(2,3)] Cons.IH [of d' v'] by (simp add: r m)
qed simp

section \<open>A view on an undo source\<close>

definition sourceFile :: "UndoSource \<Rightarrow> undoFile \<Rightarrow> byte list" where
  "sourceFile src u = (case us_Open src (uf_path u) UndoScan of Inl e \<Rightarrow> [] | Inr c \<Rightarrow> c)"

lemma budgetRecs_Inr:
  "budgetRecs e b recs = Inr (rs, b') \<Longrightarrow> inOrder e recs \<and> rs = map toRec recs \<and> b' = b - int (length recs) \<and> (0 \<le> b \<longrightarrow> 0 \<le> b')"
proof (induction recs arbitrary: e b rs)
  case (Cons r recs)
  obtain off data pos where r: "r = (off, data, pos)" by (rule prod_cases3)
  have ok: "\<not> off < e" "\<not> b - 1 < 0" using Cons.prems by (auto simp: r split: if_splits)
  then obtain rs1 where rs1: "budgetRecs (off + length data) (b - 1) recs = Inr (rs1, b')" "rs = toRec r # rs1"
    using Cons.prems by (cases "budgetRecs (off + length data) (b - 1) recs") (auto simp: r toRec_def)
  show ?case using Cons.IH [OF rs1(1)] ok rs1(2) by (simp add: r)
qed simp

lemma indexFrom_Inr:
  assumes "indexFrom src (uf_path u) b = Inr (l, b')"
  shows "us_Open src (uf_path u) UndoRead = us_Open src (uf_path u) UndoScan \<Longrightarrow> layerOf (sourceFile src u) l"
    "b' = b - int (length (vl_recs l)) \<and> (0 \<le> b \<longrightarrow> 0 \<le> b')"
proof -
  obtain c recs h rs f where c: "us_Open src (uf_path u) UndoScan = Inr c" "readUndoFrom c = (recs, Inr h)" "budgetRecs 0 b recs = Inr (rs, b')"
    "us_Open src (uf_path u) UndoRead = Inr f" "l = \<lparr>vl_f = f, vl_recs = rs, vl_oldSize = nat (uh_oldSize h)\<rparr>"
    using assms by (auto simp: indexFrom_def split: sum.splits prod.splits)
  note recs = budgetRecs_Inr [OF c(3)]
  then show "b' = b - int (length (vl_recs l)) \<and> (0 \<le> b \<longrightarrow> 0 \<le> b')" using c(5) by auto
  show "layerOf (sourceFile src u) l" if "us_Open src (uf_path u) UndoRead = us_Open src (uf_path u) UndoScan"
    using that c recs by (auto simp: layerOf_def sourceFile_def)
qed

lemma indexAllFrom_Cons:
  assumes "indexAllFrom src b (u # us) = Inr ls"
  obtains l b' ls' where "ls = l # ls'" "indexFrom src (uf_path u) b = Inr (l, b')" "indexAllFrom src b' us = Inr ls'"
  using assms by (auto split: sum.splits prod.splits)

lemma indexAllFrom_layers:
  assumes "\<And>name. us_Open src name UndoRead = us_Open src name UndoScan"
  shows "indexAllFrom src b us = Inr ls \<Longrightarrow> list_all2 layerOf (map (sourceFile src) us) ls"
proof (induction us arbitrary: b ls)
  case (Cons u us)
  from Cons.prems show ?case by (rule indexAllFrom_Cons) (use Cons.IH indexFrom_Inr(1) assms in fastforce)
qed simp

lemma indexAllFrom_bounds:
  "indexAllFrom src b us = Inr ls \<Longrightarrow> 0 \<le> b \<Longrightarrow> int (\<Sum>l \<leftarrow> ls. length (vl_recs l)) \<le> b \<and> length ls = length us"
proof (induction us arbitrary: b ls)
  case (Cons u us)
  from Cons.prems(1) show ?case
  proof (rule indexAllFrom_Cons)
    fix l b' ls' assume l: "ls = l # ls'" "indexFrom src (uf_path u) b = Inr (l, b')" "indexAllFrom src b' us = Inr ls'"
    then show ?thesis using Cons.IH [OF l(3)] indexFrom_Inr(2) [OF l(2)] Cons.prems(2) by simp
  qed
qed simp

text \<open>What opening a view on a source gives, and the undo files it uses.\<close>

lemma OpenDiskViewFrom_cases:
  assumes "OpenDiskViewFrom D sz latest src wanted = Inr d"
  obtains us where "headersFrom src = Inr us" "dv_latest d" "dv_layers d = []" "dv_size d = sz" "dv_disk d = Given D" "dv_diskSize d = sz" "\<not> dv_changed d"
  | us i where "headersFrom src = Inr us" "\<not> dv_latest d" "startIndex (dv_moment d) 0 us None = Some i" "length us - i \<le> maxViewLayers"
    "indexAllFrom src maxViewRecords (drop i us) = Inr (dv_layers d)" "dv_size d = vl_oldSize (hd (dv_layers d))" "dv_moment d \<le> wanted"
    "dv_disk d = Given D" "dv_diskSize d = sz" "\<not> dv_changed d"
proof -
  obtain us where us: "headersFrom src = Inr us" using assms by (cases "headersFrom src") (simp_all add: OpenDiskViewFrom_def)
  define pts where "pts = filter afterEpoch (map (\<lambda>u. uh_from (uf_hdr u)) us)"
  define chosen where "chosen = foldl (\<lambda>chosen p. if \<not> p > wanted then p else chosen) zeroTime pts"
  have le: "chosen \<noteq> zeroTime \<Longrightarrow> chosen \<le> wanted" unfolding chosen_def by (induction pts rule: rev_induct) (auto split: if_splits)
  show thesis
  proof (cases "wanted = zeroTime \<or> \<not> wanted < latest")
    case True
    then show thesis using assms us by (intro that(1) [OF us]) (auto simp: OpenDiskViewFrom_def Let_def)
  next
    case False
let ?d = "\<lambda>ls. \<lparr>dv_disk = Given D, dv_diskSize = sz, dv_diskMtime = 0, dv_layers = ls, dv_size = vl_oldSize (hd ls),
      dv_moment = chosen, dv_momentKnown = True, dv_latest = False, dv_undoNames = '''', dv_lastCheck = 0, dv_changed = False\<rparr>"
    have "OpenDiskViewFrom D sz latest src wanted =
        (if chosen = zeroTime then Inl ''ErrNoRestorePoint''
         else case startIndex chosen 0 us None of None \<Rightarrow> Inl ''no restore point''
           | Some start \<Rightarrow> if length us - start > maxViewLayers then Inl ''a view reaches back too far''
               else case indexAllFrom src maxViewRecords (drop start us) of Inl e \<Rightarrow> Inl e | Inr layers \<Rightarrow> Inr (?d layers))"
      using False by (simp add: OpenDiskViewFrom_def us Let_def flip: pts_def chosen_def split: option.split sum.split)
    then obtain i ls where "chosen \<noteq> zeroTime" "startIndex chosen 0 us None = Some i" "length us - i \<le> maxViewLayers"
      "indexAllFrom src maxViewRecords (drop i us) = Inr ls" "d = ?d ls"
      using assms by (cases "chosen = zeroTime"; cases "startIndex chosen 0 us None") (auto split: if_splits sum.splits)
    then show thesis using le by (intro that(2) [OF us]) simp_all
  qed
qed

section \<open>Examples\<close>

text \<open>A disk with one restore point, two seconds after the epoch, and the same files as a source.\<close>

definition exampleHeader :: undoHeader where
  "exampleHeader = \<lparr>uh_from = 2000000000, uh_to = 4000000000, uh_oldSize = 2, uh_newSize = 2\<rparr>"

definition exampleUndo :: "byte list" where
  "exampleUndo = encodeUndo exampleHeader [(1, [6])]"

definition viewedVolume :: volume where
  "viewedVolume = exampleVolume\<lparr>vo_disk := Some [5, 7], vo_undo := Some [(''0000000001.undo'', exampleUndo)]\<rparr>"

definition exampleSource :: UndoSource where
  "exampleSource = \<lparr>us_Names = Inr [''0000000001.undo'', ''notes''], us_Open = (\<lambda>_ _. Inr exampleUndo)\<rparr>"

lemma exampleUndo_read: "readUndoFrom exampleUndo = ([(1, [6], 56)], Inr exampleHeader)"
proof -
  have "readUndoFrom (encodeUndo exampleHeader [(1, [6])]) = (positions 40 [(1, [6])], Inr exampleHeader)"
    by (rule readUndoFrom_encode) (simp_all add: exampleHeader_def headerOk_def int64_range_def maxDiskBytes_def recordOk_def compareChunk_def)
  then show ?thesis by (simp add: exampleUndo_def)
qed

lemma exampleUndo_rollBack: "rollBack exampleUndo [5, 7] = [5, 6]"
  by (simp add: rollBack_def exampleUndo_read undone_def exampleHeader_def Truncate_def WriteAt_def numeral_2_eq_2)

lemma example_name: "''0000000001.undo'' = nameOf (1, Applied)"
  by code_simp

lemma viewed_holds: "holds 1 [((1, Applied), exampleUndo)] [5, 7] viewedVolume"
  unfolding holds_def by (simp add: viewedVolume_def folder_def example_name wellFormed_def slotOk_def exampleUndo_read del: One_nat_def)

lemma viewed_backup: "backup viewedVolume = ([5, 7], [(2000000000, 4000000000, [5, 6])])"
  using holds_backup(1) [OF viewed_holds] by (simp add: points_def exampleUndo_read exampleUndo_rollBack) (simp add: exampleHeader_def)

lemma viewed_choice: "chooseMoment (stateOf viewedVolume) 3000000000 = Inr (Some 2000000000)" "\<not> cannotView 3000000000 viewedVolume"
proof -
  have "momentOf viewedVolume = Some 4000000000" by (simp add: momentOf_def viewed_backup)
  moreover have "vo_moment viewedVolume = None" by (simp add: viewedVolume_def exampleVolume_def)
  moreover have "folder viewedVolume = [(''0000000001.undo'', exampleUndo)]" by (simp add: viewedVolume_def folder_def)
  moreover have "\<not> has_suffix ''0000000001.undo'' undoReady" by code_simp
  ultimately show "chooseMoment (stateOf viewedVolume) 3000000000 = Inr (Some 2000000000)" "\<not> cannotView 3000000000 viewedVolume"
    by (simp_all add: cannotView_def stateOf_def chooseMoment_def unfinished_def viewed_backup afterEpoch_def zeroTime_def exampleUndo_read)
qed

lemma example_source: "headersFrom exampleSource = Inr [\<lparr>uf_seq = 1, uf_path = ''0000000001.undo'', uf_hdr = exampleHeader\<rparr>]"
proof -
  have "ValidUndoName ''0000000001.undo''" "\<not> ValidUndoName ''notes''" "atoi (trimSuffix ''0000000001.undo'' undoApplied) = Some 1"
    by code_simp+
  then show ?thesis
    by (simp add: headersFrom_def exampleSource_def maxUndoFiles_def readHeaderOf_def readUndoHeaderFrom_valid [OF exampleUndo_read])
qed

lemma example_opened:
  "\<exists>d. OpenDiskViewFrom [5, 7] 2 4000000000 exampleSource 3000000000 = Inr d \<and> \<not> dv_latest d \<and> dv_moment d = 2000000000"
  unfolding OpenDiskViewFrom_def example_source Let_def
  by (simp add: exampleHeader_def afterEpoch_def zeroTime_def maxViewLayers_def)
    (simp add: indexFrom_def exampleSource_def exampleUndo_read maxViewRecords_def afterEpoch_def)

section \<open>Properties\<close>

text \<open>
  C29: a view opened on a backup disk shows the disk of its moment. Any sequence of reads gives the parts of that
  disk that were asked for, the same bytes as rewinding would write, for the restore point that is chosen for the
  wanted time, or the disk itself; nothing of the backup changes. Without failing calls opening fails only when a copy is
  unfinished, the disk was written after its last copy, there is no moment at or before the time or an undo file
  is not in order, and a read fails only for a negative offset.
\<close>

theorem OpenDiskView_shows_version:
  assumes "sound n v"
  shows "case OpenDiskView wanted now v of
      (Inr d, v') \<Rightarrow> backup v' = backup v \<and> (\<exists>P. versionAt wanted v d P \<and>
        list_all2 (\<lambda>(now, want, off). goodRead P (vo_faults v \<noteq> []) want off) rs (readAll rs d v'))
    | (Inl e, v') \<Rightarrow> backup v' = backup v \<and> (vo_faults v \<noteq> [] \<or> cannotView wanted v)"
proof -
  obtain D S where h: "holds n S D v" using assms by (auto simp: sound_def holds_def)
  obtain r v' where m: "OpenDiskView wanted now v = (r, v')" by (rule prod.exhaust)
  let ?F = "vo_faults v \<noteq> []"
  have c: "calm ?F v" by (simp add: calm_def)
  note out = runs_outcome [OF runs_OpenDiskView [OF h] seen_refl c m]
  show ?thesis
  proof (cases r)
    case (Inl e)
    then show ?thesis using out m seen_backup [of v v'] by simp
  next
    case (Inr d)
    then obtain P where P: "showing d P v" "\<not> dv_changed d" "versionAt wanted v d P" and s: "seen v v'" "calm ?F v'" using out by auto
    then have "showing d P v'" using showing_seen [OF s(1)] by simp
    from readAll_good [OF this _ s(2), of rs] show ?thesis using Inr m P seen_backup [OF s(1)] by auto
  qed
qed

theorem OpenDiskView_shows_version_witness:
  "\<exists>d v'. OpenDiskView 3000000000 0 viewedVolume = (Inr d, v') \<and> backup v' = backup viewedVolume
     \<and> readAll [(0, 1, 1), (0, 9, 0)] d v' = [Inr ([6], False), Inr ([5, 6], True)]"
proof -
  obtain r v' where m: "OpenDiskView 3000000000 0 viewedVolume = (r, v')" by (rule prod.exhaust)
  have f: "vo_faults viewedVolume = []" by (simp add: viewedVolume_def exampleVolume_def)
  define rs :: "(int \<times> nat \<times> int) list" where "rs = [(0, 1, 1), (0, 9, 0)]"
  from OpenDiskView_shows_version [OF holds_sound [OF viewed_holds], where wanted = 3000000000 and now = 0 and rs = rs] m
  obtain d P where d: "r = Inr d" "backup v' = backup viewedVolume" "versionAt 3000000000 viewedVolume d P"
    "list_all2 (\<lambda>(now, want, off). goodRead P False want off) rs (readAll rs d v')"
    by (cases r) (auto simp: f viewed_choice(2))
  have "P = [5, 6]" using d(3) by (simp add: versionAt_def viewed_choice(1) viewed_backup)
  then have "goodRead P False 1 1 x \<longleftrightarrow> x = Inr ([6], False)" "goodRead P False 9 0 x \<longleftrightarrow> x = Inr ([5, 6], True)" for x
    by (auto simp: goodRead_def split: sum.splits)
  then have "readAll rs d v' = [Inr ([6], False), Inr ([5, 6], True)]"
    using d(4) unfolding rs_def by (simp only: list_all2_Cons1 list_all2_Nil prod.case) blast
  then show ?thesis using d(1,2) m unfolding rs_def by blast
qed

text \<open>
  C30: a view on an undo source shows the disk with the undo files of the source undone, newest first, back to the
  last one that starts at the moment of the view, which is at or before the wanted time.
\<close>

theorem OpenDiskViewFrom_shows_version:
  assumes "OpenDiskViewFrom D (length D) latest src wanted = Inr d" "\<And>name. us_Open src name UndoRead = us_Open src name UndoScan"
  shows "\<exists>us P. headersFrom src = Inr us
    \<and> (if dv_latest d then P = D
       else dv_moment d \<le> wanted \<and> (\<exists>ws. stopAt (dv_moment d) us = Some ws \<and> P = foldl (\<lambda>f u. rollBack (sourceFile src u) f) D (rev ws)))
    \<and> list_all2 (\<lambda>(now, want, off). goodRead P (vo_faults v \<noteq> []) want off) rs (readAll rs d v)"
  using assms(1)
proof (rule OpenDiskViewFrom_cases)
  fix us assume d: "headersFrom src = Inr us" "dv_latest d" "dv_layers d = []" "dv_size d = length D" "dv_disk d = Given D" "dv_diskSize d = length D" "\<not> dv_changed d"
  then have "showing d D v" by (simp add: showing_def baseOf_def)
  then show ?thesis using d readAll_good [of d D v "vo_faults v \<noteq> []" rs] by (auto simp: calm_def)
next
  fix us i assume d: "headersFrom src = Inr us" "\<not> dv_latest d" "startIndex (dv_moment d) 0 us None = Some i"
    "indexAllFrom src maxViewRecords (drop i us) = Inr (dv_layers d)" "dv_size d = vl_oldSize (hd (dv_layers d))" "dv_moment d \<le> wanted"
    "dv_disk d = Given D" "dv_diskSize d = length D" "\<not> dv_changed d"
  define P where "P = foldl (\<lambda>f u. rollBack (sourceFile src u) f) D (rev (drop i us))"
  have stop: "stopAt (dv_moment d) us = Some (drop i us)" "i < length us" using startIndex_stopAt [of us "dv_moment d"] d(3) by simp_all
  note ls = indexAllFrom_layers [OF assms(2) d(4)]
  then have ne: "dv_layers d \<noteq> []" using stop(2) by auto
  have P: "P = foldl (\<lambda>f c. rollBack c f) D (rev (map (sourceFile src) (drop i us)))" unfolding P_def rev_map foldl_map ..
  have "dv_size d = length P" using layers_length [OF ls ne, of D] d(5) P by simp
  then have "showing d P v" using d(7,8) ls P by (auto simp: showing_def baseOf_def)
  then show ?thesis using d stop readAll_good [of d P v "vo_faults v \<noteq> []" rs] P_def by (auto simp: calm_def)
qed

theorem OpenDiskViewFrom_shows_version_witness:
  "\<exists>d. OpenDiskViewFrom [5, 7] 2 4000000000 exampleSource 3000000000 = Inr d
     \<and> readAll [(0, 2, 0)] d exampleVolume = [Inr ([5, 6], False)]"
proof -
  obtain d where d: "OpenDiskViewFrom [5, 7] 2 4000000000 exampleSource 3000000000 = Inr d" "\<not> dv_latest d" "dv_moment d = 2000000000"
    using example_opened by blast
  define rs :: "(int \<times> nat \<times> int) list" where "rs = [(0, 2, 0)]"
  have "length [5, 7 :: byte] = 2" by simp
  from OpenDiskViewFrom_shows_version [where D = "[5, 7]" and v = exampleVolume and rs = rs, unfolded this, OF d(1)] d(2,3)
  obtain ws P where P: "stopAt 2000000000 [\<lparr>uf_seq = 1, uf_path = ''0000000001.undo'', uf_hdr = exampleHeader\<rparr>] = Some ws"
    "P = foldl (\<lambda>f u. rollBack (sourceFile exampleSource u) f) [5, 7] (rev ws)"
    "list_all2 (\<lambda>(now, want, off). goodRead P False want off) rs (readAll rs d exampleVolume)"
    by (auto simp: example_source) (auto simp: exampleSource_def exampleVolume_def)
  have "P = [5, 6]" using P(1,2) by (auto simp: stopAt_def exampleHeader_def sourceFile_def exampleSource_def exampleUndo_rollBack)
  then have "goodRead P False 2 0 x \<longleftrightarrow> x = Inr ([5, 6], False)" for x by (auto simp: goodRead_def split: sum.splits)
  then have "readAll rs d exampleVolume = [Inr ([5, 6], False)]"
    using P(3) unfolding rs_def by (simp only: list_all2_Cons1 list_all2_Nil prod.case) blast
  then show ?thesis using d(1) unfolding rs_def by blast
qed

text \<open>
  C31: whatever an undo source holds, a view on it indexes at most 2097152 records over at most 1024 undo files.
\<close>

theorem OpenDiskViewFrom_bounded:
  assumes "OpenDiskViewFrom D sz latest src wanted = Inr d"
  shows "length (dv_layers d) \<le> 1024 \<and> (\<Sum>l \<leftarrow> dv_layers d. length (vl_recs l)) \<le> 2097152"
  using assms
proof (rule OpenDiskViewFrom_cases)
  fix us i assume d: "length us - i \<le> maxViewLayers" "indexAllFrom src maxViewRecords (drop i us) = Inr (dv_layers d)"
  then show ?thesis using indexAllFrom_bounds [OF d(2)] by (simp add: maxViewLayers_def maxViewRecords_def)
qed simp

theorem OpenDiskViewFrom_bounded_witness:
  "\<exists>d. OpenDiskViewFrom [5, 7] 2 4000000000 exampleSource 3000000000 = Inr d \<and> (\<Sum>l \<leftarrow> dv_layers d. length (vl_recs l)) \<le> 2097152"
  using example_opened OpenDiskViewFrom_bounded by blast

end
