(* ===== verification/Vm_Wire.thy ===== *)
theory Vm_Wire
  imports Undo_Files
begin

text \<open>
  \<^verbatim>\<open>pkg/replication/vmwire.go\<close>: the records that carry a staged disk copy between sites. A reader is the
  bytes it has left, and reading gives the record with the rest or an error, \<open>EOF\<close> at a clean end. The hash
  of the digest is a parameter.
\<close>

section \<open>Compare entries\<close>

record CompareEntry =
  ce_Off :: int
  ce_Len :: "32 word"
  ce_Zero :: bool
  ce_Hash :: "byte list"

definition compareEntrySize :: nat where
  "compareEntrySize = 8 + 4 + 1 + 32"

definition AppendCompareEntry :: "byte list \<Rightarrow> CompareEntry \<Rightarrow> byte list" where
  "AppendCompareEntry b e =
     b @ PutUint64 (of_int (ce_Off e)) @ PutUint32 (ce_Len e) @ [if ce_Zero e then 1 else 0] @ ce_Hash e"

text \<open>\<^verbatim>\<open>io.ReadFull\<close>: all of the bytes, the end, or an end in the middle.\<close>

definition ReadFull :: "byte list \<Rightarrow> nat \<Rightarrow> string + byte list \<times> byte list" where
  "ReadFull r n =
     (if n \<le> length r then Inr (take n r, drop n r) else if r = [] then Inl ''EOF'' else Inl ''unexpected EOF'')"

definition ReadCompareEntry :: "byte list \<Rightarrow> string + CompareEntry \<times> byte list" where
  "ReadCompareEntry r =
     (case ReadFull r compareEntrySize of
        Inl e \<Rightarrow> Inl e
      | Inr (buf, rest) \<Rightarrow>
          let off = Uint64 buf in
          if unat off > 2 ^ 62 then Inl ''offset out of range''
          else if buf ! 12 > 1 then Inl ''bad entry kind''
          else Inr (\<lparr>ce_Off = sint off, ce_Len = Uint32 (drop 8 buf), ce_Zero = (buf ! 12 = 1), ce_Hash = drop 13 buf\<rparr>, rest))"

section \<open>Upload records\<close>

record UploadRecord =
  ur_Off :: int
  ur_Zero :: bool
  ur_Len :: "32 word"
  ur_Data :: "byte list"

definition recordLen :: "UploadRecord \<Rightarrow> 32 word" where
  "recordLen rec = (if ur_Zero rec then ur_Len rec else of_nat (length (ur_Data rec)))"

definition WriteUploadRecord :: "UploadRecord \<Rightarrow> byte list" where
  "WriteUploadRecord rec =
     [if ur_Zero rec then 1 else 0] @ PutUint64 (of_int (ur_Off rec)) @ PutUint32 (recordLen rec)
     @ (if ur_Zero rec then [] else ur_Data rec)"

definition ReadUploadRecord :: "byte list \<Rightarrow> 32 word \<Rightarrow> string + UploadRecord \<times> byte list" where
  "ReadUploadRecord r mx =
     (case ReadFull r 13 of
        Inl e \<Rightarrow> Inl e
      | Inr (hdr, rest) \<Rightarrow>
          let off = Uint64 (drop 1 hdr); len = Uint32 (drop 9 hdr) in
          if hdr ! 0 > 1 then Inl ''bad record kind''
          else if unat off > 2 ^ 62 then Inl ''offset out of range''
          else if len = 0 \<or> len > mx then Inl ''record length out of range''
          else if hdr ! 0 = 1 then Inr (\<lparr>ur_Off = sint off, ur_Zero = True, ur_Len = len, ur_Data = []\<rparr>, rest)
          else
            (case ReadFull rest (unat len) of
               Inl e \<Rightarrow> Inl ''unexpected EOF''
             | Inr (data, rest) \<Rightarrow> Inr (\<lparr>ur_Off = sint off, ur_Zero = False, ur_Len = len, ur_Data = data\<rparr>, rest)))"

text \<open>The bytes that the digest of an upload hashes.\<close>

definition digestBytes :: "UploadRecord list \<Rightarrow> byte list" where
  "digestBytes recs = concat (map WriteUploadRecord recs)"

definition digestSum :: "(byte list \<Rightarrow> string) \<Rightarrow> UploadRecord list \<Rightarrow> string" where
  "digestSum sha256hex recs = sha256hex (digestBytes recs)"

section \<open>Requests\<close>

record CommitRequest =
  cr_Size :: int
  cr_From :: "int option"
  cr_To :: int
  cr_Full :: bool
  cr_Digest :: string
  cr_VMGroup :: string
  cr_KeepSeconds :: int

section \<open>Reading is the inverse of writing\<close>

definition compareOk :: "CompareEntry \<Rightarrow> bool" where
  "compareOk e \<longleftrightarrow> 0 \<le> ce_Off e \<and> ce_Off e \<le> 2 ^ 62 \<and> length (ce_Hash e) = 32"

text \<open>A record in the form the reader gives it: a run of zeros has no data and data has its length.\<close>

definition uploadOk :: "32 word \<Rightarrow> UploadRecord \<Rightarrow> bool" where
  "uploadOk mx rec \<longleftrightarrow> 0 \<le> ur_Off rec \<and> ur_Off rec \<le> 2 ^ 62 \<and> 0 < ur_Len rec \<and> ur_Len rec \<le> mx \<and>
     (if ur_Zero rec then ur_Data rec = [] else length (ur_Data rec) = unat (ur_Len rec))"

lemma offset_word:
  assumes "0 \<le> x" "x \<le> 2 ^ 62"
  shows "unat (of_int x :: 64 word) = nat x" "sint (of_int x :: 64 word) = x"
proof -
  show "sint (of_int x :: 64 word) = x" using assms by (intro int64_uint64) (simp add: int64_range_def)
  have "uint (of_int x :: 64 word) = x mod 2 ^ 64" by (simp add: uint_word_of_int)
  then have "uint (of_int x :: 64 word) = x" using assms by simp
  then show "unat (of_int x :: 64 word) = nat x" by (metis unat_eq_nat_uint)
qed

lemma word_offset:
  assumes "unat (w :: 64 word) \<le> 2 ^ 62"
  shows "0 \<le> sint w" "sint w \<le> 2 ^ 62" "of_int (sint w) = w"
proof -
  have "int (unat w) \<le> int (2 ^ 62)" using assms by (simp only: of_nat_le_iff)
  then have le: "uint w \<le> 2 ^ 62" by simp
  then have "sint (of_int (uint w) :: 64 word) = uint w" by (intro offset_word(2)) simp_all
  then have "sint w = uint w" by simp
  then show "0 \<le> sint w" "sint w \<le> 2 ^ 62" "of_int (sint w) = w" using le by simp_all
qed

lemma Put_Uint32: "4 \<le> length bs \<Longrightarrow> PutUint32 (Uint32 bs) = take 4 bs"
proof -
  assume "4 \<le> length bs"
  then have l: "length (take 4 bs) = 4" by simp
  then have "unat (Uint32 bs) = unbe (take 4 bs)"
    using unbe_less [of "take 4 bs"] by (simp add: Uint32_def unat_of_nat)
  then show ?thesis using be_unbe [of "take 4 bs"] l by (simp add: PutUint32_def)
qed

lemma Uint32_Put_end [simp]: "Uint32 (PutUint32 x) = x"
  using Uint32_Put [of x "[]"] by simp

lemma byte_flag: "\<not> (b :: byte) > 1 \<Longrightarrow> b = 0 \<or> b = 1"
  by (metis less_one linorder_less_linear not_less_iff_gr_or_eq word_gt_0 word_less_1)

lemma ReadFull_append: "ReadFull (a @ b) (length a) = Inr (a, b)"
  by (simp add: ReadFull_def)

lemma ReadFull_Inr: "ReadFull r n = Inr (buf, rest) \<longleftrightarrow> length buf = n \<and> r = buf @ rest"
  by (auto simp: ReadFull_def)

lemma ReadCompareEntry_Append:
  assumes "compareOk e"
  shows "ReadCompareEntry (AppendCompareEntry [] e @ rest) = Inr (e, rest)"
proof -
  let ?b = "AppendCompareEntry [] e"
  have l: "length ?b = compareEntrySize" using assms by (simp add: AppendCompareEntry_def compareEntrySize_def compareOk_def)
  have o: "Uint64 ?b = of_int (ce_Off e)" by (simp add: AppendCompareEntry_def)
  have k: "?b ! 12 = (if ce_Zero e then 1 else 0)" by (simp add: AppendCompareEntry_def nth_append)
  have r: "Uint32 (drop 8 ?b) = ce_Len e" "drop 13 ?b = ce_Hash e" by (simp_all add: AppendCompareEntry_def)
  have off: "unat (of_int (ce_Off e) :: 64 word) \<le> 2 ^ 62" "sint (of_int (ce_Off e) :: 64 word) = ce_Off e"
    using assms offset_word [of "ce_Off e"] by (simp_all add: compareOk_def nat_le_iff)
  show ?thesis unfolding ReadCompareEntry_def ReadFull_append [of ?b, unfolded l] using off
    by (simp add: Let_def o k r)
qed

lemma ReadCompareEntry_parsed:
  assumes "ReadCompareEntry r = Inr (e, rest)"
  shows "compareOk e \<and> r = AppendCompareEntry [] e @ rest"
proof -
  obtain buf where b: "length buf = 45" "r = buf @ rest" and ok: "unat (Uint64 buf) \<le> 2 ^ 62" "\<not> buf ! 12 > 1"
    and e: "e = \<lparr>ce_Off = sint (Uint64 buf), ce_Len = Uint32 (drop 8 buf), ce_Zero = (buf ! 12 = 1), ce_Hash = drop 13 buf\<rparr>"
    using assms by (auto simp: ReadCompareEntry_def ReadFull_Inr compareEntrySize_def Let_def split: sum.splits prod.splits if_splits)
  have "drop 12 buf = buf ! 12 # drop 13 buf" using b(1) Cons_nth_drop_Suc [of 12 buf] by simp
  moreover have "buf = take 8 buf @ take 4 (drop 8 buf) @ drop 4 (drop 8 buf)" by (metis append_take_drop_id)
  ultimately have "buf = take 8 buf @ take 4 (drop 8 buf) @ [buf ! 12] @ drop 13 buf" by simp
  moreover have "(if buf ! 12 = 1 then 1 else 0) = buf ! 12" using byte_flag [OF ok(2)] by auto
  ultimately have "AppendCompareEntry [] e = buf"
    using b(1) word_offset(3) [OF ok(1)] Put_Uint64 [of buf] Put_Uint32 [of "drop 8 buf"] by (simp add: e AppendCompareEntry_def)
  then show ?thesis using b word_offset(1,2) [OF ok(1)] by (simp add: compareOk_def e)
qed

lemma ReadUploadRecord_Write:
  assumes "uploadOk mx rec"
  shows "ReadUploadRecord (WriteUploadRecord rec @ rest) mx = Inr (rec, rest)"
proof -
  let ?off = "of_int (ur_Off rec) :: 64 word"
  define hdr where "hdr = [if ur_Zero rec then 1 else 0] @ PutUint64 ?off @ PutUint32 (ur_Len rec)"
  have len: "recordLen rec = ur_Len rec" using assms by (simp add: recordLen_def uploadOk_def)
  have off: "unat ?off \<le> 2 ^ 62" "sint ?off = ur_Off rec"
    using assms offset_word [of "ur_Off rec"] by (simp_all add: uploadOk_def nat_le_iff)
  have w: "WriteUploadRecord rec @ rest = hdr @ (if ur_Zero rec then [] else ur_Data rec) @ rest"
    by (simp add: WriteUploadRecord_def hdr_def len)
  have l: "length hdr = 13" "Uint64 (drop 1 hdr) = ?off" "Uint32 (drop 9 hdr) = ur_Len rec" "hdr ! 0 = (if ur_Zero rec then 1 else 0)"
    by (simp_all add: hdr_def)
  have ok: "\<not> (ur_Len rec = 0 \<or> ur_Len rec > mx)" using assms by (auto simp: uploadOk_def not_less)
  have data: "ReadFull (ur_Data rec @ rest) (unat (ur_Len rec)) = Inr (ur_Data rec, rest)" if "\<not> ur_Zero rec"
    using that assms ReadFull_append [of "ur_Data rec" rest] by (simp add: uploadOk_def)
  show ?thesis unfolding ReadUploadRecord_def w ReadFull_append [of hdr, unfolded l(1)] using off ok assms
    by (cases "ur_Zero rec") (simp_all add: Let_def l data uploadOk_def del: One_nat_def)
qed

lemma ReadUploadRecord_parsed:
  assumes "ReadUploadRecord r mx = Inr (rec, rest)"
  shows "uploadOk mx rec \<and> r = WriteUploadRecord rec @ rest"
proof -
  obtain hdr rest1 where h: "length hdr = 13" "r = hdr @ rest1" and ok: "\<not> hdr ! 0 > 1" "unat (Uint64 (drop 1 hdr)) \<le> 2 ^ 62"
      "0 < Uint32 (drop 9 hdr)" "Uint32 (drop 9 hdr) \<le> mx"
    and rec: "if hdr ! 0 = 1 then (rec, rest) = (\<lparr>ur_Off = sint (Uint64 (drop 1 hdr)), ur_Zero = True, ur_Len = Uint32 (drop 9 hdr), ur_Data = []\<rparr>, rest1)
      else \<exists>data. ReadFull rest1 (unat (Uint32 (drop 9 hdr))) = Inr (data, rest)
        \<and> rec = \<lparr>ur_Off = sint (Uint64 (drop 1 hdr)), ur_Zero = False, ur_Len = Uint32 (drop 9 hdr), ur_Data = data\<rparr>"
    using assms unfolding ReadUploadRecord_def Let_def
    by (auto simp: ReadFull_Inr not_less word_neq_0_conv split: sum.splits prod.splits if_splits)
  have "drop 0 hdr = hdr ! 0 # drop 1 hdr" using h(1) Cons_nth_drop_Suc [of 0 hdr] by simp
  moreover have "drop 1 hdr = take 8 (drop 1 hdr) @ take 4 (drop 9 hdr)"
    using append_take_drop_id [of 8 "drop 1 hdr"] h(1) by simp
  ultimately have "hdr = [hdr ! 0] @ take 8 (drop 1 hdr) @ take 4 (drop 9 hdr)" by simp
  then have parts: "hdr = [hdr ! 0] @ PutUint64 (of_int (sint (Uint64 (drop 1 hdr)))) @ PutUint32 (Uint32 (drop 9 hdr))"
    using word_offset(3) [OF ok(2)] Put_Uint64 [of "drop 1 hdr"] Put_Uint32 [of "drop 9 hdr"] h(1) by simp
  show ?thesis
  proof (cases "hdr ! 0 = 1")
    case True
    then show ?thesis using rec ok word_offset(1,2) [OF ok(2)] parts h(2) by (simp add: uploadOk_def WriteUploadRecord_def recordLen_def)
  next
    case False
    then obtain data where d: "length data = unat (Uint32 (drop 9 hdr))" "rest1 = data @ rest"
      and r: "rec = \<lparr>ur_Off = sint (Uint64 (drop 1 hdr)), ur_Zero = False, ur_Len = Uint32 (drop 9 hdr), ur_Data = data\<rparr>"
      using rec by (auto simp: ReadFull_Inr)
    have "hdr ! 0 = 0" using False byte_flag [OF ok(1)] by simp
    then show ?thesis using ok word_offset(1,2) [OF ok(2)] parts h(2) d by (simp add: r uploadOk_def WriteUploadRecord_def recordLen_def)
  qed
qed

section \<open>Properties\<close>

text \<open>
  C35: the wire format loses nothing. A compare entry or an upload record is read back exactly when the bytes are what
  is written for it, followed by the rest, and the entry or record is in range; anything else, cut short or with
  an unknown kind, is refused.
\<close>

theorem wire_roundtrip:
  "(ReadCompareEntry r = Inr (e, rest) \<longleftrightarrow> compareOk e \<and> r = AppendCompareEntry [] e @ rest)
   \<and> (ReadUploadRecord r mx = Inr (rec, rest) \<longleftrightarrow> uploadOk mx rec \<and> r = WriteUploadRecord rec @ rest)"
  using ReadCompareEntry_Append ReadCompareEntry_parsed ReadUploadRecord_Write ReadUploadRecord_parsed by blast

end
