(* ===== verification/Vm_Receiver.thy ===== *)
theory Vm_Receiver
  imports Undo_Volume Vm_Wire
begin

text \<open>
  \<^verbatim>\<open>pkg/replication/receiver_vm.go\<close>: the calls that store a staged copy of a VM disk and apply it. The
  state of a receiver is the volume of the disk, the upload folder of one copy and the lease file; a handler
  takes the state to an answer and the new state. Every call to the file system takes its outcome from
  \<open>vo_faults\<close> of the volume, as for the volume itself. The manifest is written through a buffer of
  1 MiB, so entries reach the file late; the buffer is part of the loops.

  A time in the base file and in the lease file is its value instead of its text; a file that was not written
  completely reads as no time. The request body is the bytes that arrive, and a commit request is decoded.
  Locking, authentication and the paths of a request are not part of the model.
\<close>

section \<open>The state\<close>

datatype momentText = NoDisk | UnknownMoment | Shows int | Torn

datatype leaseFile = Expires int | Unreadable

record session =
  se_manifest :: "byte list option"
  se_data :: "byte list option"
  se_base :: "momentText option"

record receiver =
  rv_vol :: volume
  rv_session :: "session option"
  rv_lease :: "leaseFile option"
  rv_maxVMDiskBytes :: int

type_synonym ('e, 'a) step = "receiver \<Rightarrow> ('e + 'a) \<times> receiver"

definition pass :: "'a \<Rightarrow> ('e, 'a) step" where
  "pass x s = (Inr x, s)"

definition refuse :: "'e \<Rightarrow> ('e, 'a) step" where
  "refuse e s = (Inl e, s)"

definition bind :: "('e, 'a) step \<Rightarrow> ('a \<Rightarrow> ('e, 'b) step) \<Rightarrow> ('e, 'b) step" where
  "bind m k s = (case m s of (Inl e, s1) \<Rightarrow> (Inl e, s1) | (Inr x, s1) \<Rightarrow> k x s1)"

text \<open>A call on the volume, and a call on the files of the session.\<close>

definition onVolume :: "'a action \<Rightarrow> (string, 'a) step" where
  "onVolume m s = (case m (rv_vol s) of (r, v) \<Rightarrow> (r, s\<lparr>rv_vol := v\<rparr>))"

definition fileCall :: "(string, 'a) step \<Rightarrow> (string, 'a) step" where
  "fileCall m s =
     (case attempt (rv_vol s) of
        (Some _, v) \<Rightarrow> (Inl ''i/o error'', s\<lparr>rv_vol := v\<rparr>)
      | (None, v) \<Rightarrow> m (s\<lparr>rv_vol := v\<rparr>))"

definition emptySession :: session where
  "emptySession = \<lparr>se_manifest = None, se_data = None, se_base = None\<rparr>"

definition theSession :: "receiver \<Rightarrow> session" where
  "theSession s = (case rv_session s of None \<Rightarrow> emptySession | Some se \<Rightarrow> se)"

definition contentsOf :: "byte list option \<Rightarrow> byte list" where
  "contentsOf f = (case f of None \<Rightarrow> [] | Some b \<Rightarrow> b)"

text \<open>An append that fails may leave part of the bytes.\<close>

definition appendManifest :: "byte list \<Rightarrow> (string, unit) step" where
  "appendManifest b s =
     (case attempt (rv_vol s) of
        (k, v) \<Rightarrow>
          let se = theSession s; w = (case k of None \<Rightarrow> b | Some n \<Rightarrow> take n b) in
          (if k = None then Inr () else Inl ''i/o error'',
           s\<lparr>rv_vol := v, rv_session := Some (se\<lparr>se_manifest := Some (contentsOf (se_manifest se) @ w)\<rparr>)\<rparr>))"

definition appendData :: "byte list \<Rightarrow> (string, unit) step" where
  "appendData b s =
     (case attempt (rv_vol s) of
        (k, v) \<Rightarrow>
          let se = theSession s; w = (case k of None \<Rightarrow> b | Some n \<Rightarrow> take n b) in
          (if k = None then Inr () else Inl ''i/o error'',
           s\<lparr>rv_vol := v, rv_session := Some (se\<lparr>se_data := Some (contentsOf (se_data se) @ w)\<rparr>)\<rparr>))"

definition syncCall :: "(string, unit) step" where
  "syncCall = fileCall (pass ())"

section \<open>Segments\<close>

definition segData :: byte where "segData = 0"
definition segZero :: byte where "segZero = 1"
definition segSame :: byte where "segSame = 2"

record seg =
  sg_kind :: byte
  sg_off :: int
  sg_length :: "32 word"
  sg_pos :: int

definition manifestEntrySize :: nat where
  "manifestEntrySize = 1 + 8 + 4 + 8"

definition DefaultMaxVMDiskBytes :: int where
  "DefaultMaxVMDiskBytes = 2 * 2 ^ 40"

definition vmLimit :: "receiver \<Rightarrow> int" where
  "vmLimit s = (if rv_maxVMDiskBytes s > 0 then rv_maxVMDiskBytes s else DefaultMaxVMDiskBytes)"

definition seg_valid :: "seg \<Rightarrow> bool" where
  "seg_valid s \<longleftrightarrow> sg_kind s \<le> segSame \<and> sg_off s \<ge> 0 \<and> sg_pos s \<ge> 0 \<and> sg_length s > 0 \<and> unat (sg_length s) \<le> compareChunk"

definition appendSeg :: "seg \<Rightarrow> byte list" where
  "appendSeg s = [sg_kind s] @ PutUint64 (of_int (sg_off s)) @ PutUint32 (sg_length s) @ PutUint64 (of_int (sg_pos s))"

definition readSeg :: "byte list \<Rightarrow> seg" where
  "readSeg buf = \<lparr>sg_kind = buf ! 0, sg_off = sint (Uint64 (drop 1 buf)), sg_length = Uint32 (drop 9 buf),
     sg_pos = sint (Uint64 (drop 13 buf))\<rparr>"

text \<open>The segments by offset, the latest for an offset first.\<close>

type_synonym segMap = "(int \<times> seg) list"

definition putSeg :: "seg \<Rightarrow> segMap \<Rightarrow> segMap" where
  "putSeg s m = (sg_off s, s) # filter (\<lambda>p. fst p \<noteq> sg_off s) m"

text \<open>The loop of \<open>loadSession\<close>: the segments, the bytes of entries that can be right.\<close>

function loadLoop :: "nat \<Rightarrow> byte list \<Rightarrow> segMap \<Rightarrow> nat \<Rightarrow> segMap \<times> nat" where
  "loadLoop dataSize r segs good =
     (if length r < manifestEntrySize then (segs, good)
      else
        let s = readSeg (take manifestEntrySize r) in
        if \<not> seg_valid s then (segs, good)
        else loadLoop dataSize (drop manifestEntrySize r)
          (if sg_kind s = segData \<and> wrap64 (sg_pos s + uint (sg_length s)) > int dataSize then segs else putSeg s segs)
          (good + manifestEntrySize))"
  by auto
termination
  by (relation "measure (\<lambda>(d, r, m, g). length r)") (auto simp: manifestEntrySize_def)

declare loadLoop.simps [simp del]

text \<open>The size of the staging file, zero when it cannot be looked up.\<close>

definition dataSizeOf :: "(string, nat) step" where
  "dataSizeOf s =
     (case fileCall (\<lambda>s. (Inr (length (contentsOf (se_data (theSession s)))), s)) s of
        (Inr n, s1) \<Rightarrow> (Inr n, s1)
      | (Inl e, s1) \<Rightarrow> (Inr 0, s1))"

definition truncateManifest :: "nat \<Rightarrow> (string, unit) step" where
  "truncateManifest n =
     bind (fileCall (pass ())) (\<lambda>_.
     bind (fileCall (\<lambda>s. (Inr (), s\<lparr>rv_session :=
       map_option (\<lambda>se. se\<lparr>se_manifest := map_option (Truncate n) (se_manifest se)\<rparr>) (rv_session s)\<rparr>))) (\<lambda>_.
     syncCall))"

definition loadSession :: "(string, segMap) step" where
  "loadSession =
     bind (fileCall (\<lambda>s. (Inr (se_manifest (theSession s)), s))) (\<lambda>f.
       case f of
         None \<Rightarrow> pass []
       | Some m \<Rightarrow>
           bind dataSizeOf (\<lambda>dataSize.
             case loadLoop dataSize m [] 0 of (segs, good) \<Rightarrow>
               bind (fileCall (pass ())) (\<lambda>_.
               bind (fileCall (pass ())) (\<lambda>_.
               bind (if length m \<noteq> good then truncateManifest good else pass ()) (\<lambda>_.
               pass segs)))))"

definition openSession :: "(string, unit) step" where
  "openSession =
     bind (fileCall (\<lambda>s. (Inr (), s\<lparr>rv_session := Some (theSession s)\<rparr>))) (\<lambda>_.
     bind loadSession (\<lambda>_.
     bind (fileCall (\<lambda>s. (Inr (), s\<lparr>rv_session := Some ((theSession s)\<lparr>se_manifest := Some (contentsOf (se_manifest (theSession s)))\<rparr>)\<rparr>))) (\<lambda>_.
     fileCall (\<lambda>s. (Inr (), s\<lparr>rv_session := Some ((theSession s)\<lparr>se_data := Some (contentsOf (se_data (theSession s)))\<rparr>)\<rparr>)))))"

definition discardSession :: "receiver \<Rightarrow> receiver" where
  "discardSession s = snd (fileCall (\<lambda>s. (Inr (), s\<lparr>rv_session := None\<rparr>)) s)"

section \<open>Answers\<close>

datatype answer =
  Refused nat string
| Conflicted string momentText
| Status "int list" momentText
| Needed "byte list" momentText
| Stored
| Committed ApplyResult "int list"

text \<open>A failing step becomes an answer with a status code.\<close>

definition orStatus :: "nat \<Rightarrow> (string, 'a) step \<Rightarrow> (answer, 'a) step" where
  "orStatus code m s = (case m s of (Inl e, s1) \<Rightarrow> (Inl (Refused code e), s1) | (Inr x, s1) \<Rightarrow> (Inr x, s1))"

definition answerOf :: "(answer, answer) step \<Rightarrow> receiver \<Rightarrow> answer \<times> receiver" where
  "answerOf m s = (case m s of (Inl a, s1) \<Rightarrow> (a, s1) | (Inr a, s1) \<Rightarrow> (a, s1))"

definition baseMoment :: "(string, momentText) step" where
  "baseMoment =
     bind (onVolume diskInfo) (\<lambda>info.
       if info = None then pass NoDisk
       else bind (onVolume moment) (\<lambda>t. pass (case t of None \<Rightarrow> UnknownMoment | Some m \<Rightarrow> Shows m)))"

definition conflict :: "string \<Rightarrow> (answer, 'a) step" where
  "conflict msg s = (case baseMoment s of (Inr m, s1) \<Rightarrow> (Inl (Conflicted msg m), s1) | (Inl e, s1) \<Rightarrow> (Inl (Conflicted msg UnknownMoment), s1))"

definition status :: "receiver \<Rightarrow> answer \<times> receiver" where
  "status = answerOf
     (bind (orStatus 500 loadSession) (\<lambda>segs.
      bind (orStatus 500 baseMoment) (\<lambda>m.
      pass (Status (sort (map fst (filter (\<lambda>p. sg_kind (snd p) = segData) segs))) m))))"

section \<open>Storing records\<close>

text \<open>
  \<^verbatim>\<open>bufio.Writer\<close> for the manifest: the buffer is written when it is full. A segment is smaller than the
  buffer.
\<close>

definition bufSize :: nat where
  "bufSize = 2 ^ 20"

definition bufWrite :: "byte list \<Rightarrow> byte list \<Rightarrow> (string, byte list) step" where
  "bufWrite buf p =
     (if length p \<le> bufSize - length buf then pass (buf @ p)
      else
        let k = bufSize - length buf in
        bind (appendManifest (buf @ take k p)) (\<lambda>_. pass (drop k p)))"

definition bufFlush :: "byte list \<Rightarrow> (string, unit) step" where
  "bufFlush buf = (if buf = [] then pass () else appendManifest buf)"

definition storeRecord :: "UploadRecord \<Rightarrow> nat \<Rightarrow> byte list \<Rightarrow> (answer, nat \<times> byte list) step" where
  "storeRecord rec pos mbuf s =
     (if ur_Off rec + uint (ur_Len rec) > vmLimit s then (Inl (Refused 400 ''past the disk size limit''), s)
      else
        let sg = \<lparr>sg_kind = (if ur_Zero rec then segZero else segData), sg_off = ur_Off rec, sg_length = ur_Len rec,
                  sg_pos = (if ur_Zero rec then 0 else int pos)\<rparr> in
        bind (orStatus 500 (if ur_Zero rec then pass () else bind (appendData (ur_Data rec)) (\<lambda>_. syncCall))) (\<lambda>_.
        bind (orStatus 500 (bufWrite mbuf (appendSeg sg))) (\<lambda>mbuf.
        pass (if ur_Zero rec then pos else pos + unat (ur_Len rec), mbuf))) s)"

lemma ReadUploadRecord_rest: "ReadUploadRecord r mx = Inr (rec, rest) \<Longrightarrow> length rest < length r"
  using ReadUploadRecord_parsed [of r mx rec rest] by (auto simp: WriteUploadRecord_def)

function uploadLoop :: "byte list \<Rightarrow> nat \<Rightarrow> byte list \<Rightarrow> (answer, byte list) step" where
  "uploadLoop body pos mbuf =
     (case ReadUploadRecord body (of_nat compareChunk) of
        Inl e \<Rightarrow> if e = ''EOF'' then pass mbuf else refuse (Refused 400 e)
      | Inr (rec, rest) \<Rightarrow> bind (storeRecord rec pos mbuf) (\<lambda>(pos, mbuf). uploadLoop rest pos mbuf))"
  by pat_completeness auto
termination
  by (relation "measure (\<lambda>(body, pos, mbuf). length body)") (auto dest: ReadUploadRecord_rest)

declare uploadLoop.simps [simp del]

definition upload :: "byte list \<Rightarrow> receiver \<Rightarrow> answer \<times> receiver" where
  "upload body = answerOf
     (bind (orStatus 500 openSession) (\<lambda>_.
      bind (orStatus 500 (fileCall (\<lambda>s. (Inr (length (contentsOf (se_data (theSession s)))), s)))) (\<lambda>pos.
      bind (uploadLoop body pos []) (\<lambda>mbuf.
      bind (orStatus 500 (bind syncCall (\<lambda>_. bind (bufFlush mbuf) (\<lambda>_. syncCall)))) (\<lambda>_.
      pass Stored)))))"

section \<open>Comparing\<close>

lemma ReadCompareEntry_rest: "ReadCompareEntry r = Inr (e, rest) \<Longrightarrow> length rest < length r"
  using ReadCompareEntry_parsed [of r e rest] by (auto simp: AppendCompareEntry_def)

definition writeSessionFile :: "momentText \<Rightarrow> (string, unit) step" where
  "writeSessionFile b =
     bind (fileCall (\<lambda>s. (Inr (), s\<lparr>rv_session := Some ((theSession s)\<lparr>se_base := Some Torn\<rparr>)\<rparr>))) (\<lambda>_.
     fileCall (\<lambda>s. (Inr (), s\<lparr>rv_session := Some ((theSession s)\<lparr>se_base := Some b\<rparr>)\<rparr>)))"

text \<open>One entry: the segment that is noted, or the offset that is needed. The disk is opened for reading.\<close>

definition compareOne :: "(byte list \<Rightarrow> byte list) \<Rightarrow> byte list option \<Rightarrow> CompareEntry \<Rightarrow> byte list \<Rightarrow> byte list
    \<Rightarrow> (answer, byte list \<times> byte list) step" where
  "compareOne sha256 disk e mbuf need s =
     (if ce_Len e = 0 \<or> unat (ce_Len e) > compareChunk \<or> ce_Off e + uint (ce_Len e) > vmLimit s
      then (Inl (Refused 400 ''entry out of range''), s)
      else
        bind (case disk of
            None \<Rightarrow> pass False
          | Some d \<Rightarrow>
              if ce_Zero e \<or> ce_Off e + uint (ce_Len e) > int (length d) then pass False
              else orStatus 500 (fileCall (pass (sha256 (ReadAt d (nat (ce_Off e)) (unat (ce_Len e))) = ce_Hash e)))) (\<lambda>same.
        let sg = \<lparr>sg_kind = (if ce_Zero e then segZero else if same then segSame else segData), sg_off = ce_Off e,
                  sg_length = ce_Len e, sg_pos = 0\<rparr> in
        if ce_Zero e \<or> same then bind (orStatus 500 (bufWrite mbuf (appendSeg sg))) (\<lambda>mbuf. pass (mbuf, need))
        else pass (mbuf, need @ PutUint64 (of_int (ce_Off e)))) s)"

function compareLoop :: "(byte list \<Rightarrow> byte list) \<Rightarrow> byte list option \<Rightarrow> byte list \<Rightarrow> byte list \<Rightarrow> byte list
    \<Rightarrow> (answer, byte list \<times> byte list) step" where
  "compareLoop sha256 disk body mbuf need =
     (case ReadCompareEntry body of
        Inl e \<Rightarrow> if e = ''EOF'' then pass (mbuf, need) else refuse (Refused 400 e)
      | Inr (e, rest) \<Rightarrow> bind (compareOne sha256 disk e mbuf need) (\<lambda>(mbuf, need). compareLoop sha256 disk rest mbuf need))"
  by pat_completeness auto
termination
  by (relation "measure (\<lambda>(h, disk, body, mbuf, need). length body)") (auto dest: ReadCompareEntry_rest)

declare compareLoop.simps [simp del]

text \<open>The disk to compare with; an error when it is looked up counts as no disk.\<close>

definition compareDisk :: "(answer, byte list option) step" where
  "compareDisk s =
     (case onVolume diskInfo s of
        (Inr (Some n), s1) \<Rightarrow> bind (orStatus 500 (onVolume openDisk)) (\<lambda>_ s. (Inr (Some (contents Disk (rv_vol s))), s)) s1
      | (_, s1) \<Rightarrow> (Inr None, s1))"

definition compare :: "(byte list \<Rightarrow> byte list) \<Rightarrow> byte list \<Rightarrow> receiver \<Rightarrow> answer \<times> receiver" where
  "compare sha256 body = answerOf
     (bind (orStatus 500 (onVolume recover)) (\<lambda>_.
      bind (orStatus 500 baseMoment) (\<lambda>base.
      bind compareDisk (\<lambda>disk.
      bind (orStatus 500 openSession) (\<lambda>_.
      bind (compareLoop sha256 disk body [] []) (\<lambda>(mbuf, need).
      bind (orStatus 500 (bind (bufFlush mbuf) (\<lambda>_. bind syncCall (\<lambda>_. writeSessionFile base)))) (\<lambda>_.
      pass (Needed need base))))))))"

section \<open>Committing\<close>

text \<open>The stored copy as a copy source; the data of a segment that is the same is on the disk.\<close>

definition segExtent :: "seg \<Rightarrow> Extent" where
  "segExtent s = \<lparr>e_Offset = nat (sg_off s), e_Length = unat (sg_length s), e_Kind = (if sg_kind s = segZero then Zero else Data),
     e_HostOffset = 0\<rparr>"

definition segReader :: "byte list \<Rightarrow> byte list \<Rightarrow> seg \<Rightarrow> byte list" where
  "segReader staging disk s =
     (if sg_kind s = segSame then ReadAt disk (nat (sg_off s)) (unat (sg_length s))
      else ReadAt staging (nat (sg_pos s)) (unat (sg_length s)))"

definition receivedCopy :: "nat \<Rightarrow> seg list \<Rightarrow> byte list \<Rightarrow> CopySource" where
  "receivedCopy n segs staging =
     \<lparr>cs_Size = n, cs_Walk = (map segExtent segs, None),
      cs_DataReader = (\<lambda>disk e. case find (\<lambda>s. nat (sg_off s) = e_Offset e) segs of None \<Rightarrow> [] | Some s \<Rightarrow> segReader staging disk s)\<rparr>"

fun segsFit :: "int \<Rightarrow> int \<Rightarrow> int \<Rightarrow> seg list \<Rightarrow> string option" where
  "segsFit newSize oldSize stop [] = None"
| "segsFit newSize oldSize stop (s # segs) =
     (let e = wrap64 (sg_off s + uint (sg_length s)) in
      if sg_off s < stop then Some ''records overlap''
      else if e > newSize then Some ''past the end of the disk''
      else if sg_kind s = segSame \<and> e > oldSize then Some ''past the end of the old disk''
      else segsFit newSize oldSize e segs)"

text \<open>The records of the digest, read back from what is stored.\<close>

fun storedRecords :: "byte list \<Rightarrow> seg list \<Rightarrow> (string, UploadRecord list) step" where
  "storedRecords staging [] = pass []"
| "storedRecords staging (s # segs) =
     (if sg_kind s = segZero then
        bind (storedRecords staging segs) (\<lambda>recs.
        pass (\<lparr>ur_Off = sg_off s, ur_Zero = True, ur_Len = sg_length s, ur_Data = []\<rparr> # recs))
      else if sg_kind s = segData then
        bind (fileCall (\<lambda>st.
          let b = ReadAt staging (nat (sg_pos s)) (unat (sg_length s)) in
          if length b < unat (sg_length s) then (Inl ''EOF'', st) else (Inr b, st))) (\<lambda>b.
        bind (storedRecords staging segs) (\<lambda>recs.
        pass (\<lparr>ur_Off = sg_off s, ur_Zero = False, ur_Len = 0, ur_Data = b\<rparr> # recs)))
      else storedRecords staging segs)"

definition checkDigest :: "(byte list \<Rightarrow> string) \<Rightarrow> byte list \<Rightarrow> seg list \<Rightarrow> string \<Rightarrow> (string, unit) step" where
  "checkDigest sha256hex staging segs want =
     bind (storedRecords staging segs) (\<lambda>recs.
       if digestSum sha256hex recs \<noteq> want then refuse ''the stored records do not match the digest'' else pass ())"

definition leaseTTL :: int where
  "leaseTTL = 3600 * 10 ^ 9"

definition writeLeaseFile :: "int \<Rightarrow> (string, unit) step" where
  "writeLeaseFile expires =
     bind (fileCall (\<lambda>s. (Inr (), s\<lparr>rv_lease := Some Unreadable\<rparr>))) (\<lambda>_.
     fileCall (\<lambda>s. (Inr (), s\<lparr>rv_lease := Some (Expires expires)\<rparr>)))"

definition removeLeaseFile :: "receiver \<Rightarrow> receiver" where
  "removeLeaseFile s = snd (fileCall (\<lambda>s. (Inr (), s\<lparr>rv_lease := None\<rparr>)) s)"

definition LeaseActive :: "int \<Rightarrow> (string, bool) step" where
  "LeaseActive now =
     bind (fileCall (\<lambda>s. (Inr (rv_lease s), s))) (\<lambda>l.
       case l of None \<Rightarrow> pass False | Some f \<Rightarrow> fileCall (pass (case f of Unreadable \<Rightarrow> True | Expires t \<Rightarrow> now < t)))"

text \<open>The copy must start from the moment that the disk shows; the reason when it does not.\<close>

definition startConflict :: "CommitRequest \<Rightarrow> bool \<Rightarrow> int option \<Rightarrow> string option" where
  "startConflict cr exists cur =
     (if \<not> exists \<and> cr_From cr \<noteq> None then Some ''there is no disk''
      else if \<not> exists \<and> \<not> cr_Full cr then Some ''the copy must be a full copy''
      else if exists \<and> cr_From cr = None \<and> (cur \<noteq> None \<or> \<not> cr_Full cr) then Some ''a first copy cannot replace it''
      else if exists \<and> cr_From cr \<noteq> None \<and> cur \<noteq> cr_From cr then Some ''the disk shows another moment''
      else None)"

text \<open>The answer of a compare call holds only while the disk is the same; a base file that cannot be opened is not looked at.\<close>

definition checkBase :: "(answer, unit) step" where
  "checkBase s =
     (case fileCall (\<lambda>s. (case se_base (theSession s) of None \<Rightarrow> Inl ''no such file'' | Some b \<Rightarrow> Inr b, s)) s of
        (Inl e, s1) \<Rightarrow> (Inr (), s1)
      | (Inr b, s1) \<Rightarrow>
          (case fileCall (pass b) s1 of (r, s2) \<Rightarrow>
            bind (orStatus 500 baseMoment) (\<lambda>now.
              if (case r of Inr saved \<Rightarrow> saved | Inl e \<Rightarrow> Torn) \<noteq> now then refuse (Refused 409 ''the disk changed after the compare call'') else pass ()) s2))"

definition commitOptions :: "CommitRequest \<Rightarrow> bool \<Rightarrow> int \<Rightarrow> ApplyOptions" where
  "commitOptions cr exists now =
     \<lparr>ao_From = (case cr_From cr of Some t \<Rightarrow> t | None \<Rightarrow> if exists then 0 else zeroTime), ao_To = cr_To cr, ao_Full = cr_Full cr,
      ao_Keep = wrap64 (cr_KeepSeconds cr * 10 ^ 9), ao_Now = now\<rparr>"

text \<open>The stored segments, checked against the sizes and the digest.\<close>

definition stagedCopy :: "(byte list \<Rightarrow> string) \<Rightarrow> CommitRequest \<Rightarrow> nat \<Rightarrow> (answer, CopySource) step" where
  "stagedCopy sha256hex cr oldSize =
     bind (orStatus 500 loadSession) (\<lambda>stored.
       let segs = sort_key sg_off (map snd stored) in
       case segsFit (cr_Size cr) (int oldSize) 0 segs of
         Some e \<Rightarrow> refuse (Refused 400 e)
       | None \<Rightarrow>
           bind (orStatus 500 (fileCall (\<lambda>s. (case se_data (theSession s) of
               None \<Rightarrow> if segs = [] then Inr [] else Inl ''no such file'' | Some d \<Rightarrow> Inr d, s)))) (\<lambda>staging s.
             case checkDigest sha256hex staging segs (cr_Digest cr) s of
               (Inl e, s1) \<Rightarrow> (Inl (Refused 400 e), discardSession s1)
             | (Inr _, s1) \<Rightarrow> (Inr (receivedCopy (nat (cr_Size cr)) segs staging), s1)))"

definition commitLeased :: "(byte list \<Rightarrow> string) \<Rightarrow> CommitRequest \<Rightarrow> int \<Rightarrow> (answer, answer) step" where
  "commitLeased sha256hex cr now =
     bind (orStatus 500 (onVolume recover)) (\<lambda>_.
     bind (orStatus 500 (onVolume diskInfo)) (\<lambda>info.
     bind (orStatus 500 (if info = None then pass None else onVolume moment)) (\<lambda>cur.
       case startConflict cr (info \<noteq> None) cur of
         Some msg \<Rightarrow> conflict msg
       | None \<Rightarrow>
           bind checkBase (\<lambda>_.
           bind (stagedCopy sha256hex cr (case info of None \<Rightarrow> 0 | Some n \<Rightarrow> n)) (\<lambda>rc.
           bind (orStatus 500 (if info = None then pass () else onVolume openDisk)) (\<lambda>_.
           bind (orStatus 500 (onVolume (ApplyCopy rc (commitOptions cr (info \<noteq> None) now)))) (\<lambda>res.
           bind (orStatus 500 (onVolume (writeMomentFile
             \<lparr>mf_Moment = cr_To cr, mf_VMGroup = cr_VMGroup cr, mf_DiskMtimeNs = 0, mf_DiskSize = 0\<rparr>))) (\<lambda>_ s.
             case onVolume RestorePoints (discardSession s) of
               (Inr points, s1) \<Rightarrow> (Inr (Committed res points), s1)
             | (Inl e, s1) \<Rightarrow> (Inr (Committed res []), s1)))))))))"

definition commit :: "(byte list \<Rightarrow> string) \<Rightarrow> CommitRequest option \<Rightarrow> int \<Rightarrow> receiver \<Rightarrow> answer \<times> receiver" where
  "commit sha256hex request now s =
     (case request of
        None \<Rightarrow> (Refused 400 ''bad commit request'', s)
      | Some cr \<Rightarrow>
          if cr_Size cr \<le> 0 \<or> cr_To cr = zeroTime then (Refused 400 ''size and to are required'', s)
          else if cr_Size cr > vmLimit s then (Refused 413 ''above the limit'', s)
          else
            case orStatus 500 (writeLeaseFile (now + leaseTTL)) s of
              (Inl a, s1) \<Rightarrow> (a, s1)
            | (Inr _, s1) \<Rightarrow> (case answerOf (commitLeased sha256hex cr now) s1 of (a, s2) \<Rightarrow> (a, removeLeaseFile s2)))"

end
