(* ===== verification/Vm_Receiver_Properties.thy ===== *)
theory Vm_Receiver_Properties
  imports Undo_Properties Vm_Receiver
begin

text \<open>
  What the receiver stores of a copy, whatever fails on the way, and what a commit does to the backup.
\<close>

section \<open>The manifest\<close>

text \<open>The entries that can be right, up to the first that cannot.\<close>

function entriesOf :: "byte list \<Rightarrow> seg list" where
  "entriesOf r =
     (if length r < 21 then []
      else let s = readSeg (take 21 r) in if \<not> seg_valid s then [] else s # entriesOf (drop 21 r))"
  by auto
termination
  by (relation "measure length") auto

declare entriesOf.simps [simp del]

definition missingData :: "nat \<Rightarrow> seg \<Rightarrow> bool" where
  "missingData n s \<longleftrightarrow> sg_kind s = segData \<and> wrap64 (sg_pos s + uint (sg_length s)) > int n"

lemma loadLoop_entries:
  "loadLoop n r segs good =
     (foldl (\<lambda>m s. if missingData n s then m else putSeg s m) segs (entriesOf r), good + 21 * length (entriesOf r))"
proof (induction r arbitrary: segs good rule: entriesOf.induct)
  case (1 r)
  show ?case
  proof (cases "length r < 21 \<or> \<not> seg_valid (readSeg (take 21 r))")
    case True
    then show ?thesis by (subst loadLoop.simps, subst (1 2) entriesOf.simps) (auto simp: manifestEntrySize_def Let_def)
  next
    case False
    then have IH: "loadLoop n (drop 21 r) segs good =
        (foldl (\<lambda>m s. if missingData n s then m else putSeg s m) segs (entriesOf (drop 21 r)), good + 21 * length (entriesOf (drop 21 r)))" for segs good
      by (intro "1.IH") (auto simp: Let_def)
    have "entriesOf r = readSeg (take 21 r) # entriesOf (drop 21 r)" using False by (subst entriesOf.simps) (simp add: Let_def)
    then show ?thesis using False by (subst loadLoop.simps) (simp add: manifestEntrySize_def Let_def IH missingData_def)
  qed
qed

text \<open>An entry that the receiver writes.\<close>

definition segOk :: "seg \<Rightarrow> bool" where
  "segOk s \<longleftrightarrow> seg_valid s \<and> sg_off s \<le> 2 ^ 62 \<and> sg_pos s < 2 ^ 63"

lemma length_appendSeg [simp]: "length (appendSeg s) = 21"
  by (simp add: appendSeg_def)

lemma readSeg_append: "segOk s \<Longrightarrow> readSeg (appendSeg s) = s"
proof -
  assume s: "segOk s"
  have "sint (of_int (sg_off s) :: 64 word) = sg_off s" "sint (of_int (sg_pos s) :: 64 word) = sg_pos s"
    using s by (simp_all add: segOk_def seg_valid_def int64_uint64 int64_range_def)
  moreover have "Uint64 (drop 1 (appendSeg s)) = of_int (sg_off s)" "Uint32 (drop 9 (appendSeg s)) = sg_length s"
    "Uint64 (drop 13 (appendSeg s)) = of_int (sg_pos s)" "appendSeg s ! 0 = sg_kind s"
    by (simp_all add: appendSeg_def)
  ultimately show ?thesis by (simp add: readSeg_def)
qed

lemma append_readSeg: "length b = 21 \<Longrightarrow> appendSeg (readSeg b) = b"
proof -
  assume b: "length b = 21"
  have "drop 0 b = b ! 0 # drop 1 b" using b Cons_nth_drop_Suc [of 0 b] by simp
  moreover have "drop 1 b = take 8 (drop 1 b) @ take 4 (drop 9 b) @ take 8 (drop 13 b)"
    using append_take_drop_id [of 8 "drop 1 b"] append_take_drop_id [of 4 "drop 9 b"] b by simp
  ultimately have "b = [b ! 0] @ take 8 (drop 1 b) @ take 4 (drop 9 b) @ take 8 (drop 13 b)" by simp
  then show ?thesis
    using b Put_Uint64 [of "drop 1 b"] Put_Uint32 [of "drop 9 b"] Put_Uint64 [of "drop 13 b"] by (simp add: appendSeg_def readSeg_def)
qed

abbreviation encodeSegs :: "seg list \<Rightarrow> byte list" where
  "encodeSegs ss \<equiv> concat (map appendSeg ss)"

lemma length_encodeSegs [simp]: "length (encodeSegs ss) = 21 * length ss"
  by (induction ss) simp_all

lemma entriesOf_encode: "list_all segOk ss \<Longrightarrow> entriesOf (encodeSegs ss @ r) = ss @ entriesOf r"
proof (induction ss)
  case (Cons s ss)
  have "entriesOf (appendSeg s @ x) = s # entriesOf x" for x
    using Cons.prems by (subst entriesOf.simps) (simp add: readSeg_append Let_def, simp add: segOk_def)
  then show ?case using Cons by simp
qed simp

lemma entriesOf_short: "length r < 21 \<Longrightarrow> entriesOf r = []"
  by (simp add: entriesOf.simps)

lemma entriesOf_take:
  assumes "list_all segOk ss"
  shows "entriesOf (take k (encodeSegs ss)) = take (k div 21) ss"
proof -
  define j where "j = k div 21"
  show ?thesis
  proof (cases "j < length ss")
    case True
    have split: "encodeSegs ss = encodeSegs (take j ss) @ appendSeg (ss ! j) @ encodeSegs (drop (Suc j) ss)"
      using id_take_nth_drop [OF True] by (metis append.assoc concat.simps(2) concat_append list.simps(9) map_append)
    have k: "k = 21 * j + k mod 21" "k mod 21 < 21" by (simp_all add: j_def)
    have "length (encodeSegs (take j ss)) = 21 * j" using True by simp
    then have "take k (encodeSegs ss) = encodeSegs (take j ss) @ take (k mod 21) (appendSeg (ss ! j) @ encodeSegs (drop (Suc j) ss))"
      unfolding split using k by (metis add_diff_cancel_left' append_take_drop_id le_add1 take_append take_all)
    moreover have "entriesOf (take (k mod 21) (appendSeg (ss ! j) @ encodeSegs (drop (Suc j) ss))) = []"
      by (rule entriesOf_short) simp
    moreover have "list_all segOk (take j ss)" using assms by (auto simp: list_all_iff dest: in_set_takeD)
    ultimately show ?thesis using entriesOf_encode by (simp add: j_def)
  next
    case False
    then have "length (encodeSegs ss) \<le> k" by (simp add: j_def less_eq_div_iff_mult_less_eq mult.commute not_less)
    then have "take k (encodeSegs ss) = encodeSegs ss" by simp
    then show ?thesis using False entriesOf_encode [OF assms, of "[]"] entriesOf_short [of "[]"] by (simp add: j_def)
  qed
qed

text \<open>Any manifest is its entries and an end that does not begin with one.\<close>

lemma manifest_split:
  "\<exists>tail. m = encodeSegs (entriesOf m) @ tail \<and> entriesOf tail = []"
proof (induction m rule: entriesOf.induct)
  case (1 r)
  show ?case
  proof (cases "length r < 21 \<or> \<not> seg_valid (readSeg (take 21 r))")
    case True
    then have "entriesOf r = []" by (subst entriesOf.simps) (auto simp: Let_def)
    then show ?thesis by (intro exI [of _ r]) simp
  next
    case False
    then have e: "entriesOf r = readSeg (take 21 r) # entriesOf (drop 21 r)" by (subst entriesOf.simps) (simp add: Let_def)
    obtain tail where t: "drop 21 r = encodeSegs (entriesOf (drop 21 r)) @ tail" "entriesOf tail = []" using "1.IH" False by (auto simp: Let_def)
    have a: "appendSeg (readSeg (take 21 r)) = take 21 r" using False by (intro append_readSeg) simp
    show ?thesis unfolding e using t(2) by (intro exI [of _ tail]) (simp add: a flip: t(1))
  qed
qed

section \<open>Steps\<close>

text \<open>As for the actions on a volume: the step returns with \<open>Q\<close> or fails with \<open>E\<close>.\<close>

definition does :: "bool \<Rightarrow> (receiver \<Rightarrow> bool) \<Rightarrow> ('e, 'a) step \<Rightarrow> ('a \<Rightarrow> receiver \<Rightarrow> bool) \<Rightarrow> (receiver \<Rightarrow> bool) \<Rightarrow> bool" where
  "does F P m Q E \<longleftrightarrow> (\<forall>s. P s \<and> calm F (rv_vol s) \<longrightarrow>
     (case m s of (Inr x, s') \<Rightarrow> Q x s' \<and> calm F (rv_vol s') | (Inl e, s') \<Rightarrow> E s'))"

lemma doesI:
  "(\<And>s r s'. P s \<Longrightarrow> calm F (rv_vol s) \<Longrightarrow> m s = (r, s') \<Longrightarrow> case r of Inr x \<Rightarrow> Q x s' \<and> calm F (rv_vol s') | Inl e \<Rightarrow> E s') \<Longrightarrow> does F P m Q E"
  unfolding does_def by (intro allI impI) (metis (no_types, lifting) case_prodI2)

lemma doesD:
  "does F P m Q E \<Longrightarrow> P s \<Longrightarrow> calm F (rv_vol s) \<Longrightarrow> m s = (r, s') \<Longrightarrow> case r of Inr x \<Rightarrow> Q x s' \<and> calm F (rv_vol s') | Inl e \<Rightarrow> E s'"
  unfolding does_def by (drule spec [of _ s]) simp

lemma does_pass: "(\<And>s. P s \<Longrightarrow> Q x s) \<Longrightarrow> does F P (pass x) Q E"
  by (simp add: does_def pass_def)

lemma does_refuse: "(\<And>s. P s \<Longrightarrow> E s) \<Longrightarrow> does F P (refuse e) Q E"
  by (simp add: does_def refuse_def)

lemma does_bind:
  assumes "does F P m Q E" "\<And>x. does F (Q x) (k x) R E"
  shows "does F P (bind m k) R E"
proof (rule doesI)
  fix s r s' assume s: "P s" "calm F (rv_vol s)" "bind m k s = (r, s')"
  obtain x s1 where m: "m s = (x, s1)" by (rule prod.exhaust)
  note first = doesD [OF assms(1) s(1,2) m]
  show "case r of Inr x \<Rightarrow> R x s' \<and> calm F (rv_vol s') | Inl e \<Rightarrow> E s'"
  proof (cases x)
    case (Inl e)
    then show ?thesis using first s(3) by (auto simp: bind_def m)
  next
    case (Inr y)
    then have "k y s1 = (r, s')" using s(3) by (simp add: bind_def m)
    then show ?thesis using first doesD [OF assms(2), of y s1 r s'] Inr by simp
  qed
qed

lemma does_weaken:
  assumes "does F P m Q E" "\<And>s. P' s \<Longrightarrow> P s" "\<And>x s. Q x s \<Longrightarrow> Q' x s" "\<And>s. E s \<Longrightarrow> E' s"
  shows "does F P' m Q' E'"
proof (rule doesI)
  fix s r s' assume s: "P' s" "calm F (rv_vol s)" "m s = (r, s')"
  then show "case r of Inr x \<Rightarrow> Q' x s' \<and> calm F (rv_vol s') | Inl e \<Rightarrow> E' s'"
    using doesD [OF assms(1) assms(2) s(2,3)] assms(3,4) by (cases r) simp_all
qed

lemma does_fact: "(A \<Longrightarrow> does F P m Q E) \<Longrightarrow> does F (\<lambda>s. A \<and> P s) m Q E"
  by (cases A) (simp_all add: does_def)

lemma does_ex: "(\<And>x. does F (P x) m Q E) \<Longrightarrow> does F (\<lambda>s. \<exists>x. P x s) m Q E"
  unfolding does_def by (intro allI impI) (elim conjE exE, simp)

lemma does_orStatus: "does F P m Q E \<Longrightarrow> does F P (orStatus code m) Q E"
  unfolding does_def orStatus_def by (intro allI impI) (drule spec, drule (1) mp, auto split: prod.splits sum.splits)

text \<open>The state of a session, with a condition on the volume that does not depend on the calls to come.\<close>

definition having :: "(volume \<Rightarrow> bool) \<Rightarrow> int \<Rightarrow> session option \<Rightarrow> receiver \<Rightarrow> bool" where
  "having W lim se s \<longleftrightarrow> W (rv_vol s) \<and> rv_session s = se \<and> vmLimit s = lim"

lemma does_fileCall:
  assumes "stable W" "\<And>s. having W lim se s \<Longrightarrow> case m s of (Inr x, s') \<Rightarrow> Q x s' \<and> vo_faults (rv_vol s') = vo_faults (rv_vol s) | (Inl e, s') \<Rightarrow> E s'"
    and "\<And>s. F \<Longrightarrow> having W lim se s \<Longrightarrow> E s"
  shows "does F (having W lim se) (fileCall m) Q E"
proof (rule doesI)
  fix s r s' assume s: "having W lim se s" "calm F (rv_vol s)" "fileCall m s = (r, s')"
  obtain k v where a: "attempt (rv_vol s) = (k, v)" by (rule prod.exhaust)
  have "\<exists>fs. v = (rv_vol s)\<lparr>vo_faults := fs\<rparr>" using attempt_cases a by (cases k) blast+
  then have k: "having W lim se (s\<lparr>rv_vol := v\<rparr>)" using s(1) assms(1) by (auto simp: having_def stable_def vmLimit_def)
  show "case r of Inr x \<Rightarrow> Q x s' \<and> calm F (rv_vol s') | Inl e \<Rightarrow> E s'"
  proof (cases k)
    case None
    then have m: "m (s\<lparr>rv_vol := v\<rparr>) = (r, s')" using s(3) a by (simp add: fileCall_def)
    have "calm F v" using attempt_cases(1) [of "rv_vol s" v] a None s(2) by (auto simp: calm_def)
    then show ?thesis using assms(2) [OF k] by (cases r) (simp_all add: m calm_def)
  next
    case (Some n)
    then have "F" using attempt_cases(2) [of "rv_vol s" n v] a s(2) by (auto simp: calm_def)
    then show ?thesis using assms(3) [OF _ k] s(3) a Some by (auto simp: fileCall_def)
  qed
qed

lemma does_sync: "stable W \<Longrightarrow> (\<And>s. F \<Longrightarrow> having W lim se s \<Longrightarrow> E s) \<Longrightarrow> does F (having W lim se) syncCall (\<lambda>_. having W lim se) E"
  unfolding syncCall_def by (rule does_fileCall) (simp_all add: pass_def)

section \<open>What is stored\<close>

datatype content = SData "byte list" | SZero nat | SSame nat

definition contentOf :: "byte list \<Rightarrow> seg \<Rightarrow> int \<times> content" where
  "contentOf d s = (sg_off s,
     if sg_kind s = segZero then SZero (unat (sg_length s)) else if sg_kind s = segSame then SSame (unat (sg_length s))
     else SData (ReadAt d (nat (sg_pos s)) (unat (sg_length s))))"

text \<open>The records that a session holds, in the order they were stored, and that their data is there.\<close>

definition stored :: "session option \<Rightarrow> (int \<times> content) list" where
  "stored se = (case se of None \<Rightarrow> []
     | Some x \<Rightarrow> map (contentOf (contentsOf (se_data x))) (entriesOf (contentsOf (se_manifest x))))"

definition dataThere :: "byte list \<Rightarrow> seg \<Rightarrow> bool" where
  "dataThere d s \<longleftrightarrow> segOk s \<and> (sg_kind s = segData \<longrightarrow> sg_pos s + uint (sg_length s) \<le> int (length d))"

definition whole :: "session option \<Rightarrow> bool" where
  "whole se \<longleftrightarrow> (case se of None \<Rightarrow> True
     | Some x \<Rightarrow> list_all (dataThere (contentsOf (se_data x))) (entriesOf (contentsOf (se_manifest x))))"

lemma ReadAt_append: "pos + n \<le> length d \<Longrightarrow> ReadAt (d @ x) pos n = ReadAt d pos n"
  by (simp add: ReadAt_def)

lemma uint_unat: "uint w = int (unat w)"
  by simp

lemma seg_kinds: "seg_valid s \<Longrightarrow> sg_kind s = segData \<or> sg_kind s = segZero \<or> sg_kind s = segSame"
proof -
  assume "seg_valid s"
  then have "unat (sg_kind s) \<le> 2" by (simp add: seg_valid_def segSame_def word_le_nat_alt)
  then consider "unat (sg_kind s) = unat (0 :: byte)" | "unat (sg_kind s) = unat (1 :: byte)" | "unat (sg_kind s) = unat (2 :: byte)"
    by force
  then show ?thesis by cases (simp_all only: word_unat_eq_iff [symmetric] segData_def segZero_def segSame_def simp_thms)
qed

lemma dataThere_more: "dataThere d s \<Longrightarrow> dataThere (d @ x) s \<and> contentOf (d @ x) s = contentOf d s"
proof -
  assume s: "dataThere d s"
  have "ReadAt (d @ x) (nat (sg_pos s)) (unat (sg_length s)) = ReadAt d (nat (sg_pos s)) (unat (sg_length s))"
    if "sg_kind s \<noteq> segZero" "sg_kind s \<noteq> segSame"
  proof -
    have "sg_kind s = segData" using that s seg_kinds [of s] by (auto simp: dataThere_def segOk_def)
    then have "sg_pos s + int (unat (sg_length s)) \<le> int (length d)" "0 \<le> sg_pos s"
      using s by (simp_all add: dataThere_def segOk_def seg_valid_def)
    then show ?thesis by (intro ReadAt_append) linarith
  qed
  then show ?thesis using s by (auto simp: dataThere_def contentOf_def)
qed

text \<open>The segment that is stored for a record, and the data that goes before it.\<close>

definition recContent :: "UploadRecord \<Rightarrow> int \<times> content" where
  "recContent r = (ur_Off r, if ur_Zero r then SZero (unat (ur_Len r)) else SData (ur_Data r))"

definition segFor :: "nat \<Rightarrow> UploadRecord \<Rightarrow> seg" where
  "segFor pos r = \<lparr>sg_kind = (if ur_Zero r then segZero else segData), sg_off = ur_Off r, sg_length = ur_Len r,
     sg_pos = (if ur_Zero r then 0 else int pos)\<rparr>"

abbreviation dataOf :: "UploadRecord list \<Rightarrow> byte list" where
  "dataOf rs \<equiv> concat (map ur_Data rs)"

fun segsFor :: "nat \<Rightarrow> UploadRecord list \<Rightarrow> seg list" where
  "segsFor pos [] = []"
| "segsFor pos (r # rs) = segFor pos r # segsFor (pos + length (ur_Data r)) rs"

lemma segsFor_append: "segsFor pos (rs @ rs') = segsFor pos rs @ segsFor (pos + length (dataOf rs)) rs'"
  by (induction rs arbitrary: pos) (simp_all add: add.assoc)

lemma length_segsFor [simp]: "length (segsFor pos rs) = length rs"
  by (induction rs arbitrary: pos) simp_all

abbreviation chunkOk :: "UploadRecord \<Rightarrow> bool" where
  "chunkOk \<equiv> uploadOk (of_nat compareChunk)"

lemma segFor_stored:
  assumes "chunkOk r" "length d + length (ur_Data r) < 2 ^ 63"
  shows "dataThere (d @ ur_Data r) (segFor (length d) r)" "contentOf (d @ ur_Data r) (segFor (length d) r) = recContent r"
proof -
  have "ur_Len r \<le> of_nat compareChunk" using assms(1) by (simp add: uploadOk_def)
  then have "unat (ur_Len r) \<le> compareChunk" by (simp add: word_le_nat_alt compareChunk_def)
  then show "dataThere (d @ ur_Data r) (segFor (length d) r)"
    using assms by (auto simp: dataThere_def segOk_def seg_valid_def segFor_def uploadOk_def segZero_def segData_def segSame_def)
  show "contentOf (d @ ur_Data r) (segFor (length d) r) = recContent r"
    using assms(1) by (auto simp: contentOf_def segFor_def recContent_def uploadOk_def segZero_def segData_def segSame_def ReadAt_def)
qed

lemma segsFor_stored:
  assumes "list_all chunkOk rs" "length d + length (dataOf rs) < 2 ^ 63"
  shows "list_all (dataThere (d @ dataOf rs @ x)) (segsFor (length d) rs) \<and> map (contentOf (d @ dataOf rs @ x)) (segsFor (length d) rs) = map recContent rs"
  using assms
proof (induction rs arbitrary: d)
  case (Cons r rs)
  have "dataThere (d @ ur_Data r) (segFor (length d) r)" "contentOf (d @ ur_Data r) (segFor (length d) r) = recContent r"
    using Cons.prems by (simp_all add: segFor_stored)
  then have "dataThere ((d @ ur_Data r) @ dataOf rs @ x) (segFor (length d) r) \<and> contentOf ((d @ ur_Data r) @ dataOf rs @ x) (segFor (length d) r) = recContent r"
    using dataThere_more by metis
  then show ?case using Cons.IH [of "d @ ur_Data r"] Cons.prems by simp
qed simp

section \<open>Session files\<close>

abbreviation sess :: "byte list \<Rightarrow> byte list \<Rightarrow> momentText option \<Rightarrow> session option" where
  "sess M D B \<equiv> Some \<lparr>se_manifest = Some M, se_data = Some D, se_base = B\<rparr>"

definition trimmed :: "session option \<Rightarrow> session option" where
  "trimmed se = map_option (\<lambda>x. x\<lparr>se_manifest := map_option (\<lambda>m. encodeSegs (entriesOf m)) (se_manifest x)\<rparr>) se"

definition entries :: "session option \<Rightarrow> seg list" where
  "entries se = (case se of None \<Rightarrow> [] | Some x \<Rightarrow> entriesOf (contentsOf (se_manifest x)))"

definition dataLen :: "session option \<Rightarrow> nat" where
  "dataLen se = (case se of None \<Rightarrow> 0 | Some x \<Rightarrow> length (contentsOf (se_data x)))"

definition latest :: "nat \<Rightarrow> seg list \<Rightarrow> segMap" where
  "latest n es = foldl (\<lambda>m s. if missingData n s then m else putSeg s m) [] es"

lemma theSession_simps:
  "having W lim se s \<Longrightarrow> theSession s = (case se of None \<Rightarrow> emptySession | Some x \<Rightarrow> x)"
  by (simp add: having_def theSession_def)

lemma having_update:
  "having W lim se s \<Longrightarrow> having W lim se' (s\<lparr>rv_session := se'\<rparr>)"
  by (auto simp: having_def vmLimit_def)

lemma does_dataSizeOf:
  assumes "stable W"
  shows "does F (having W lim se) dataSizeOf (\<lambda>n s. (n = dataLen se \<or> F \<and> n = 0) \<and> having W lim se s) E"
proof -
  have call: "does F (having W lim se) (fileCall (\<lambda>s. (Inr (length (contentsOf (se_data (theSession s)))), s)))
      (\<lambda>n s. n = dataLen se \<and> having W lim se s) (\<lambda>s. F \<and> having W lim se s)"
    by (rule does_fileCall [OF assms]) (auto simp: theSession_simps dataLen_def emptySession_def contentsOf_def split: option.splits)
  show ?thesis
  proof (rule doesI)
    fix s r s' assume s: "having W lim se s" "calm F (rv_vol s)" "dataSizeOf s = (r, s')"
    obtain x s1 where x: "fileCall (\<lambda>s. (Inr (length (contentsOf (se_data (theSession s)))), s)) s = (x, s1)" by (rule prod.exhaust)
    show "case r of Inr n \<Rightarrow> ((n = dataLen se \<or> F \<and> n = 0) \<and> having W lim se s') \<and> calm F (rv_vol s') | Inl e \<Rightarrow> E s'"
      using doesD [OF call s(1,2) x] s(3) x by (cases x) (auto simp: dataSizeOf_def calm_def)
  qed
qed

lemma Truncate_entries: "Truncate (21 * length (entriesOf m)) m = encodeSegs (entriesOf m)"
proof -
  obtain tail where "m = encodeSegs (entriesOf m) @ tail" using manifest_split [of m] by blast
  then have "take (21 * length (entriesOf m)) m = encodeSegs (entriesOf m)" "21 * length (entriesOf m) \<le> length m"
    using length_encodeSegs [of "entriesOf m"] by (metis append_eq_conv_conj, metis le_add1 length_append)
  then show ?thesis by (simp add: Truncate_def)
qed

lemma does_loadSession:
  assumes "stable W" "\<And>s. F \<Longrightarrow> having W lim se s \<or> having W lim (trimmed se) s \<Longrightarrow> E s"
  shows "does F (having W lim se) loadSession
    (\<lambda>segs s. (\<exists>n. (n = dataLen se \<or> F \<and> n = 0) \<and> segs = latest n (entries se)) \<and> having W lim (trimmed se) s) E"
proof -
  have call: "does F (having W lim x) (fileCall (pass ())) (\<lambda>_. having W lim x) E" if "x = se \<or> x = trimmed se" for x
    by (rule does_fileCall [OF assms(1)]) (use that assms(2) in \<open>auto simp: pass_def\<close>)
  let ?f = "case se of None \<Rightarrow> None | Some x \<Rightarrow> se_manifest x"
  have manifest: "does F (having W lim se) (fileCall (\<lambda>s. (Inr (se_manifest (theSession s)), s))) (\<lambda>f s. f = ?f \<and> having W lim se s) E"
    by (rule does_fileCall [OF assms(1)]) (use assms(2) in \<open>auto simp: theSession_simps emptySession_def split: option.splits\<close>)
  let ?Q = "\<lambda>segs s. (\<exists>n. (n = dataLen se \<or> F \<and> n = 0) \<and> segs = latest n (entries se)) \<and> having W lim (trimmed se) s"
  show ?thesis
  proof (cases ?f)
    case None
    then have "entries se = []" "trimmed se = se" by (auto simp: entries_def trimmed_def contentsOf_def entriesOf_short split: option.splits)
    then show ?thesis unfolding loadSession_def
      by (intro does_bind [OF manifest] does_fact) (auto simp: None latest_def intro!: does_pass)
  next
    case (Some m)
    then obtain x where x: "se = Some x" "se_manifest x = Some m" by (cases se) auto
    have good: "loadLoop n m [] 0 = (latest n (entries se), 21 * length (entriesOf m))" for n
      by (simp add: loadLoop_entries latest_def entries_def contentsOf_def x)
    have cut: "does F (having W lim se) (truncateManifest (21 * length (entriesOf m))) (\<lambda>_. having W lim (trimmed se)) E"
      unfolding truncateManifest_def
    proof (rule does_bind [OF call], simp, rule does_bind)
      show "does F (having W lim se) (fileCall (\<lambda>s. (Inr (), s\<lparr>rv_session := map_option (\<lambda>se. se\<lparr>se_manifest :=
          map_option (Truncate (21 * length (entriesOf m))) (se_manifest se)\<rparr>) (rv_session s)\<rparr>))) (\<lambda>_. having W lim (trimmed se)) E"
        by (rule does_fileCall [OF assms(1)])
          (use assms(2) x in \<open>auto simp: having_def vmLimit_def trimmed_def Truncate_entries\<close>)
      show "does F (having W lim (trimmed se)) syncCall (\<lambda>_. having W lim (trimmed se)) E"
        using assms by (intro does_sync) auto
    qed
    have same: "trimmed se = se" if "length m = 21 * length (entriesOf m)"
      using Truncate_entries [of m] that by (simp add: trimmed_def x Truncate_def)
    have "does F (having W lim se) (bind (if length m \<noteq> 21 * length (entriesOf m) then truncateManifest (21 * length (entriesOf m)) else pass ())
        (\<lambda>_. pass (latest n (entries se)))) ?Q E" if "n = dataLen se \<or> F \<and> n = 0" for n
      using that by (intro does_bind [where Q = "\<lambda>_. having W lim (trimmed se)"]) (auto simp: same intro!: cut does_pass)
    then show ?thesis unfolding loadSession_def
      by (intro does_bind [OF manifest] does_fact, simp only: Some option.case)
        (intro does_bind [OF does_dataSizeOf [OF assms(1)]] does_fact, simp only: good prod.case, intro does_bind [OF call], simp_all)
  qed
qed

definition dataIn :: "session option \<Rightarrow> byte list" where
  "dataIn se = (case se of None \<Rightarrow> [] | Some x \<Rightarrow> contentsOf (se_data x))"

definition baseIn :: "session option \<Rightarrow> momentText option" where
  "baseIn se = (case se of None \<Rightarrow> None | Some x \<Rightarrow> se_base x)"

lemma whole_iff: "whole se \<longleftrightarrow> list_all (dataThere (dataIn se)) (entries se)"
  by (simp add: whole_def dataIn_def entries_def split: option.splits)

lemma stored_iff: "stored se = map (contentOf (dataIn se)) (entries se)"
  by (simp add: stored_def dataIn_def entries_def split: option.splits)

lemma whole_ok: "whole se \<Longrightarrow> list_all segOk (entries se)"
  by (auto simp: whole_iff list_all_iff dataThere_def)

lemma entries_again: "whole se \<Longrightarrow> entriesOf (encodeSegs (entries se)) = entries se"
  using entriesOf_encode [OF whole_ok, of se "[]"] by (simp add: entriesOf_short)

lemma sess_simps [simp]: "entries (sess M D B) = entriesOf M" "dataIn (sess M D B) = D" "baseIn (sess M D B) = B" "dataLen se = length (dataIn se)"
  by (simp_all add: entries_def dataIn_def baseIn_def dataLen_def contentsOf_def split: option.splits)

lemma trimmed_same:
  assumes "whole se"
  shows "entries (trimmed se) = entries se" "dataIn (trimmed se) = dataIn se" "baseIn (trimmed se) = baseIn se"
proof -
  show "entries (trimmed se) = entries se"
  proof (cases "case se of None \<Rightarrow> None | Some x \<Rightarrow> se_manifest x")
    case None
    then show ?thesis by (auto simp: trimmed_def entries_def split: option.splits)
  next
    case (Some m)
    then show ?thesis using entries_again [OF assms] by (auto simp: trimmed_def entries_def contentsOf_def split: option.splits)
  qed
  show "dataIn (trimmed se) = dataIn se" "baseIn (trimmed se) = baseIn se"
    by (auto simp: trimmed_def dataIn_def baseIn_def split: option.splits)
qed

text \<open>A session that holds the same records.\<close>

definition alike :: "session option \<Rightarrow> session option \<Rightarrow> bool" where
  "alike se se' \<longleftrightarrow> entries se' = entries se \<and> dataIn se' = dataIn se \<and> baseIn se' = baseIn se"

lemma alike_trimmed: "whole se \<Longrightarrow> alike se (trimmed se)"
  by (simp add: alike_def trimmed_same)

lemma does_openSession:
  assumes "stable W" "whole se" "\<And>s se'. F \<Longrightarrow> alike se se' \<Longrightarrow> having W lim se' s \<Longrightarrow> E s"
  shows "does F (having W lim se) openSession (\<lambda>_. having W lim (sess (encodeSegs (entries se)) (dataIn se) (baseIn se))) E"
proof -
  let ?x = "case se of None \<Rightarrow> emptySession | Some x \<Rightarrow> x"
  let ?t = "?x\<lparr>se_manifest := map_option (\<lambda>m. encodeSegs (entriesOf m)) (se_manifest ?x)\<rparr>"
  have x: "alike se (Some ?x)" "trimmed (Some ?x) = Some ?t"
    by (auto simp: alike_def entries_def dataIn_def baseIn_def emptySession_def contentsOf_def entriesOf_short trimmed_def split: option.splits)
  have whole: "whole (Some ?x)" using x(1) assms(2) by (simp add: whole_iff alike_def)
  have t: "alike se (Some ?t)" using x alike_trimmed [OF whole] by (simp add: alike_def)
  have m: "contentsOf (se_manifest ?t) = encodeSegs (entries se)"
    by (cases "se_manifest ?x") (auto simp: contentsOf_def entries_def emptySession_def entriesOf_short split: option.splits)
  have mk: "does F (having W lim se) (fileCall (\<lambda>s. (Inr (), s\<lparr>rv_session := Some (theSession s)\<rparr>))) (\<lambda>_. having W lim (Some ?x)) E"
    by (rule does_fileCall [OF assms(1)]) (use assms(3) in \<open>auto simp: theSession_simps having_update alike_def\<close>)
  have load: "does F (having W lim (Some ?x)) loadSession (\<lambda>_. having W lim (Some ?t)) E"
    by (rule does_weaken [OF does_loadSession [OF assms(1)]]) (use x t assms(3) in auto)
  let ?m = "?t\<lparr>se_manifest := Some (encodeSegs (entries se))\<rparr>"
  have manifest: "does F (having W lim (Some ?t))
      (fileCall (\<lambda>s. (Inr (), s\<lparr>rv_session := Some ((theSession s)\<lparr>se_manifest := Some (contentsOf (se_manifest (theSession s)))\<rparr>)\<rparr>)))
      (\<lambda>_. having W lim (Some ?m)) E"
    by (rule does_fileCall [OF assms(1)]) (use assms(3) t m in \<open>auto simp: theSession_simps having_update\<close>)
  have like: "alike se (Some ?m)" using t entries_again [OF assms(2)] by (simp add: alike_def entries_def dataIn_def baseIn_def contentsOf_def)
  have "?m\<lparr>se_data := Some (contentsOf (se_data ?m))\<rparr> = \<lparr>se_manifest = Some (encodeSegs (entries se)), se_data = Some (dataIn se), se_base = baseIn se\<rparr>"
    by (auto simp: dataIn_def baseIn_def emptySession_def contentsOf_def split: option.splits)
  then have data: "does F (having W lim (Some ?m))
      (fileCall (\<lambda>s. (Inr (), s\<lparr>rv_session := Some ((theSession s)\<lparr>se_data := Some (contentsOf (se_data (theSession s)))\<rparr>)\<rparr>)))
      (\<lambda>_. having W lim (sess (encodeSegs (entries se)) (dataIn se) (baseIn se))) E"
    by (intro does_fileCall [OF assms(1)]) (use assms(3) like in \<open>auto simp: theSession_simps having_update\<close>)
  show ?thesis unfolding openSession_def
    by (rule does_bind [OF mk does_bind [OF load does_bind [OF manifest data]]])
qed

lemma does_append:
  assumes "stable W"
  shows "(\<And>s k. F \<Longrightarrow> having W lim (sess (M @ take k b) D B) s \<Longrightarrow> E s) \<Longrightarrow>
      does F (having W lim (sess M D B)) (appendManifest b) (\<lambda>_. having W lim (sess (M @ b) D B)) E"
    "(\<And>s k. F \<Longrightarrow> having W lim (sess M (D @ take k b) B) s \<Longrightarrow> E s) \<Longrightarrow>
      does F (having W lim (sess M D B)) (appendData b) (\<lambda>_. having W lim (sess M (D @ b) B)) E"
proof -
  have new: "having W lim se' (s\<lparr>rv_vol := v, rv_session := se'\<rparr>) \<and> (k = None \<longrightarrow> calm F v) \<and> (k \<noteq> None \<longrightarrow> F)"
    if s: "having W lim se s" "calm F (rv_vol s)" "attempt (rv_vol s) = (k, v)" for s k v se se'
  proof -
    have "\<exists>fs. v = (rv_vol s)\<lparr>vo_faults := fs\<rparr>" using attempt_cases s(3) by (cases k) blast+
    then have "having W lim se' (s\<lparr>rv_vol := v, rv_session := se'\<rparr>)" using s(1) assms by (auto simp: having_def stable_def vmLimit_def)
    then show ?thesis using attempt_cases s(2,3) by (cases k) (fastforce simp: calm_def)+
  qed
  show "does F (having W lim (sess M D B)) (appendManifest b) (\<lambda>_. having W lim (sess (M @ b) D B)) E"
    if E: "\<And>s k. F \<Longrightarrow> having W lim (sess (M @ take k b) D B) s \<Longrightarrow> E s"
  proof (rule doesI)
    fix s r s' assume s: "having W lim (sess M D B) s" "calm F (rv_vol s)" "appendManifest b s = (r, s')"
    obtain k v where k: "attempt (rv_vol s) = (k, v)" by (rule prod.exhaust)
    show "case r of Inr x \<Rightarrow> having W lim (sess (M @ b) D B) s' \<and> calm F (rv_vol s') | Inl e \<Rightarrow> E s'"
      using new [OF s(1,2) k, of "sess (M @ b) D B"] new [OF s(1,2) k, of "sess (M @ take (the k) b) D B"] E [of "the k"] s(3)
      by (cases k) (auto simp: appendManifest_def k theSession_simps [OF s(1)] contentsOf_def)
  qed
  show "does F (having W lim (sess M D B)) (appendData b) (\<lambda>_. having W lim (sess M (D @ b) B)) E"
    if E: "\<And>s k. F \<Longrightarrow> having W lim (sess M (D @ take k b) B) s \<Longrightarrow> E s"
  proof (rule doesI)
    fix s r s' assume s: "having W lim (sess M D B) s" "calm F (rv_vol s)" "appendData b s = (r, s')"
    obtain k v where k: "attempt (rv_vol s) = (k, v)" by (rule prod.exhaust)
    show "case r of Inr x \<Rightarrow> having W lim (sess M (D @ b) B) s' \<and> calm F (rv_vol s') | Inl e \<Rightarrow> E s'"
      using new [OF s(1,2) k, of "sess M (D @ b) B"] new [OF s(1,2) k, of "sess M (D @ take (the k) b) B"] E [of "the k"] s(3)
      by (cases k) (auto simp: appendData_def k theSession_simps [OF s(1)] contentsOf_def)
  qed
qed

section \<open>Uploading\<close>

text \<open>The records of a request body, up to the first that cannot be read.\<close>

function sentRecords :: "byte list \<Rightarrow> UploadRecord list" where
  "sentRecords body =
     (case ReadUploadRecord body (of_nat compareChunk) of Inl e \<Rightarrow> [] | Inr (rec, rest) \<Rightarrow> rec # sentRecords rest)"
  by pat_completeness auto
termination
  by (relation "measure length") (auto dest: ReadUploadRecord_rest)

declare sentRecords.simps [simp del]

definition cleanBody :: "byte list \<Rightarrow> bool" where
  "cleanBody body \<longleftrightarrow> body = concat (map WriteUploadRecord (sentRecords body))"

text \<open>
  The state of an upload after some records: the entries of the records are in the manifest or in its buffer,
  and the data of all of them is in the staging file.
\<close>

definition uploaded :: "seg list \<Rightarrow> byte list \<Rightarrow> UploadRecord list \<Rightarrow> byte list \<Rightarrow> byte list \<Rightarrow> bool" where
  "uploaded es d rs M mbuf \<longleftrightarrow> M @ mbuf = encodeSegs (es @ segsFor (length d) rs) \<and> 21 * length es \<le> length M"

definition storedPrefix :: "(int \<times> content) list \<Rightarrow> (int \<times> content) list \<Rightarrow> session option \<Rightarrow> bool" where
  "storedPrefix xs new se \<longleftrightarrow> whole se \<and> (\<exists>j. stored se = xs @ take j new)"

lemma uploaded_stored:
  assumes "uploaded es d rs (M @ M') mbuf" "list_all (dataThere d) es" "list_all chunkOk (rs @ rs')" "length d + length (dataOf rs) < 2 ^ 63"
    "21 * length es \<le> length M"
  shows "storedPrefix (map (contentOf d) es) (map recContent (rs @ rs')) (sess M (d @ dataOf rs @ x) B)"
proof -
  let ?d = "d @ dataOf rs @ x" and ?ss = "es @ segsFor (length d) rs"
  have rs: "list_all chunkOk rs" using assms(3) by simp
  note new = segsFor_stored [OF rs assms(4), of x]
  have old: "list_all (dataThere ?d) es" "map (contentOf ?d) es = map (contentOf d) es"
    using assms(2) dataThere_more by (auto simp: list_all_iff)
  have "list_all segOk ?ss" using new old(1) by (auto simp: list_all_iff dataThere_def)
  moreover have "M = take (length M) (encodeSegs ?ss)" using assms(1) by (simp add: uploaded_def append_eq_conv_conj)
  ultimately have "entriesOf M = take (length M div 21) ?ss" using entriesOf_take by metis
  then have e: "entriesOf M = es @ take (length M div 21 - length es) (segsFor (length d) rs)"
    using assms(5) by (simp add: less_eq_div_iff_mult_less_eq mult.commute)
  define j where "j = min (length M div 21 - length es) (length rs)"
  have "entriesOf M = es @ take j (segsFor (length d) rs)" using e by (simp add: j_def min_def)
  moreover have "map (contentOf ?d) (take j (segsFor (length d) rs)) = take j (map recContent rs)" using new by (metis take_map)
  ultimately have "stored (sess M ?d B) = map (contentOf d) es @ take j (map recContent rs)" "whole (sess M ?d B)"
    using old new by (auto simp: stored_iff whole_iff list_all_iff dest: in_set_takeD)
  moreover have "take j (map recContent rs) = take j (map recContent (rs @ rs'))" by (simp add: j_def)
  ultimately show ?thesis unfolding storedPrefix_def by metis
qed

lemma uploaded_cut: "uploaded es d rs M b \<Longrightarrow> uploaded es d rs (M @ take k b) (drop k b)"
  by (simp add: uploaded_def)

text \<open>One record: its data goes to the staging file before its entry goes to the buffer.\<close>

lemma does_bufWrite:
  assumes "stable W" "length p \<le> bufSize" "length mbuf \<le> bufSize"
    and E: "\<And>s k. F \<Longrightarrow> having W lim (sess (M @ take k (mbuf @ p)) D B) s \<Longrightarrow> E s"
  shows "does F (having W lim (sess M D B)) (bufWrite mbuf p)
    (\<lambda>mbuf' s. \<exists>M'. (M' @ mbuf' = M @ mbuf @ p \<and> length M \<le> length M' \<and> length mbuf' \<le> bufSize) \<and> having W lim (sess M' D B) s) E"
proof (cases "length p \<le> bufSize - length mbuf")
  case True
  then show ?thesis using assms(3) unfolding bufWrite_def by (auto intro!: does_pass)
next
  case False
  let ?k = "bufSize - length mbuf"
  have piece: "take n (mbuf @ take ?k p) = take (min n (length mbuf + ?k)) (mbuf @ p)" for n by (simp add: min_def)
  have "does F (having W lim (sess M D B)) (appendManifest (mbuf @ take ?k p)) (\<lambda>_. having W lim (sess (M @ mbuf @ take ?k p) D B)) E"
    by (rule does_append(1) [OF assms(1)]) (metis E piece)
  then have "does F (having W lim (sess M D B)) (bind (appendManifest (mbuf @ take ?k p)) (\<lambda>_. pass (drop ?k p)))
    (\<lambda>mbuf' s. \<exists>M'. (M' @ mbuf' = M @ mbuf @ p \<and> length M \<le> length M' \<and> length mbuf' \<le> bufSize) \<and> having W lim (sess M' D B) s) E"
    by (rule does_bind, intro does_pass exI [of _ "M @ mbuf @ take ?k p"]) (use assms(2) in auto)
  then show ?thesis using False by (simp add: bufWrite_def Let_def)
qed

lemma does_storeRecord:
  assumes W: "stable W" and up: "uploaded es d rs M mbuf" "length mbuf \<le> bufSize" and es: "list_all (dataThere d) es"
    and r: "list_all chunkOk (rs @ [r] @ rs')" "length d + length (dataOf (rs @ [r])) < 2 ^ 63"
    and E: "\<And>s se. F \<or> ur_Off r + uint (ur_Len r) > lim \<Longrightarrow> having W lim se s \<Longrightarrow>
      storedPrefix (map (contentOf d) es) (map recContent (rs @ [r] @ rs')) se \<Longrightarrow> E s"
  shows "does F (having W lim (sess M (d @ dataOf rs) B)) (storeRecord r (length (d @ dataOf rs)) mbuf)
    (\<lambda>(pos, mbuf') s. pos = length (d @ dataOf (rs @ [r])) \<and> (\<exists>M'. (uploaded es d (rs @ [r]) M' mbuf' \<and> length mbuf' \<le> bufSize)
       \<and> having W lim (sess M' (d @ dataOf (rs @ [r])) B) s)) E" (is "does F _ _ ?Q E")
proof -
  have small: "length d + length (dataOf rs) < 2 ^ 63" using r(2) by simp
  have len: "21 * length es \<le> length M" "M @ mbuf = encodeSegs (es @ segsFor (length d) rs)" using up(1) by (simp_all add: uploaded_def)
  have data: "ur_Zero r \<Longrightarrow> ur_Data r = []" "\<not> ur_Zero r \<Longrightarrow> length (ur_Data r) = unat (ur_Len r)" using r(1) by (auto simp: uploadOk_def)
  have part: "storedPrefix (map (contentOf d) es) (map recContent (rs @ [r] @ rs')) (sess M (d @ dataOf rs @ x) B)" for x
    using uploaded_stored [of es d rs M "[]" mbuf "[r] @ rs'" x B] up(1) es r(1) small len(1) by simp
  have eb: "\<And>s x. F \<Longrightarrow> having W lim (sess M (d @ dataOf rs @ x) B) s \<Longrightarrow> E s" using E part by blast
  have store: "does F (having W lim (sess M (d @ dataOf rs) B)) (if ur_Zero r then pass () else bind (appendData (ur_Data r)) (\<lambda>_. syncCall))
      (\<lambda>_. having W lim (sess M (d @ dataOf (rs @ [r])) B)) E"
  proof (cases "ur_Zero r")
    case True
    then show ?thesis using data(1) by (simp add: does_pass)
  next
    case False
    have "does F (having W lim (sess M (d @ dataOf rs) B)) (appendData (ur_Data r)) (\<lambda>_. having W lim (sess M ((d @ dataOf rs) @ ur_Data r) B)) E"
      by (rule does_append(2) [OF W]) (use eb in simp)
    moreover have "does F (having W lim (sess M ((d @ dataOf rs) @ ur_Data r) B)) syncCall (\<lambda>_. having W lim (sess M ((d @ dataOf rs) @ ur_Data r) B)) E"
      by (rule does_sync [OF W]) (use eb in simp)
    ultimately show ?thesis using False by (simp add: does_bind)
  qed
  let ?sg = "segFor (length (d @ dataOf rs)) r"
  have all: "uploaded es d (rs @ [r]) M (mbuf @ appendSeg ?sg)" using len by (simp add: uploaded_def segsFor_append)
  have "storedPrefix (map (contentOf d) es) (map recContent (rs @ [r] @ rs')) (sess (M @ take k (mbuf @ appendSeg ?sg)) (d @ dataOf (rs @ [r])) B)" for k
  proof -
    have "uploaded es d (rs @ [r]) (M @ take k (mbuf @ appendSeg ?sg)) (drop k (mbuf @ appendSeg ?sg))" by (rule uploaded_cut [OF all])
    then show ?thesis
      using uploaded_stored [of es d "rs @ [r]" "M @ take k (mbuf @ appendSeg ?sg)" "[]" _ rs' "[]" B] es r len(1)
      by (simp only: append_Nil2 append.assoc) simp
  qed
  then have entry: "does F (having W lim (sess M (d @ dataOf (rs @ [r])) B)) (bufWrite mbuf (appendSeg ?sg))
      (\<lambda>mbuf' s. \<exists>M'. (M' @ mbuf' = M @ mbuf @ appendSeg ?sg \<and> length M \<le> length M' \<and> length mbuf' \<le> bufSize)
        \<and> having W lim (sess M' (d @ dataOf (rs @ [r])) B) s) E"
    using E by (intro does_bufWrite [OF W _ up(2)]) (simp add: bufSize_def, blast)
  have ok: "does F (having W lim (sess M (d @ dataOf rs) B))
      (bind (orStatus 500 (if ur_Zero r then pass () else bind (appendData (ur_Data r)) (\<lambda>_. syncCall))) (\<lambda>_.
       bind (orStatus 500 (bufWrite mbuf (appendSeg ?sg))) (\<lambda>mbuf'. pass (length (d @ dataOf (rs @ [r])), mbuf')))) ?Q E"
    by (rule does_bind [OF does_orStatus [OF store] does_bind [OF does_orStatus [OF entry]]], rule does_pass)
      (use all len(1) in \<open>auto simp: uploaded_def\<close>)
  have pos: "(if ur_Zero r then length (d @ dataOf rs) else length (d @ dataOf rs) + unat (ur_Len r)) = length (d @ dataOf (rs @ [r]))"
    using data by auto
  show ?thesis
  proof (cases "ur_Off r + uint (ur_Len r) > lim")
    case True
    then show ?thesis using E part [of "[]"] by (auto simp: does_def storeRecord_def having_def)
  next
    case False
    then have "storeRecord r (length (d @ dataOf rs)) mbuf s = bind (orStatus 500 (if ur_Zero r then pass () else bind (appendData (ur_Data r)) (\<lambda>_. syncCall))) (\<lambda>_.
       bind (orStatus 500 (bufWrite mbuf (appendSeg ?sg))) (\<lambda>mbuf'. pass (length (d @ dataOf (rs @ [r])), mbuf'))) s"
      if "having W lim (sess M (d @ dataOf rs) B) s" for s
      using that unfolding storeRecord_def Let_def segFor_def pos by (simp add: having_def)
    then show ?thesis using ok by (simp add: does_def)
  qed
qed

lemma ReadUploadRecord_EOF: "ReadUploadRecord r mx = Inl ''EOF'' \<longleftrightarrow> r = []"
  by (auto simp: ReadUploadRecord_def ReadFull_def Let_def split: if_splits)

lemma sentRecords_Inl: "ReadUploadRecord body (of_nat compareChunk) = Inl e \<Longrightarrow> sentRecords body = [] \<and> (cleanBody body \<longleftrightarrow> e = ''EOF'')"
proof -
  assume e: "ReadUploadRecord body (of_nat compareChunk) = Inl e"
  then have s: "sentRecords body = []" by (simp add: sentRecords.simps)
  then show ?thesis using ReadUploadRecord_EOF [of body "of_nat compareChunk"] e by (auto simp: cleanBody_def)
qed

lemma sentRecords_Inr:
  assumes "ReadUploadRecord body (of_nat compareChunk) = Inr (r, rest)"
  shows "sentRecords body = r # sentRecords rest" "chunkOk r" "cleanBody body \<longleftrightarrow> cleanBody rest" "length (ur_Data r) + length rest < length body"
proof -
  have r: "chunkOk r" "body = WriteUploadRecord r @ rest" using ReadUploadRecord_parsed [OF assms] by simp_all
  show s: "sentRecords body = r # sentRecords rest" using assms by (simp add: sentRecords.simps [of body])
  show "chunkOk r" by (rule r(1))
  show "cleanBody body \<longleftrightarrow> cleanBody rest" unfolding cleanBody_def s using r(2) by simp
  show "length (ur_Data r) + length rest < length body" using r by (auto simp: WriteUploadRecord_def uploadOk_def)
qed

lemma sentRecords_ok: "list_all chunkOk (sentRecords body)"
proof (induction body rule: sentRecords.induct)
  case (1 body)
  show ?case
  proof (cases "ReadUploadRecord body (of_nat compareChunk)")
    case (Inl e)
    then show ?thesis using sentRecords_Inl by simp
  next
    case (Inr p)
    then obtain r rest where p: "ReadUploadRecord body (of_nat compareChunk) = Inr (r, rest)" by (cases p) simp
    then show ?thesis using "1.IH" [OF p refl] sentRecords_Inr [OF p] by simp
  qed
qed

lemma sentRecords_data: "length (dataOf (sentRecords body)) \<le> length body"
proof (induction body rule: sentRecords.induct)
  case (1 body)
  show ?case
  proof (cases "ReadUploadRecord body (of_nat compareChunk)")
    case (Inl e)
    then show ?thesis using sentRecords_Inl by simp
  next
    case (Inr p)
    then obtain r rest where p: "ReadUploadRecord body (of_nat compareChunk) = Inr (r, rest)" by (cases p) simp
    then show ?thesis using "1.IH" [OF p refl] sentRecords_Inr [OF p] by simp
  qed
qed

abbreviation overLimit :: "int \<Rightarrow> UploadRecord list \<Rightarrow> bool" where
  "overLimit lim rs \<equiv> \<exists>r \<in> set rs. ur_Off r + uint (ur_Len r) > lim"

lemma does_uploadLoop:
  assumes W: "stable W" and "uploaded es d rs M mbuf" "length mbuf \<le> bufSize" "list_all (dataThere d) es" "list_all chunkOk rs"
    and "length d + length (dataOf rs) + length body < 2 ^ 63"
    and "\<And>s se. F \<or> \<not> cleanBody body \<or> overLimit lim (sentRecords body) \<Longrightarrow> having W lim se s \<Longrightarrow>
      storedPrefix (map (contentOf d) es) (map recContent (rs @ sentRecords body)) se \<Longrightarrow> E s"
  shows "does F (having W lim (sess M (d @ dataOf rs) B)) (uploadLoop body (length (d @ dataOf rs)) mbuf)
    (\<lambda>mbuf' s. cleanBody body \<and> (\<exists>M'. (uploaded es d (rs @ sentRecords body) M' mbuf' \<and> length mbuf' \<le> bufSize)
       \<and> having W lim (sess M' (d @ dataOf (rs @ sentRecords body)) B) s)) E"
  using assms(2-)
proof (induction body arbitrary: rs M mbuf rule: sentRecords.induct)
  case (1 body)
  show ?case
  proof (cases "ReadUploadRecord body (of_nat compareChunk)")
    case (Inl e)
    note sent = sentRecords_Inl [OF Inl]
    have "storedPrefix (map (contentOf d) es) (map recContent rs) (sess M (d @ dataOf rs) B)"
      using uploaded_stored [of es d rs M "[]" mbuf "[]" "[]" B] "1.prems" by (simp add: uploaded_def)
    then show ?thesis using sent "1.prems" Inl
      by (subst uploadLoop.simps) (auto intro!: does_pass does_refuse)
  next
    case (Inr p)
    then obtain r rest where p: "ReadUploadRecord body (of_nat compareChunk) = Inr (r, rest)" by (cases p) simp
    note sent = sentRecords_Inr [OF p]
    have E: "E s" if "F \<or> \<not> cleanBody rest \<or> overLimit lim (r # sentRecords rest)" "having W lim se s"
      "storedPrefix (map (contentOf d) es) (map recContent (rs @ [r] @ sentRecords rest)) se" for s se
      using "1.prems"(6) [of se s] that sent(1,3) by simp
    have one: "does F (having W lim (sess M (d @ dataOf rs) B)) (storeRecord r (length (d @ dataOf rs)) mbuf)
        (\<lambda>(pos, mbuf') s. pos = length (d @ dataOf (rs @ [r])) \<and> (\<exists>M'. (uploaded es d (rs @ [r]) M' mbuf' \<and> length mbuf' \<le> bufSize)
          \<and> having W lim (sess M' (d @ dataOf (rs @ [r])) B) s)) E"
      by (rule does_storeRecord [OF W "1.prems"(1,2,3), where rs' = "sentRecords rest"])
        (use "1.prems"(4,5) sent E sentRecords_ok in auto)
    have IH: "does F (having W lim (sess M' (d @ dataOf (rs @ [r])) B)) (uploadLoop rest (length (d @ dataOf (rs @ [r]))) mbuf')
        (\<lambda>mbuf' s. cleanBody rest \<and> (\<exists>M'. (uploaded es d ((rs @ [r]) @ sentRecords rest) M' mbuf' \<and> length mbuf' \<le> bufSize)
          \<and> having W lim (sess M' (d @ dataOf ((rs @ [r]) @ sentRecords rest)) B) s)) E"
      if "uploaded es d (rs @ [r]) M' mbuf'" "length mbuf' \<le> bufSize" for M' mbuf'
      by (rule "1.IH" [OF p refl that "1.prems"(3)]) (use "1.prems"(4,5) sent E in auto)
    have step: "uploadLoop body (length (d @ dataOf rs)) mbuf = bind (storeRecord r (length (d @ dataOf rs)) mbuf) (\<lambda>(pos, mbuf). uploadLoop rest pos mbuf)"
      by (subst uploadLoop.simps) (simp add: p)
    show ?thesis unfolding step sent(1,3)
      by (rule does_bind [OF one], clarsimp, intro does_fact does_ex) (use IH in simp)
  qed
qed

text \<open>The errors of the upload are refusals.\<close>

definition refuses :: "(answer, 'a) step \<Rightarrow> bool" where
  "refuses m \<longleftrightarrow> (\<forall>s a s'. m s = (Inl a, s') \<longrightarrow> (\<exists>c e. a = Refused c e))"

lemma refuses_rules:
  "refuses (pass x)" "refuses (refuse (Refused c e))" "refuses (orStatus c m')" "refuses m \<Longrightarrow> (\<And>x. refuses (k x)) \<Longrightarrow> refuses (bind m k)"
  by (auto simp: refuses_def pass_def refuse_def orStatus_def bind_def split: prod.splits sum.splits) blast

lemma refuses_if: "refuses m \<Longrightarrow> refuses (\<lambda>s. if b s then (Inl (Refused c e), s) else m s)"
  by (auto simp: refuses_def)

lemma refuses_storeRecord: "refuses (storeRecord r pos mbuf)"
  unfolding storeRecord_def Let_def by (rule refuses_if) (intro refuses_rules)

lemma refuses_uploadLoop: "refuses (uploadLoop body pos mbuf)"
proof (induction body pos mbuf rule: uploadLoop.induct)
  case (1 body pos mbuf)
  then show ?case
    by (subst uploadLoop.simps) (auto split: sum.splits prod.splits intro!: refuses_rules refuses_storeRecord)
qed

text \<open>The end of an upload: the buffer is written, and then all records are stored.\<close>

lemma uploaded_all:
  assumes "uploaded es d rs M []" "list_all (dataThere d) es" "list_all chunkOk rs" "length d + length (dataOf rs) < 2 ^ 63"
  shows "whole (sess M (d @ dataOf rs) B)" "stored (sess M (d @ dataOf rs) B) = map (contentOf d) es @ map recContent rs"
proof -
  let ?d = "d @ dataOf rs" and ?ss = "es @ segsFor (length d) rs"
  note new = segsFor_stored [OF assms(3,4), of "[]"]
  have old: "list_all (dataThere ?d) es" "map (contentOf ?d) es = map (contentOf d) es"
    using assms(2) dataThere_more by (auto simp: list_all_iff)
  have "list_all segOk ?ss" using new old(1) by (auto simp: list_all_iff dataThere_def)
  then have "entriesOf M = ?ss" using assms(1) entriesOf_encode [of ?ss "[]"] by (simp add: uploaded_def entriesOf_short)
  then show "whole (sess M ?d B)" "stored (sess M ?d B) = map (contentOf d) es @ map recContent rs"
    using old new by (simp_all add: stored_iff whole_iff)
qed

lemma does_finish:
  assumes W: "stable W" and up: "uploaded es d rs M mbuf" "list_all (dataThere d) es" "list_all chunkOk rs" "length d + length (dataOf rs) < 2 ^ 63"
    and E: "\<And>s se. F \<Longrightarrow> having W lim se s \<Longrightarrow> storedPrefix (map (contentOf d) es) (map recContent rs) se \<Longrightarrow> E s"
  shows "does F (having W lim (sess M (d @ dataOf rs) B)) (bind syncCall (\<lambda>_. bind (bufFlush mbuf) (\<lambda>_. syncCall)))
    (\<lambda>_. having W lim (sess (M @ mbuf) (d @ dataOf rs) B)) E"
proof -
  have len: "21 * length es \<le> length M" using up(1) by (simp add: uploaded_def)
  have e: "E s" if "F" "having W lim (sess (M @ take k mbuf) (d @ dataOf rs) B) s" for s k
    using E [OF that] uploaded_stored [of es d rs "M @ take k mbuf" "[]" "drop k mbuf" "[]" "[]" B] uploaded_cut [OF up(1)] up(2-4) len by simp
  have sync: "does F (having W lim (sess (M @ take k mbuf) (d @ dataOf rs) B)) syncCall (\<lambda>_. having W lim (sess (M @ take k mbuf) (d @ dataOf rs) B)) E" for k
    by (rule does_sync [OF W e])
  have "does F (having W lim (sess M (d @ dataOf rs) B)) (bufFlush mbuf) (\<lambda>_. having W lim (sess (M @ mbuf) (d @ dataOf rs) B)) E"
  proof (cases "mbuf = []")
    case True
    then show ?thesis by (simp add: bufFlush_def does_pass)
  next
    case False
    then show ?thesis using does_append(1) [OF W e] by (simp add: bufFlush_def)
  qed
  then show ?thesis using sync [of 0] sync [of "length mbuf"] by (intro does_bind) simp_all
qed

lemma does_upload:
  assumes W: "stable W" and whole: "whole se" and len: "length (dataIn se) + length body < 2 ^ 63"
    and m: "m = bind (orStatus 500 openSession) (\<lambda>_.
      bind (orStatus 500 (fileCall (\<lambda>s. (Inr (length (contentsOf (se_data (theSession s)))), s)))) (\<lambda>pos.
      bind (uploadLoop body pos []) (\<lambda>mbuf.
      bind (orStatus 500 (bind syncCall (\<lambda>_. bind (bufFlush mbuf) (\<lambda>_. syncCall)))) (\<lambda>_. pass Stored))))"
  shows "does F (having W lim se) m
    (\<lambda>a s. \<exists>se'. (a = Stored \<and> cleanBody body \<and> whole se' \<and> stored se' = stored se @ map recContent (sentRecords body)) \<and> having W lim se' s)
    (\<lambda>s. \<exists>se'. ((F \<or> \<not> cleanBody body \<or> overLimit lim (sentRecords body)) \<and> storedPrefix (stored se) (map recContent (sentRecords body)) se') \<and> having W lim se' s)"
    (is "does F _ _ ?Q ?E")
proof -
  let ?es = "entries se" and ?d = "dataIn se" and ?B = "baseIn se" and ?rs = "sentRecords body"
  have es: "list_all (dataThere ?d) ?es" using whole by (simp add: whole_iff)
  have st: "stored se = map (contentOf ?d) ?es" by (simp add: stored_iff)
  have "storedPrefix (stored se) (map recContent ?rs) se'" if "alike se se'" for se'
    using that whole unfolding storedPrefix_def by (intro conjI exI [of _ 0]) (simp_all add: whole_iff stored_iff alike_def)
  then have op: "does F (having W lim se) openSession (\<lambda>_. having W lim (sess (encodeSegs ?es) ?d ?B)) ?E"
    by (intro does_openSession [OF W whole]) blast
  have start: "uploaded ?es ?d [] (encodeSegs ?es) []" by (simp add: uploaded_def)
  have e0: "?E s" if "F" "having W lim (sess (encodeSegs ?es) ?d ?B) s" for s
    using that uploaded_stored [of ?es ?d "[]" "encodeSegs ?es" "[]" "[]" ?rs "[]" ?B] start es len sentRecords_ok st by auto
  have seek: "does F (having W lim (sess (encodeSegs ?es) ?d ?B)) (fileCall (\<lambda>s. (Inr (length (contentsOf (se_data (theSession s)))), s)))
      (\<lambda>pos s. pos = length ?d \<and> having W lim (sess (encodeSegs ?es) ?d ?B) s) ?E"
    by (rule does_fileCall [OF W]) (use e0 in \<open>auto simp: theSession_simps contentsOf_def\<close>)
  have loop: "does F (having W lim (sess (encodeSegs ?es) (?d @ dataOf []) ?B)) (uploadLoop body (length (?d @ dataOf [])) [])
      (\<lambda>mbuf' s. cleanBody body \<and> (\<exists>M'. (uploaded ?es ?d ([] @ ?rs) M' mbuf' \<and> length mbuf' \<le> bufSize)
        \<and> having W lim (sess M' (?d @ dataOf ([] @ ?rs)) ?B) s)) ?E"
    by (rule does_uploadLoop [OF W start]) (use es len st in auto)
  have rs: "list_all chunkOk ?rs" "length ?d + length (dataOf ?rs) < 2 ^ 63" using sentRecords_ok sentRecords_data [of body] len by simp_all
  have finish: "does F (having W lim (sess M (?d @ dataOf ?rs) ?B))
      (bind (orStatus 500 (bind syncCall (\<lambda>_. bind (bufFlush mbuf) (\<lambda>_. syncCall)))) (\<lambda>_. pass Stored)) ?Q ?E"
    if "cleanBody body" "uploaded ?es ?d ?rs M mbuf" for M mbuf
  proof (rule does_bind [OF does_orStatus [OF does_finish [OF W that(2) es rs]]])
    show "does F (having W lim (sess (M @ mbuf) (?d @ dataOf ?rs) ?B)) (pass Stored) ?Q ?E"
      using that uploaded_all [of ?es ?d ?rs "M @ mbuf" ?B] es rs st by (intro does_pass exI [of _ "sess (M @ mbuf) (?d @ dataOf ?rs) ?B"]) (simp add: uploaded_def)
  qed (use st in auto)
  let ?last = "\<lambda>mbuf. bind (orStatus 500 (bind syncCall (\<lambda>_. bind (bufFlush mbuf) (\<lambda>_. syncCall)))) (\<lambda>_. pass Stored)"
  have rest: "does F (having W lim (sess (encodeSegs ?es) ?d ?B)) (bind (uploadLoop body (length ?d) []) ?last) ?Q ?E"
  proof (rule does_bind)
    show "does F (having W lim (sess (encodeSegs ?es) ?d ?B)) (uploadLoop body (length ?d) [])
      (\<lambda>mbuf' s. cleanBody body \<and> (\<exists>M'. (uploaded ?es ?d ?rs M' mbuf' \<and> length mbuf' \<le> bufSize) \<and> having W lim (sess M' (?d @ dataOf ?rs) ?B) s)) ?E"
      using loop by simp
  next
    fix mbuf
    show "does F (\<lambda>s. cleanBody body \<and> (\<exists>M'. (uploaded ?es ?d ?rs M' mbuf \<and> length mbuf \<le> bufSize) \<and> having W lim (sess M' (?d @ dataOf ?rs) ?B) s)) (?last mbuf) ?Q ?E"
      by (intro does_fact does_ex) (rule finish, simp_all)
  qed
  have "does F (\<lambda>s. pos = length ?d \<and> having W lim (sess (encodeSegs ?es) ?d ?B) s) (bind (uploadLoop body pos []) ?last) ?Q ?E" for pos
    by (rule does_fact) (use rest in simp)
  then show ?thesis unfolding m by (rule does_bind [OF does_orStatus [OF op] does_bind [OF does_orStatus [OF seek]]])
qed

text \<open>What an upload answers, and what it leaves.\<close>

lemma upload_result:
  assumes "whole (rv_session s)" "length (dataIn (rv_session s)) + length body < 2 ^ 63" "upload body s = (a, s')"
    and calm: "calm F (rv_vol s)"
  shows "having (\<lambda>v. \<exists>fs. v = (rv_vol s)\<lparr>vo_faults := fs\<rparr>) (vmLimit s) (rv_session s') s'
    \<and> (a = Stored \<and> cleanBody body \<and> whole (rv_session s')
         \<and> stored (rv_session s') = stored (rv_session s) @ map recContent (sentRecords body)
       \<or> (\<exists>c e. a = Refused c e) \<and> (F \<or> \<not> cleanBody body \<or> overLimit (vmLimit s) (sentRecords body))
         \<and> storedPrefix (stored (rv_session s)) (map recContent (sentRecords body)) (rv_session s'))"
proof -
  define m where "m = bind (orStatus 500 openSession) (\<lambda>_.
      bind (orStatus 500 (fileCall (\<lambda>s. (Inr (length (contentsOf (se_data (theSession s)))), s)))) (\<lambda>pos.
      bind (uploadLoop body pos []) (\<lambda>mbuf.
      bind (orStatus 500 (bind syncCall (\<lambda>_. bind (bufFlush mbuf) (\<lambda>_. syncCall)))) (\<lambda>_. pass Stored))))"
  let ?W = "\<lambda>v. \<exists>fs. v = (rv_vol s)\<lparr>vo_faults := fs\<rparr>"
  have W: "stable ?W" by (auto simp: stable_def)
  have "rv_vol s = (rv_vol s)\<lparr>vo_faults := vo_faults (rv_vol s)\<rparr>" by simp
  then have s: "having ?W (vmLimit s) (rv_session s) s" unfolding having_def by blast
  have ref: "refuses m" unfolding m_def by (intro refuses_rules refuses_uploadLoop)
  obtain r where r: "m s = (r, s')" "r = Inr a \<or> r = Inl a"
    using assms(3) by (cases "m s") (auto simp: upload_def answerOf_def m_def split: sum.splits)
  note res = doesD [OF does_upload [OF W assms(1,2) m_def, of F "vmLimit s"] s calm r(1)]
  show ?thesis
  proof (cases r)
    case (Inl e)
    then have "\<exists>c e. a = Refused c e" using ref r unfolding refuses_def by (metis sum.inject(1) sum.distinct(1))
    then show ?thesis using res Inl r(2) by (auto simp: having_def)
  next
    case (Inr x)
    then show ?thesis using res r(2) by (auto simp: having_def)
  qed
qed

section \<open>What the receiver shows\<close>

text \<open>
  C33: An upload stores records in the order they were sent and never part of one: whatever call fails on the way, and
  wherever the body ends, each segment of the session afterwards has its data, and the session stands for the records it
  held before and then the first of the records sent. The answer Stored is given only when the body is a sequence of
  whole records and all of them are stored, and is given for such a body when no call fails and no record is past the
  limit. The backup is not touched.
\<close>

theorem upload_stores_records:
  assumes "whole (rv_session s)" "length (dataIn (rv_session s)) + length body < 2 ^ 63" "upload body s = (a, s')"
  shows "whole (rv_session s')
    \<and> (\<exists>j. stored (rv_session s') = stored (rv_session s) @ take j (map recContent (sentRecords body)))
    \<and> (a = Stored \<longrightarrow> cleanBody body \<and> stored (rv_session s') = stored (rv_session s) @ map recContent (sentRecords body))
    \<and> (vo_faults (rv_vol s) = [] \<and> cleanBody body \<and> \<not> overLimit (vmLimit s) (sentRecords body) \<longrightarrow> a = Stored)
    \<and> rv_vol s' = (rv_vol s)\<lparr>vo_faults := vo_faults (rv_vol s')\<rparr>"
proof -
  have "calm (vo_faults (rv_vol s) \<noteq> []) (rv_vol s)" by (simp add: calm_def)
  note res = upload_result [OF assms this]

  have vol: "rv_vol s' = (rv_vol s)\<lparr>vo_faults := vo_faults (rv_vol s')\<rparr>" using res by (auto simp: having_def)
  consider (all) "a = Stored" "cleanBody body" "whole (rv_session s')" "stored (rv_session s') = stored (rv_session s) @ map recContent (sentRecords body)"
    | (some) "a \<noteq> Stored" "vo_faults (rv_vol s) \<noteq> [] \<or> \<not> cleanBody body \<or> overLimit (vmLimit s) (sentRecords body)"
      "storedPrefix (stored (rv_session s)) (map recContent (sentRecords body)) (rv_session s')"
    using res by (elim conjE disjE exE) simp_all
  then show ?thesis
  proof cases
    case all
    then show ?thesis using vol by (simp add: exI [of _ "length (sentRecords body)"])
  next
    case some
    then show ?thesis using vol unfolding storedPrefix_def by blast
  qed
qed

text \<open>The bytes of valid records are read back as these records.\<close>

lemma sentRecords_Write: "list_all chunkOk rs \<Longrightarrow> sentRecords (concat (map WriteUploadRecord rs)) = rs"
proof (induction rs)
  case Nil
  then show ?case using sentRecords_Inl [of "[]"] by (cases "ReadUploadRecord [] (of_nat compareChunk)") (auto dest: ReadUploadRecord_rest)
next
  case (Cons r rs)
  then show ?case using sentRecords_Inr(1) [OF ReadUploadRecord_Write [of _ r]] by simp
qed

definition exampleRecords :: "UploadRecord list" where
  "exampleRecords = [\<lparr>ur_Off = 1, ur_Zero = False, ur_Len = 2, ur_Data = [8, 9]\<rparr>, \<lparr>ur_Off = 3, ur_Zero = True, ur_Len = 1, ur_Data = []\<rparr>]"

definition exampleReceiver :: receiver where
  "exampleReceiver = \<lparr>rv_vol = exampleVolume, rv_session = None, rv_lease = None, rv_maxVMDiskBytes = 0\<rparr>"

theorem upload_stores_records_witness:
  "\<exists>s'. upload (concat (map WriteUploadRecord exampleRecords)) exampleReceiver = (Stored, s')
     \<and> stored (rv_session s') = [(1, SData [8, 9]), (3, SZero 1)]"
proof -
  let ?body = "concat (map WriteUploadRecord exampleRecords)"
  obtain a s' where u: "upload ?body exampleReceiver = (a, s')" by (rule prod.exhaust)
  have rs: "sentRecords ?body = exampleRecords"
    by (rule sentRecords_Write) (simp add: exampleRecords_def uploadOk_def compareChunk_def)
  have "length ?body < 100" by (simp add: exampleRecords_def WriteUploadRecord_def recordLen_def)
  then show ?thesis using upload_stores_records [OF _ _ u] u rs
    by (auto simp: exampleReceiver_def exampleVolume_def whole_def dataIn_def stored_def cleanBody_def vmLimit_def DefaultMaxVMDiskBytes_def exampleRecords_def recContent_def)
qed

end
