(* ===== verification/Vm_Commit.thy ===== *)
theory Vm_Commit
  imports Vm_Receiver_Properties
begin

text \<open>
  What a commit does to the backup: the stored copy meets the contract of a copy source, and a commit applies it
  exactly when it starts from the moment the disk shows and the digest of the stored records is the one asked for.
\<close>

section \<open>The stored copy as a source\<close>












section \<open>The segments of a session\<close>









section \<open>Checking the stored copy\<close>








section \<open>The moment of the disk\<close>

definition momentIn :: "volume \<Rightarrow> int option" where
  "momentIn v = map_option mf_Moment (vo_moment v)"




























section \<open>The steps of a commit\<close>

lemma vmLimit_update [simp]: "vmLimit (s\<lparr>rv_vol := v\<rparr>) = vmLimit s" "vmLimit (s\<lparr>rv_session := se\<rparr>) = vmLimit s"
  "vmLimit (s\<lparr>rv_lease := l\<rparr>) = vmLimit s"
  by (simp_all add: vmLimit_def)











section \<open>Applying the copy\<close>

lemma backup_update [simp]:
  "sound n (v\<lparr>vo_faults := fs\<rparr>) = sound n v" "backup (v\<lparr>vo_faults := fs\<rparr>) = backup v" "momentIn (v\<lparr>vo_faults := fs\<rparr>) = momentIn v"
  "sound n (v\<lparr>vo_moment := m\<rparr>) = sound n v" "backup (v\<lparr>vo_moment := m\<rparr>) = backup v"
  by (simp_all add: sound_def backup_def folder_def contents_def momentIn_def Let_def)










section \<open>The whole commit\<close>




















section \<open>What a commit shows\<close>









end
