(* ===== verification/Spec2Isabelle.thy ===== *)
theory Spec2Isabelle
  imports Reconciler_Properties Volume_Locks Disk_View_Properties Vm_Commit
begin

text \<open>
  A verification library for \<^verbatim>\<open>ibm-vpc-file-pool-csi\<close>, a storage driver that cuts many volumes out of a few large
  NFS file shares and keeps copies of virtual machine disks at a second site. This theory imports all others and holds no
  definitions; paths are relative to \<^verbatim>\<open>src/\<close>.

  \<^bold>\<open>The program.\<close> A FileSharePool describes shares of the IBM VPC file service. The \<^emph>\<open>manager\<close>
  (\<^verbatim>\<open>pkg/pool/manager.go\<close>) places volumes on shares and books their sizes in the status of the pool; the
  \<^emph>\<open>reconciler\<close> (\<^verbatim>\<open>pkg/pool/reconciler.go\<close>) makes and deletes shares, drains them and counts the books again. Both
  work through a Kubernetes client and a VPC client. On the other side, \<^verbatim>\<open>pkg/replication\<close> applies copies of disks to
  a backup, keeps undo files as restore points, rewinds and shows earlier versions, and receives the copies over the network;
  \<^verbatim>\<open>pkg/qcow2\<close> reads the images that copies come in.

  \<^bold>\<open>Conventions.\<close> A Go struct is a record with one field per Go field, an interface is a record of operations, and
  state is passed on: the world \<open>'w\<close> of the clients in the first half, the files of a volume in the second. Errors are
  values of a sum. A Go map is an association list, an int64 an \<open>int\<close> with \<open>wrap64\<close> where a sum may
  overflow, a fixed-width unsigned integer a word, a time its nanoseconds since 1970. Code outside the repository is a
  parameter: the API server, the VPC service, clocks, SHA-256. What is relied on of it is a locale, and each locale is
  interpreted by definitions of the model (the in-memory API server \<open>mem_cr\<close>, the fake VPC client, the two kinds of copy).

  \<^bold>\<open>Pools.\<close>
  \<^item> \<open>Prelude\<close>: Go integers, strings and numbers as text, association lists.
  \<^item> \<open>Api_Types\<close>: the resources of \<^verbatim>\<open>api/v1alpha1\<close>. \<open>K8s_Client\<close>: \<^verbatim>\<open>pkg/k8s\<close>, the client interface and the
    real client; the locale \<open>k8s_api\<close> is its contract and \<open>api_server\<close> that of the server behind it.
  \<^item> \<open>Vpc_Client\<close>: \<^verbatim>\<open>pkg/ibmcloud\<close>, with the poll loops as recursion on the rounds that the timeout allows; when the
    clock advances these are enough, and \<open>Fake_Vpc.create_calls_end\<close> shows that creating ends within them. The IOPS table and
    the parts of a mount path are proved here. \<open>Fake_Vpc\<close>: the fake client, and that a created or adopted share is
    claimed by no pool.
  \<^item> \<open>Share_Select\<close>: \<^verbatim>\<open>pkg/pool/share.go\<close> against a specification of the best share. \<open>Share_Network\<close>:
    \<^verbatim>\<open>share_network.go\<close>. \<open>Util_Paths\<close>: \<^verbatim>\<open>pkg/util/path.go\<close>, \<^verbatim>\<open>volume_id.go\<close>; joined paths stay under their base.
    \<open>Storage_Classes\<close>: \<^verbatim>\<open>storageclass.go\<close>, \<^verbatim>\<open>mountoptions.go\<close>; how mount options override each other.
  \<^item> \<open>Manager_Volumes\<close>: Allocate, CloneVolume, reserveRestore, Deallocate and Expand. \<open>Share_Books\<close> and
    \<open>Manager_Books\<close> show that each critical section keeps the books equal to a recount and over-commits no share, from the
    contract \<open>pool_env\<close>, as long as no write of a pool's status is lost: where the code logs such a failure and goes on, the
    books are off until the next recount. \<open>Manager_Properties\<close> states it for every sequence of operations, with what an
    allocation leaves and returns and that it can be repeated.
  \<^item> \<open>Reconciler\<close> and \<open>Reconciler_Properties\<close>: a whole pass. It repairs any books when the lists of its recount are served,
    deletes nothing while golden images, volumes or snapshots exist, keeps the share limits, and the phase and the drain
    marks mean what allocations will meet. A status update that meets a conflict is retried as often as the code
    retries it.
  \<^item> \<open>Volume_Locks\<close>: \<^verbatim>\<open>volume_locks.go\<close> as moves of several callers, with the two nested locks of \<^verbatim>\<open>RestoreSnapshot\<close>;
    exclusion, and that every schedule ends when a caller that holds a lock asks only for the lock of an older
    volume, as a restore does.

  \<^bold>\<open>Assumptions of the pool half.\<close> A read of the API server returns the present state, where \<^verbatim>\<open>cmd/main.go\<close> reads
  through a cache that may lag behind; a write from such a stale read fails with a conflict, which is one of the failures that
  the contracts allow. Any call may fail. The server keeps the UID and the generation that it is given, and
  taking away the last finalizer is the end of the model of a deletion: the object is not removed. The status of a condition
  is true or false, as no code here writes Unknown. The golden image remover of the reconciler is a parameter.

  \<^bold>\<open>Disks.\<close>
  \<^item> \<open>Bytes\<close>: big-endian numbers and files as byte lists. \<open>Qcow2\<close>: Open, Walk, DataReader and WriteRaw; the walk
    agrees with the L1 and L2 tables byte by byte.
  \<^item> \<open>Undo_Files\<close>: the format of undo files, read back exactly. \<open>Undo_Volume\<close>: \<^verbatim>\<open>undo.go\<close>, \<^verbatim>\<open>moment.go\<close>,
    \<^verbatim>\<open>diskstate.go\<close>, \<^verbatim>\<open>restore.go\<close>, \<^verbatim>\<open>vmdisk.go\<close> as actions on the files of a volume. \<open>vo_faults\<close> says of each call to
    come whether it works, fails, or writes only a first part; a stop of the process is the failure of all later calls, since
    what a failed call leaves is what the next start finds.
  \<^item> \<open>Undo_Steps\<close>, \<open>Undo_Chain\<close>, \<open>Undo_Proofs\<close>, \<open>Undo_Copy\<close>, \<open>Copy_Sources\<close>, \<open>Undo_Backup\<close>: a logic \<open>runs\<close> for such
    actions, the \<open>backup\<close> that the files stand for (the disk and its earlier versions), the contract \<open>copy_source\<close> of a
    copy, and one rule per operation. \<open>Undo_Properties\<close>: applying is atomic, sequences of copies refine the backup, and
    rewinding gives the version asked for.
  \<^item> \<open>Disk_View\<close> and \<open>Disk_View_Properties\<close>: \<^verbatim>\<open>diskview.go\<close>, \<^verbatim>\<open>diskview_source.go\<close>; a view reads the bytes that rewinding
    would write.
  \<^item> \<open>Vm_Wire\<close>: \<^verbatim>\<open>vmwire.go\<close>. \<open>Vm_Receiver\<close>: the calls of \<^verbatim>\<open>receiver_vm.go\<close>. \<open>Vm_Receiver_Properties\<close>: an upload
    stores whole records in order whatever fails. \<open>Vm_Commit\<close>: the stored copy meets \<open>copy_source\<close>, a commit that is
    answered as done was in order and has been applied as a whole, and one in order is applied when no call fails.

  \<^bold>\<open>Assumptions of the disk half.\<close> Writes reach a file in the order they are made, so a sync can fail but has no other
  effect, and the limit of unwritten pages in \<^verbatim>\<open>dirty.go\<close> has no part in the model. Opening a folder has no failure of its
  own; the first call in it does. Reading a copy source does not fail. The results on applying copies and on commits are for a
  disk that exists and copies that are not smaller than it, at most the size limit of the code, and for fewer than \<open>2 ^ 63\<close>
  undo files, so that their numbers do not wrap. A smaller copy is accepted by the code, but the bytes it cuts off are not
  saved, and the restore point it makes has zeros there. A moment file is missing or holds a moment; one that is not JSON
  does not occur. The disk of a view is one file throughout, so the comparison of file identities is left out. Image sizes
  are natural numbers; the guard at \<open>2 ^ 62\<close> keeps them within an int64. Recursions are over lists or with a termination proof;
  no fuel is used there.

  \<^bold>\<open>Not modelled.\<close> The CSI driver (\<^verbatim>\<open>pkg/driver\<close>) turns requests into calls of the manager and mounts folders through
  the system. Snapshots and group snapshots of the manager copy folders by jobs; their sizes enter the books, their
  operations do not. Controllers for backups, exports, file restore, browsing, failover, golden images and benchmarks build
  Kubernetes Jobs and objects of other operators, whose effects happen in other processes. The receiver's routing,
  authentication, locks and clean-up, and the sending side, are network code around the calls that are modelled. The gateway,
  the block device server, metrics, the web console and the command line tools are input and output.
\<close>

end
